(* ===== verification/Prelude.thy ===== *)
theory Prelude
  imports Main "HOL-Library.Word" "HOL-Library.Sublist"
begin

text \<open>
  What the components share. A Go string is a list of bytes, \<^typ>\<open>string\<close> (a \<^typ>\<open>char\<close> is a byte);
  a \<open>(T, error)\<close> result is a sum with the error on the left. The first part models the functions of
  Go's \<open>strings\<close> and \<open>strconv\<close> packages that the code calls, the second the lemmas about them
  that the component theories use, collected in \<open>gostr\<close>. The last part is the interface of a
  three-way comparison and the order lemmas that follow from it.
\<close>

named_theorems gostr \<open>facts about the string functions\<close>

type_synonym ('e, 'a) res = "'e + 'a"

section \<open>Results\<close>

definition is_ok :: "('e, 'a) res \<Rightarrow> bool" where
  "is_ok r = (case r of Inl _ \<Rightarrow> False | Inr _ \<Rightarrow> True)"

lemma is_ok_simps [simp]: "is_ok (Inr x)" "\<not> is_ok (Inl e)"
  by (simp_all add: is_ok_def)

lemma is_ok_iff: "is_ok r \<longleftrightarrow> (\<exists>x. r = Inr x)"
  by (cases r) auto

section \<open>Bytes\<close>

abbreviation byte :: "char \<Rightarrow> nat" where
  "byte c \<equiv> of_char c"

lemma byte_inj [simp]: "byte a = byte b \<longleftrightarrow> a = b"
  by (simp add: of_char_eq_iff)

lemma byte_less_256: "byte c < 256"
  using of_char_mod_256 [of c] by (metis mod_less_divisor zero_less_numeral)

definition is_digit :: "char \<Rightarrow> bool" where
  "is_digit c \<longleftrightarrow> 48 \<le> byte c \<and> byte c \<le> 57"

definition is_hex_digit :: "char \<Rightarrow> bool" where
  "is_hex_digit c \<longleftrightarrow> is_digit c \<or> (97 \<le> byte c \<and> byte c \<le> 102) \<or> (65 \<le> byte c \<and> byte c \<le> 70)"

section \<open>Searching, prefixes and suffixes\<close>

definition has_prefix :: "string \<Rightarrow> string \<Rightarrow> bool" where
  "has_prefix s p \<longleftrightarrow> take (length p) s = p"

definition has_suffix :: "string \<Rightarrow> string \<Rightarrow> bool" where
  "has_suffix s p \<longleftrightarrow> has_prefix (rev s) (rev p)"

definition trim_prefix :: "string \<Rightarrow> string \<Rightarrow> string" where
  "trim_prefix s p = (if has_prefix s p then drop (length p) s else s)"

definition trim_suffix :: "string \<Rightarrow> string \<Rightarrow> string" where
  "trim_suffix s p = (if has_suffix s p then take (length s - length p) s else s)"

text \<open>\<open>strings.Index\<close>: the position of the first occurrence, \<open>None\<close> for -1.\<close>

fun str_index :: "string \<Rightarrow> string \<Rightarrow> nat option" where
  "str_index [] p = (if p = [] then Some 0 else None)"
| "str_index (c # cs) p =
     (if has_prefix (c # cs) p then Some 0 else map_option Suc (str_index cs p))"

definition str_contains :: "string \<Rightarrow> string \<Rightarrow> bool" where
  "str_contains s p \<longleftrightarrow> str_index s p \<noteq> None"

definition contains_any :: "string \<Rightarrow> string \<Rightarrow> bool" where
  "contains_any s cs \<longleftrightarrow> list_ex (\<lambda>c. c \<in> set cs) s"

text \<open>\<open>strings.LastIndex\<close> for a one-byte needle.\<close>

definition last_index :: "string \<Rightarrow> char \<Rightarrow> nat option" where
  "last_index s c = (if c \<in> set s then Some (length s - 1 - length (takeWhile (\<lambda>x. x \<noteq> c) (rev s))) else None)"

text \<open>\<open>strings.Split\<close> with a one-byte separator: always at least one part.\<close>

fun split_on :: "char \<Rightarrow> string \<Rightarrow> string list" where
  "split_on c [] = [[]]"
| "split_on c (x # xs) =
     (if x = c then [] # split_on c xs
      else (case split_on c xs of [] \<Rightarrow> [[x]] | p # ps \<Rightarrow> (x # p) # ps))"

fun join_with :: "string \<Rightarrow> string list \<Rightarrow> string" where
  "join_with sep [] = []"
| "join_with sep [p] = p"
| "join_with sep (p # q # ps) = p @ sep @ join_with sep (q # ps)"

section \<open>TrimSpace\<close>

text \<open>
  The encodings of the runes \<open>unicode.IsSpace\<close> accepts: six ASCII bytes, U+0085, U+00A0, U+1680,
  U+2000 to U+200A, U+2028, U+2029, U+202F, U+205F and U+3000.
\<close>

definition space_seqs :: "string list" where
  "space_seqs =
     [[CHR 0x09], [CHR 0x0A], [CHR 0x0B], [CHR 0x0C], [CHR 0x0D], [CHR 0x20],
      [CHR 0xC2, CHR 0x85], [CHR 0xC2, CHR 0xA0], [CHR 0xE1, CHR 0x9A, CHR 0x80],
      [CHR 0xE2, CHR 0x80, CHR 0x80], [CHR 0xE2, CHR 0x80, CHR 0x81], [CHR 0xE2, CHR 0x80, CHR 0x82],
      [CHR 0xE2, CHR 0x80, CHR 0x83], [CHR 0xE2, CHR 0x80, CHR 0x84], [CHR 0xE2, CHR 0x80, CHR 0x85],
      [CHR 0xE2, CHR 0x80, CHR 0x86], [CHR 0xE2, CHR 0x80, CHR 0x87], [CHR 0xE2, CHR 0x80, CHR 0x88],
      [CHR 0xE2, CHR 0x80, CHR 0x89], [CHR 0xE2, CHR 0x80, CHR 0x8A], [CHR 0xE2, CHR 0x80, CHR 0xA8],
      [CHR 0xE2, CHR 0x80, CHR 0xA9], [CHR 0xE2, CHR 0x80, CHR 0xAF], [CHR 0xE2, CHR 0x81, CHR 0x9F],
      [CHR 0xE3, CHR 0x80, CHR 0x80]]"

text \<open>Drop one leading sequence of the list, if the string starts with one.\<close>

definition strip_one :: "string list \<Rightarrow> string \<Rightarrow> string option" where
  "strip_one seqs s = (case find (\<lambda>q. has_prefix s q) seqs of None \<Rightarrow> None | Some q \<Rightarrow> Some (drop (length q) s))"

fun strip_many :: "nat \<Rightarrow> string list \<Rightarrow> string \<Rightarrow> string" where
  "strip_many 0 seqs s = s"
| "strip_many (Suc n) seqs s =
     (case strip_one seqs s of None \<Rightarrow> s | Some r \<Rightarrow> strip_many n seqs r)"

text \<open>A pass drops at least one byte, so as many passes as there are bytes are enough.\<close>

definition trim_left :: "string \<Rightarrow> string" where
  "trim_left s = strip_many (length s) space_seqs s"

definition trim_right :: "string \<Rightarrow> string" where
  "trim_right s = rev (strip_many (length s) (map rev space_seqs) (rev s))"

definition trim_space :: "string \<Rightarrow> string" where
  "trim_space s = trim_right (trim_left s)"

section \<open>Numbers\<close>

text \<open>What \<open>io.LimitReader\<close> lets through.\<close>

definition read_limited :: "int \<Rightarrow> string \<Rightarrow> string" where
  "read_limited lim b = (if int (length b) > lim then take (nat lim) b else b)"

definition dec_value :: "string \<Rightarrow> nat" where
  "dec_value ds = foldl (\<lambda>a c. 10 * a + (byte c - 48)) 0 ds"

text \<open>\<open>strconv.Atoi\<close>: an optional sign, decimal digits, and a value that fits 64 bits.\<close>

definition atoi :: "string \<Rightarrow> int option" where
  "atoi s =
     (let (neg, ds) =
        (case s of [] \<Rightarrow> (False, [])
         | c # cs \<Rightarrow> if c = CHR ''-'' then (True, cs) else if c = CHR ''+'' then (False, cs) else (False, s));
        v = (if neg then - int (dec_value ds) else int (dec_value ds))
      in if ds = [] \<or> \<not> list_all is_digit ds then None
         else if - (2 ^ 63) \<le> v \<and> v < 2 ^ 63 then Some v else None)"

definition digit_char :: "nat \<Rightarrow> char" where
  "digit_char d = char_of (48 + d)"

fun nat_str :: "nat \<Rightarrow> string" where
  "nat_str n = (if n < 10 then [digit_char n] else nat_str (n div 10) @ [digit_char (n mod 10)])"

declare nat_str.simps [simp del]

text \<open>The decimal rendering of an \<open>int\<close> by \<open>fmt\<close> and \<open>strconv.Itoa\<close>.\<close>

definition int_str :: "int \<Rightarrow> string" where
  "int_str i = (if i < 0 then CHR ''-'' # nat_str (nat (- i)) else nat_str (nat i))"

section \<open>Lemmas about prefixes and splitting\<close>

lemma has_prefix_iff [gostr]: "has_prefix s p \<longleftrightarrow> (\<exists>r. s = p @ r)"
  by (metis append_eq_conv_conj append_take_drop_id has_prefix_def)

lemma has_suffix_iff [gostr]: "has_suffix s p \<longleftrightarrow> (\<exists>r. s = r @ p)"
  by (metis has_prefix_iff has_suffix_def rev_append rev_rev_ident)

lemma has_prefix_append [simp]: "has_prefix (p @ r) p"
  by (simp add: has_prefix_def)

lemma has_prefix_Nil [simp]: "has_prefix s []"
  by (simp add: has_prefix_def)

lemma trim_prefix_append [simp]: "trim_prefix (p @ r) p = r"
  by (simp add: trim_prefix_def)

lemma trim_suffix_append [simp]: "trim_suffix (r @ p) p = r"
  by (auto simp: trim_suffix_def has_suffix_iff)

lemma str_index_Some: "str_index s p = Some i \<Longrightarrow> i \<le> length s \<and> (\<exists>r. s = take i s @ p @ r)"
proof (induction s arbitrary: i)
  case Nil
  then show ?case by (auto split: if_splits)
next
  case (Cons c cs)
  show ?case
  proof (cases "has_prefix (c # cs) p")
    case True
    with Cons.prems show ?thesis by (auto simp: has_prefix_iff)
  next
    case False
    with Cons.prems obtain j where j: "str_index cs p = Some j" and i: "i = Suc j" by auto
    from Cons.IH [OF j] i show ?thesis by auto
  qed
qed

lemma str_index_single: "str_index s [c] = (if c \<in> set s then Some (length (takeWhile (\<lambda>x. x \<noteq> c) s)) else None)"
  by (induction s) (auto simp: has_prefix_def)

lemma str_contains_iff: "str_contains s p \<longleftrightarrow> (\<exists>a b. s = a @ p @ b)"
proof (induction s)
  case Nil
  then show ?case by (simp add: str_contains_def)
next
  case (Cons c cs)
  show ?case
  proof (cases "has_prefix (c # cs) p")
    case True
    then have "str_contains (c # cs) p" by (simp add: str_contains_def)
    moreover from True have "\<exists>a b. c # cs = a @ p @ b"
      by (metis append_Nil has_prefix_iff)
    ultimately show ?thesis by blast
  next
    case False
    then have "str_contains (c # cs) p \<longleftrightarrow> str_contains cs p" by (simp add: str_contains_def)
    also have "\<dots> \<longleftrightarrow> (\<exists>a b. c # cs = a @ p @ b)"
      using False Cons.IH
      by (auto simp: has_prefix_iff) (metis append_Cons, metis append_self_conv2 list.sel(3) tl_append2)
    finally show ?thesis .
  qed
qed

lemma contains_any_iff [gostr]: "contains_any s cs \<longleftrightarrow> set s \<inter> set cs \<noteq> {}"
  by (auto simp: contains_any_def list_ex_iff)

lemma split_on_ne [simp]: "split_on c s \<noteq> []"
  by (induction s) (auto split: list.splits)

lemma split_on_no_sep: "c \<notin> set s \<Longrightarrow> split_on c s = [s]"
  by (induction s) auto

lemma split_on_append: "c \<notin> set a \<Longrightarrow> split_on c (a @ c # b) = a # split_on c b"
  by (induction a) auto

lemma split_on_parts: "p \<in> set (split_on c s) \<Longrightarrow> c \<notin> set p"
  by (induction s arbitrary: p) (auto split: if_splits list.splits)

lemma split_on_subset: "p \<in> set (split_on c s) \<Longrightarrow> set p \<subseteq> set s"
proof (induction s arbitrary: p)
  case (Cons x xs)
  obtain q qs where q: "split_on c xs = q # qs" by (metis list.exhaust split_on_ne)
  have "set q \<subseteq> set xs" using Cons.IH q by auto
  moreover have "set p \<subseteq> set xs" if "p \<in> set qs" using Cons.IH q that by auto
  ultimately show ?case using Cons.prems q by (auto split: if_splits)
qed simp

lemma join_split: "join_with [c] (split_on c s) = s"
proof (induction s)
  case (Cons x xs)
  obtain q qs where q: "split_on c xs = q # qs" by (metis list.exhaust split_on_ne)
  with Cons.IH show ?case by (cases qs) auto
qed simp

section \<open>Lemmas about trimming\<close>

lemma strip_one_shorter: "[] \<notin> set seqs \<Longrightarrow> strip_one seqs s = Some r \<Longrightarrow> length r < length s"
  by (auto simp: strip_one_def has_prefix_def find_Some_iff split: option.splits)
     (metis diff_less length_0_conv length_greater_0_conv length_take min.absorb4 nat_less_le nth_mem take_eq_Nil)

lemma strip_many_fixed: "strip_one seqs s = None \<Longrightarrow> strip_many n seqs s = s"
  by (cases n) auto

lemma strip_many_done:
  assumes "[] \<notin> set seqs" and "length s \<le> n"
  shows "strip_one seqs (strip_many n seqs s) = None"
  using assms(2)
proof (induction n arbitrary: s)
  case 0
  then show ?case using assms(1)
    by (auto simp: strip_one_def has_prefix_def find_None_iff split: option.splits)
next
  case (Suc n)
  show ?case
  proof (cases "strip_one seqs s")
    case None
    then show ?thesis by simp
  next
    case (Some r)
    with Suc.prems strip_one_shorter [OF assms(1) Some] have "length r \<le> n" by simp
    with Some Suc.IH show ?thesis by simp
  qed
qed

lemma strip_one_suffix: "strip_one seqs s = Some r \<Longrightarrow> suffix r s"
  by (auto simp: strip_one_def suffix_drop split: option.splits)

lemma strip_many_suffix: "suffix (strip_many n seqs s) s"
proof (induction n arbitrary: s)
  case (Suc n)
  show ?case
  proof (cases "strip_one seqs s")
    case (Some r)
    then show ?thesis using Suc.IH [of r] strip_one_suffix [OF Some] by (auto intro: suffix_order.trans)
  qed simp
qed simp

lemma space_seqs_ne: "[] \<notin> set space_seqs" "[] \<notin> set (map rev space_seqs)"
  by (auto simp: space_seqs_def)

lemma trim_space_Nil [simp]: "trim_space [] = []"
  by (simp add: trim_space_def trim_left_def trim_right_def)

text \<open>Bytes that cannot start a white-space sequence, and bytes that cannot end one.\<close>

definition solid_first :: "char \<Rightarrow> bool" where
  "solid_first c \<longleftrightarrow> c \<notin> hd ` set space_seqs"

definition solid_last :: "char \<Rightarrow> bool" where
  "solid_last c \<longleftrightarrow> c \<notin> last ` set space_seqs"

lemma strip_one_solid: "solid_first c \<Longrightarrow> strip_one space_seqs (c # s) = None"
  by (auto simp: strip_one_def solid_first_def has_prefix_def space_seqs_def split: option.splits)

lemma strip_one_solid_rev: "solid_last c \<Longrightarrow> strip_one (map rev space_seqs) (c # s) = None"
  by (auto simp: strip_one_def solid_last_def has_prefix_def space_seqs_def split: option.splits)

lemma trim_left_solid [gostr]: "solid_first c \<Longrightarrow> trim_left (c # s) = c # s"
  by (simp add: trim_left_def strip_one_solid)

lemma trim_right_solid [gostr]: "solid_last c \<Longrightarrow> trim_right (s @ [c]) = s @ [c]"
  by (simp add: trim_right_def strip_one_solid_rev)

lemma trim_space_solid:
  assumes "s \<noteq> []" and "solid_first (hd s)" and "solid_last (last s)"
  shows "trim_space s = s"
proof -
  from assms(1,2) have "trim_left s = s"
    by (metis list.collapse trim_left_solid)
  moreover from assms(1,3) have "trim_right s = s"
    by (metis append_butlast_last_id trim_right_solid)
  ultimately show ?thesis by (simp add: trim_space_def)
qed

lemma digit_solid [gostr]: "is_digit c \<Longrightarrow> solid_first c" "is_digit c \<Longrightarrow> solid_last c"
  by (auto simp: is_digit_def solid_first_def solid_last_def space_seqs_def)

lemma trim_left_sublist: "suffix (trim_left s) s"
  by (simp add: trim_left_def strip_many_suffix)

lemma trim_right_prefix: "prefix (trim_right s) s"
  by (metis rev_rev_ident strip_many_suffix suffix_to_prefix trim_right_def)

lemma set_trim_space: "set (trim_space s) \<subseteq> set s"
  by (metis dual_order.trans set_mono_prefix set_mono_suffix trim_left_sublist trim_right_prefix trim_space_def)

section \<open>Lemmas about numbers\<close>

lemma byte_digit_char: "d < 10 \<Longrightarrow> byte (digit_char d) = 48 + d"
  by (simp add: digit_char_def of_char_of)

lemma is_digit_digit_char: "d < 10 \<Longrightarrow> is_digit (digit_char d)"
  by (simp add: is_digit_def byte_digit_char)

lemma nat_str_digits [gostr]: "list_all is_digit (nat_str n)"
  by (induction n rule: nat_str.induct) (subst nat_str.simps, simp add: is_digit_digit_char)

lemma nat_str_ne [simp]: "nat_str n \<noteq> []"
  by (subst nat_str.simps) simp

lemma dec_value_snoc: "dec_value (ds @ [c]) = 10 * dec_value ds + (byte c - 48)"
  by (simp add: dec_value_def)

lemma dec_value_nat_str [simp]: "dec_value (nat_str n) = n"
proof (induction n rule: nat_str.induct)
  case (1 n)
  show ?case
  proof (cases "n < 10")
    case True
    then show ?thesis by (subst nat_str.simps) (simp add: dec_value_def byte_digit_char)
  next
    case False
    with 1 show ?thesis
      by (subst nat_str.simps) (simp add: dec_value_snoc byte_digit_char)
  qed
qed

lemma digit_not_sign: "is_digit c \<Longrightarrow> c \<noteq> CHR ''-'' \<and> c \<noteq> CHR ''+'' \<and> c \<noteq> CHR ''.''"
  by (auto simp: is_digit_def)

lemma atoi_digits:
  assumes "ds \<noteq> []" and "list_all is_digit ds" and "dec_value ds < 2 ^ 63"
  shows "atoi ds = Some (int (dec_value ds))"
proof -
  from assms(1) obtain c cs where ds: "ds = c # cs" by (cases ds) auto
  with assms(2) have "c \<noteq> CHR ''-'' \<and> c \<noteq> CHR ''+''" using digit_not_sign by simp
  moreover have "int (dec_value ds) < 2 ^ 63"
    using assms(3) by (metis of_nat_less_iff of_nat_numeral of_nat_power)
  ultimately show ?thesis using assms ds by (simp add: atoi_def)
qed

lemma atoi_nat_str [gostr]: "n < 2 ^ 63 \<Longrightarrow> atoi (nat_str n) = Some (int n)"
  using atoi_digits [OF nat_str_ne nat_str_digits] by simp

lemma atoi_bounds: "atoi s = Some v \<Longrightarrow> - (2 ^ 63) \<le> v \<and> v < 2 ^ 63"
  by (auto simp: atoi_def Let_def split: if_splits prod.splits)

section \<open>Three-way comparison\<close>

text \<open>
  The contract of a comparison in Go's style (-1, 0, +1) and what its users need of it: the relation
  "compares less" is a strict linear order.
\<close>

locale comparator =
  fixes cmp :: "'a \<Rightarrow> 'a \<Rightarrow> int"
  assumes cmp_range: "cmp a b \<in> {-1, 0, 1}"
    and cmp_eq: "cmp a b = 0 \<longleftrightarrow> a = b"
    and cmp_flip: "cmp b a = - cmp a b"
    and cmp_trans: "cmp a b < 0 \<Longrightarrow> cmp b c < 0 \<Longrightarrow> cmp a c < 0"
begin

lemma cmp_refl [simp]: "cmp a a = 0"
  by (simp add: cmp_eq)

lemma cmp_pos_iff: "cmp a b > 0 \<longleftrightarrow> cmp b a < 0"
  using cmp_flip [of a b] by linarith

lemma cmp_le_trans: "cmp a b \<le> 0 \<Longrightarrow> cmp b c \<le> 0 \<Longrightarrow> cmp a c \<le> 0"
  by (metis cmp_eq cmp_trans order_le_less)

lemma cmp_le_less_trans: "cmp a b \<le> 0 \<Longrightarrow> cmp b c < 0 \<Longrightarrow> cmp a c < 0"
  by (metis cmp_eq cmp_trans order_le_less)

lemma cmp_less_le_trans: "cmp a b < 0 \<Longrightarrow> cmp b c \<le> 0 \<Longrightarrow> cmp a c < 0"
  by (metis cmp_eq cmp_trans order_le_less)

lemma cmp_antisym: "cmp a b \<le> 0 \<Longrightarrow> cmp b a \<le> 0 \<Longrightarrow> a = b"
  using cmp_flip [of a b] by (simp add: cmp_eq [symmetric])

lemma cmp_linear: "cmp a b < 0 \<or> a = b \<or> cmp b a < 0"
  using cmp_flip [of a b] cmp_eq [of a b] by linarith

end

text \<open>\<open>strings.Compare\<close>: bytewise lexicographic.\<close>

fun str_compare :: "string \<Rightarrow> string \<Rightarrow> int" where
  "str_compare [] [] = 0"
| "str_compare [] (y # ys) = -1"
| "str_compare (x # xs) [] = 1"
| "str_compare (x # xs) (y # ys) =
     (if byte x < byte y then -1 else if byte y < byte x then 1 else str_compare xs ys)"

lemma str_compare_less_Cons:
  "str_compare (x # xs) (y # ys) < 0 \<longleftrightarrow> byte x < byte y \<or> x = y \<and> str_compare xs ys < 0"
  using less_linear [of "byte x" "byte y"] by auto

lemma str_compare_less_Nil: "str_compare [] c < 0 \<longleftrightarrow> c \<noteq> []" "\<not> str_compare c [] < 0"
  by (cases c; simp)+

lemma str_compare_trans: "str_compare a b < 0 \<Longrightarrow> str_compare b c < 0 \<Longrightarrow> str_compare a c < 0"
proof (induction a arbitrary: b c)
  case Nil
  then show ?case by (auto simp: str_compare_less_Nil)
next
  case (Cons x xs)
  then obtain y ys z zs where "b = y # ys" "c = z # zs"
    by (metis list.exhaust str_compare_less_Nil(2))
  with Cons.prems have "byte x < byte y \<or> x = y \<and> str_compare xs ys < 0"
    and "byte y < byte z \<or> y = z \<and> str_compare ys zs < 0"
    by (simp_all only: str_compare_less_Cons)
  then have "byte x < byte z \<or> x = z \<and> str_compare xs zs < 0"
    using Cons.IH [of ys zs] by (metis less_trans)
  with \<open>c = z # zs\<close> show ?case by (simp only: str_compare_less_Cons)
qed

lemma str_compare_eq: "str_compare a b = 0 \<longleftrightarrow> a = b"
  by (induction a b rule: str_compare.induct) (auto simp: not_less order.antisym)

lemma str_compare_flip: "str_compare b a = - str_compare a b"
  by (induction a b rule: str_compare.induct) auto

lemma str_compare_range: "str_compare a b \<in> {-1, 0, 1}"
  by (induction a b rule: str_compare.induct) auto

interpretation str_cmp: comparator str_compare
  by unfold_locales (rule str_compare_range str_compare_eq str_compare_flip str_compare_trans; assumption?)+

end
