(* ===== verification/Version.thy ===== *)
theory Version
  imports Prelude
begin

text \<open>
  The version model of \<open>backend/internal/update/version.go\<close>: parsing, numeric comparison, rendering
  and the upgrade policy \<open>Acceptable\<close>. An error carries what the code formats into its message.
\<close>

section \<open>Channels\<close>

definition ChannelStable :: string where "ChannelStable = ''stable''"
definition ChannelBeta :: string where "ChannelBeta = ''beta''"
definition ChannelDev :: string where "ChannelDev = ''dev''"

definition ValidChannel :: "string \<Rightarrow> bool" where
  "ValidChannel c \<longleftrightarrow> c = ChannelStable \<or> c = ChannelBeta \<or> c = ChannelDev"

section \<open>Versions\<close>

record version =
  major :: int
  minor :: int
  patch :: int
  pre :: string

datatype version_error =
    EmptyVersion
  | BadVersion string
  | BadCurrentVersion version_error
  | BadTargetVersion version_error
  | NotNewer version version
  | BadMinimumVersion version_error
  | BelowMinimum version version

text \<open>The loop over the dotted parts: every part is a non-negative decimal number.\<close>

fun parse_parts :: "string \<Rightarrow> string list \<Rightarrow> (version_error, int list) res" where
  "parse_parts s [] = Inr []"
| "parse_parts s (p # ps) =
     (if p = [] then Inl (BadVersion s)
      else case atoi p of
        None \<Rightarrow> Inl (BadVersion s)
      | Some n \<Rightarrow>
          if n < 0 then Inl (BadVersion s)
          else case parse_parts s ps of Inl e \<Rightarrow> Inl e | Inr ns \<Rightarrow> Inr (n # ns))"

definition nums_version :: "int list \<Rightarrow> string \<Rightarrow> version" where
  "nums_version ns p =
     (let nums = ns @ replicate (3 - length ns) 0
      in \<lparr>major = nums ! 0, minor = nums ! 1, patch = nums ! 2, pre = p\<rparr>)"

definition parse_core :: "string \<Rightarrow> string \<Rightarrow> (version_error, version) res" where
  "parse_core s p =
     (let parts = split_on CHR ''.'' s
      in if length parts > 3 then Inl (BadVersion s)
         else case parse_parts s parts of Inl e \<Rightarrow> Inl e | Inr ns \<Rightarrow> Inr (nums_version ns p))"

definition ParseVersion :: "string \<Rightarrow> (version_error, version) res" where
  "ParseVersion s0 =
     (let s = trim_space s0
      in if s = [] then Inl EmptyVersion
         else case str_index s ''-'' of
           None \<Rightarrow> parse_core s []
         | Some i \<Rightarrow>
             let p = drop (i + 1) s; t = take i s
             in if p = [] then Inl (BadVersion t) else parse_core t p)"

definition cmpInt :: "int \<Rightarrow> int \<Rightarrow> int" where
  "cmpInt a b = (if a < b then -1 else if a > b then 1 else 0)"

definition version_compare :: "version \<Rightarrow> version \<Rightarrow> int" where
  "version_compare v w =
     (if major v \<noteq> major w then cmpInt (major v) (major w)
      else if minor v \<noteq> minor w then cmpInt (minor v) (minor w)
      else if patch v \<noteq> patch w then cmpInt (patch v) (patch w)
      else if pre v = pre w then 0
      else if pre v = [] then 1
      else if pre w = [] then -1
      else str_compare (pre v) (pre w))"

definition version_string :: "version \<Rightarrow> string" where
  "version_string v =
     int_str (major v) @ ''.'' @ int_str (minor v) @ ''.'' @ int_str (patch v) @
     (if pre v \<noteq> [] then ''-'' @ pre v else [])"

definition IsNewerThan :: "string \<Rightarrow> string \<Rightarrow> (version_error, bool) res" where
  "IsNewerThan current candidate =
     (case ParseVersion current of
        Inl e \<Rightarrow> Inl e
      | Inr c \<Rightarrow>
          (case ParseVersion candidate of
             Inl e \<Rightarrow> Inl e
           | Inr n \<Rightarrow> Inr (version_compare n c > 0)))"

definition Acceptable :: "string \<Rightarrow> string \<Rightarrow> string \<Rightarrow> (version_error, unit) res" where
  "Acceptable current target minimum =
     (case ParseVersion current of
        Inl e \<Rightarrow> Inl (BadCurrentVersion e)
      | Inr c \<Rightarrow>
          (case ParseVersion target of
             Inl e \<Rightarrow> Inl (BadTargetVersion e)
           | Inr t \<Rightarrow>
               if version_compare t c \<le> 0 then Inl (NotNewer t c)
               else if minimum \<noteq> [] then
                 (case ParseVersion minimum of
                    Inl e \<Rightarrow> Inl (BadMinimumVersion e)
                  | Inr m \<Rightarrow> if version_compare c m < 0 then Inl (BelowMinimum c m) else Inr ())
               else Inr ()))"

section \<open>The order\<close>

interpretation int_cmp: comparator cmpInt
  by unfold_locales (auto simp: cmpInt_def split: if_splits)

text \<open>A prerelease tag compared as \<open>Compare\<close> does it: no tag is the largest.\<close>

definition pre_compare :: "string \<Rightarrow> string \<Rightarrow> int" where
  "pre_compare p q = (if p = q then 0 else if p = [] then 1 else if q = [] then -1 else str_compare p q)"

interpretation pre_cmp: comparator pre_compare
proof unfold_locales
  show "pre_compare a b \<in> {-1, 0, 1}" for a b
    using str_compare_range [of a b] by (simp add: pre_compare_def)
  show "pre_compare a b = 0 \<longleftrightarrow> a = b" for a b
    by (simp add: pre_compare_def str_compare_eq)
  show "pre_compare b a = - pre_compare a b" for a b
    using str_compare_flip [of b a] by (simp add: pre_compare_def)
  show "pre_compare a b < 0 \<Longrightarrow> pre_compare b c < 0 \<Longrightarrow> pre_compare a c < 0" for a b c
    using str_compare_trans [of a b c] str_compare_flip [of a b]
    by (auto simp: pre_compare_def split: if_splits)
qed

lemma version_compare_alt:
  "version_compare v w =
     (if cmpInt (major v) (major w) \<noteq> 0 then cmpInt (major v) (major w)
      else if cmpInt (minor v) (minor w) \<noteq> 0 then cmpInt (minor v) (minor w)
      else if cmpInt (patch v) (patch w) \<noteq> 0 then cmpInt (patch v) (patch w)
      else pre_compare (pre v) (pre w))"
  by (auto simp: version_compare_def pre_compare_def int_cmp.cmp_eq)

lemma version_less_iff:
  "version_compare v w < 0 \<longleftrightarrow>
     major v < major w \<or> major v = major w \<and>
      (minor v < minor w \<or> minor v = minor w \<and>
        (patch v < patch w \<or> patch v = patch w \<and> pre_compare (pre v) (pre w) < 0))"
  by (auto simp: version_compare_alt cmpInt_def)

interpretation ver_cmp: comparator version_compare
proof unfold_locales
  show "version_compare a b \<in> {-1, 0, 1}" for a b
    unfolding version_compare_alt using int_cmp.cmp_range pre_cmp.cmp_range by presburger
  show "version_compare a b = 0 \<longleftrightarrow> a = b" for a b :: version
    by (auto simp: version_compare_alt int_cmp.cmp_eq pre_cmp.cmp_eq)
  show "version_compare b a = - version_compare a b" for a b
    unfolding version_compare_alt
    using int_cmp.cmp_flip [of "major a" "major b"] int_cmp.cmp_flip [of "minor a" "minor b"]
      int_cmp.cmp_flip [of "patch a" "patch b"] pre_cmp.cmp_flip [of "pre a" "pre b"] by presburger
  show "version_compare a b < 0 \<Longrightarrow> version_compare b c < 0 \<Longrightarrow> version_compare a c < 0" for a b c
    unfolding version_less_iff using pre_cmp.cmp_trans [of "pre a" "pre b" "pre c"]
    by (elim disjE conjE) simp_all
qed

section \<open>Parsing and rendering\<close>

lemma int_str_nonneg: "0 \<le> i \<Longrightarrow> int_str i = nat_str (nat i)"
  by (simp add: int_str_def)

lemma parse_parts_nonneg:
  "parse_parts s ps = Inr ns \<Longrightarrow> length ns = length ps \<and> (\<forall>n \<in> set ns. 0 \<le> n \<and> n < 2 ^ 63)"
  by (induction ps arbitrary: ns)
     (auto split: if_splits option.splits sum.splits dest: atoi_bounds [simplified])

lemma parse_core_bounds:
  assumes "parse_core s p = Inr v"
  shows "0 \<le> major v" "major v < 2 ^ 63" "0 \<le> minor v" "minor v < 2 ^ 63"
    "0 \<le> patch v" "patch v < 2 ^ 63" "pre v = p"
proof -
  from assms obtain ns where ns: "parse_parts s (split_on CHR ''.'' s) = Inr ns"
    and len: "length (split_on CHR ''.'' s) \<le> 3" and v: "v = nums_version ns p"
    by (auto simp: parse_core_def Let_def split: if_splits sum.splits)
  from parse_parts_nonneg [OF ns] len have l: "length ns \<le> 3"
    and b: "\<forall>n \<in> set ns. 0 \<le> n \<and> n < 2 ^ 63" by auto
  define nums where "nums = ns @ replicate (3 - length ns) 0"
  have "\<forall>n \<in> set nums. 0 \<le> n \<and> n < 2 ^ 63" using b by (auto simp: nums_def)
  moreover have "length nums = 3" using l by (simp add: nums_def)
  ultimately have "\<forall>i < 3. 0 \<le> nums ! i \<and> nums ! i < 2 ^ 63" by (metis nth_mem)
  moreover have "v = \<lparr>major = nums ! 0, minor = nums ! 1, patch = nums ! 2, pre = p\<rparr>"
    by (simp add: v nums_version_def nums_def Let_def)
  ultimately show "0 \<le> major v" "major v < 2 ^ 63" "0 \<le> minor v" "minor v < 2 ^ 63"
    "0 \<le> patch v" "patch v < 2 ^ 63" "pre v = p" by simp_all
qed

lemma no_dot_in_digits: "list_all is_digit ds \<Longrightarrow> CHR ''.'' \<notin> set ds" "list_all is_digit ds \<Longrightarrow> CHR ''-'' \<notin> set ds"
  using digit_not_sign by (auto simp: list_all_iff)

definition dotted :: "nat \<Rightarrow> nat \<Rightarrow> nat \<Rightarrow> string" where
  "dotted a b c = nat_str a @ CHR ''.'' # nat_str b @ CHR ''.'' # nat_str c"

lemma split_dotted: "split_on CHR ''.'' (dotted a b c) = [nat_str a, nat_str b, nat_str c]"
  by (simp add: dotted_def split_on_append split_on_no_sep no_dot_in_digits nat_str_digits)

lemma parse_core_dotted:
  assumes "a < 2 ^ 63" "b < 2 ^ 63" "c < 2 ^ 63"
  shows "parse_core (dotted a b c) p = Inr \<lparr>major = int a, minor = int b, patch = int c, pre = p\<rparr>"
  using assms by (simp add: parse_core_def split_dotted atoi_nat_str nums_version_def)

lemma no_dash_dotted: "CHR ''-'' \<notin> set (dotted a b c)"
  by (simp add: dotted_def no_dot_in_digits nat_str_digits)

lemma dotted_ends: "dotted a b c \<noteq> []" "is_digit (hd (dotted a b c))" "is_digit (last (dotted a b c))"
proof -
  have *: "is_digit (hd (nat_str n))" "is_digit (last (nat_str n))" for n
    using nat_str_digits [of n] nat_str_ne [of n]
    by (auto simp: list_all_iff intro: hd_in_set last_in_set)
  show "dotted a b c \<noteq> []" "is_digit (hd (dotted a b c))" "is_digit (last (dotted a b c))"
    using * by (simp_all add: dotted_def)
qed

lemma str_index_dash: "CHR ''-'' \<notin> set a \<Longrightarrow> str_index (a @ CHR ''-'' # b) ''-'' = Some (length a)"
  by (induction a) (auto simp: has_prefix_def)

lemma ParseVersion_dotted:
  assumes "a < 2 ^ 63" "b < 2 ^ 63" "c < 2 ^ 63" and "trim_space (dotted a b c @ CHR ''-'' # p) = dotted a b c @ CHR ''-'' # p \<or> p = []"
  shows "ParseVersion (dotted a b c @ (if p \<noteq> [] then CHR ''-'' # p else [])) =
     Inr \<lparr>major = int a, minor = int b, patch = int c, pre = p\<rparr>"
proof (cases "p = []")
  case True
  have "trim_space (dotted a b c) = dotted a b c"
    using dotted_ends digit_solid by (metis trim_space_solid)
  then show ?thesis
    using True dotted_ends(1) no_dash_dotted assms(1-3)
    by (simp add: ParseVersion_def str_index_single parse_core_dotted)
next
  case False
  with assms(4) have t: "trim_space (dotted a b c @ CHR ''-'' # p) = dotted a b c @ CHR ''-'' # p" by blast
  show ?thesis
    using False assms(1-3) no_dash_dotted [of a b c]
    by (simp add: ParseVersion_def t str_index_dash parse_core_dotted)
qed

lemma has_prefix_upto: "c \<notin> set q \<Longrightarrow> has_prefix (a @ c # x) q \<longleftrightarrow> has_prefix a q"
proof
  assume c: "c \<notin> set q" and "has_prefix (a @ c # x) q"
  then obtain r where r: "a @ c # x = q @ r" by (auto simp: has_prefix_iff)
  then consider u where "a = q @ u" | u where "q = a @ u" "c # x = u @ r"
    by (auto simp: append_eq_append_conv2)
  then show "has_prefix a q"
  proof cases
    case 2
    with c show ?thesis by (cases u) (auto simp: has_prefix_def)
  qed auto
qed (auto simp: has_prefix_iff)

lemma find_prefix_upto:
  assumes "\<forall>q \<in> set qs. c \<notin> set q"
  shows "find (\<lambda>q. has_prefix (a @ c # x) q) qs = find (\<lambda>q. has_prefix (a @ c # y) q) qs"
  using assms by (induction qs) (auto simp: has_prefix_upto)

lemma space_seqs_no_dash: "\<forall>q \<in> set (map rev space_seqs). CHR ''-'' \<notin> set q"
  by (simp add: space_seqs_def)

text \<open>Whether the end of a version needs trimming depends on the part after the dash only.\<close>

lemma trim_right_dash:
  assumes "trim_right (t @ CHR ''-'' # p) = t @ CHR ''-'' # p"
  shows "trim_right (u @ CHR ''-'' # p) = u @ CHR ''-'' # p"
proof -
  have "strip_one (map rev space_seqs) (rev p @ CHR ''-'' # rev t) = None"
    using strip_many_done [OF space_seqs_ne(2), of "rev (t @ CHR ''-'' # p)" "length (t @ CHR ''-'' # p)"] assms
    by (simp add: trim_right_def) (metis rev.simps(2) append_assoc append_Cons append_Nil rev_append rev_rev_ident)
  then have "strip_one (map rev space_seqs) (rev p @ CHR ''-'' # rev u) = None"
    using find_prefix_upto [OF space_seqs_no_dash, of "rev p" "rev t" "rev u"]
    by (auto simp: strip_one_def split: option.splits)
  then show ?thesis
    by (simp add: trim_right_def strip_many_fixed)
qed

lemma trim_right_idem: "trim_right (trim_right s) = trim_right s"
proof -
  have "strip_one (map rev space_seqs) (rev (trim_right s)) = None"
    using strip_many_done [OF space_seqs_ne(2), of "rev s" "length s"] by (simp add: trim_right_def)
  then show ?thesis by (metis rev_rev_ident strip_many_fixed trim_right_def)
qed

lemma trim_right_trim_space: "trim_right (trim_space s) = trim_space s"
  by (simp add: trim_space_def trim_right_idem)

text \<open>What a successful parse gives: bounded numbers, and a tag that survives trimming.\<close>

lemma ParseVersion_cases:
  assumes "ParseVersion s = Inr v"
  shows "0 \<le> major v" "major v < 2 ^ 63" "0 \<le> minor v" "minor v < 2 ^ 63" "0 \<le> patch v" "patch v < 2 ^ 63"
    "pre v = [] \<or> (\<exists>t. trim_right (t @ CHR ''-'' # pre v) = t @ CHR ''-'' # pre v)"
proof -
  define s' where "s' = trim_space s"
  from assms consider "parse_core s' [] = Inr v"
    | i where "str_index s' ''-'' = Some i" "drop (i + 1) s' \<noteq> []" "parse_core (take i s') (drop (i + 1) s') = Inr v"
    unfolding ParseVersion_def s'_def [symmetric] by (auto simp: Let_def split: if_splits option.splits)
  then have "0 \<le> major v \<and> major v < 2 ^ 63 \<and> 0 \<le> minor v \<and> minor v < 2 ^ 63 \<and> 0 \<le> patch v \<and> patch v < 2 ^ 63 \<and>
    (pre v = [] \<or> (\<exists>t. trim_right (t @ CHR ''-'' # pre v) = t @ CHR ''-'' # pre v))"
  proof cases
    case 1
    show ?thesis using parse_core_bounds [OF 1] by simp
  next
    case 2
    from str_index_Some [OF 2(1)] obtain r where "s' = take i s' @ CHR ''-'' # r" and "i \<le> length s'" by auto
    then have "s' = take i s' @ CHR ''-'' # drop (i + 1) s'"
      by (metis Cons_nth_drop_Suc Suc_eq_plus1 append_eq_conv_conj append_take_drop_id drop_Suc list.sel(3) tl_drop)
    moreover have "pre v = drop (i + 1) s'" using parse_core_bounds(7) [OF 2(3)] .
    ultimately have "s' = take i s' @ CHR ''-'' # pre v" by simp
    moreover have "trim_right s' = s'" by (simp add: s'_def trim_right_trim_space)
    ultimately have "\<exists>t. trim_right (t @ CHR ''-'' # pre v) = t @ CHR ''-'' # pre v" by metis
    then show ?thesis using parse_core_bounds [OF 2(3)] by simp
  qed
  then show "0 \<le> major v" "major v < 2 ^ 63" "0 \<le> minor v" "minor v < 2 ^ 63" "0 \<le> patch v" "patch v < 2 ^ 63"
    "pre v = [] \<or> (\<exists>t. trim_right (t @ CHR ''-'' # pre v) = t @ CHR ''-'' # pre v)" by auto
qed

lemma version_string_dotted:
  assumes "0 \<le> major v" "0 \<le> minor v" "0 \<le> patch v"
  shows "version_string v = dotted (nat (major v)) (nat (minor v)) (nat (patch v)) @
    (if pre v \<noteq> [] then CHR ''-'' # pre v else [])"
  using assms by (simp add: version_string_def dotted_def int_str_nonneg)

lemma reparse:
  assumes "ParseVersion s = Inr v"
  shows "ParseVersion (version_string v) = Inr v"
proof -
  note b = ParseVersion_cases [OF assms]
  let ?d = "dotted (nat (major v)) (nat (minor v)) (nat (patch v))"
  have "trim_space (?d @ CHR ''-'' # pre v) = ?d @ CHR ''-'' # pre v \<or> pre v = []"
  proof (cases "pre v = []")
    case False
    with b(7) have "trim_right (?d @ CHR ''-'' # pre v) = ?d @ CHR ''-'' # pre v"
      by (auto intro: trim_right_dash)
    moreover have "trim_left (?d @ CHR ''-'' # pre v) = ?d @ CHR ''-'' # pre v"
      using dotted_ends(1,2) digit_solid(1) by (metis append_Cons list.collapse trim_left_solid)
    ultimately show ?thesis by (simp add: trim_space_def)
  qed simp
  moreover have "nat (major v) < 2 ^ 63" "nat (minor v) < 2 ^ 63" "nat (patch v) < 2 ^ 63"
    using b by (simp_all add: nat_less_iff)
  ultimately show ?thesis
    using ParseVersion_dotted [of "nat (major v)" "nat (minor v)" "nat (patch v)" "pre v"] b
    by (simp add: version_string_dotted)
qed

text \<open>The upgrade policy, read as conditions on the parsed versions.\<close>

lemma Acceptable_iff:
  "Acceptable current target minimum = Inr () \<longleftrightarrow>
     (\<exists>c t. ParseVersion current = Inr c \<and> ParseVersion target = Inr t \<and> version_compare c t < 0 \<and>
       (minimum = [] \<or> (\<exists>m. ParseVersion minimum = Inr m \<and> version_compare m c \<le> 0)))"
proof -
  have "\<not> version_compare t c \<le> 0 \<longleftrightarrow> version_compare c t < 0" for t c
    using ver_cmp.cmp_flip [of c t] by linarith
  moreover have "\<not> version_compare c m < 0 \<longleftrightarrow> version_compare m c \<le> 0" for c m
    using ver_cmp.cmp_flip [of c m] by linarith
  ultimately show ?thesis
    by (auto simp: Acceptable_def split: sum.splits if_splits)
qed

section \<open>Properties\<close>

text \<open>
  C22. \<open>Compare\<close> is a linear order: it answers -1, 0 or 1, answers 0 for equal versions only, changes
  sign with its arguments swapped and is transitive; a release is above each of its prereleases and below
  every prerelease of the next patch.
\<close>

theorem version_compare_linear_order:
  "version_compare u v \<in> {-1, 0, 1} \<and> (version_compare u v = 0 \<longleftrightarrow> u = v) \<and> version_compare v u = - version_compare u v \<and>
   (version_compare u v \<le> 0 \<and> version_compare v w \<le> 0 \<longrightarrow> version_compare u w \<le> 0) \<and>
   version_compare (v\<lparr>pre := c # cs\<rparr>) (v\<lparr>pre := []\<rparr>) = -1 \<and>
   version_compare (v\<lparr>pre := []\<rparr>) (v\<lparr>patch := patch v + 1, pre := c # cs\<rparr>) = -1"
  using ver_cmp.cmp_range [of u v] ver_cmp.cmp_eq [of u v] ver_cmp.cmp_flip [of v u] ver_cmp.cmp_le_trans [of u v w]
  by (simp add: version_compare_def cmpInt_def)

theorem version_compare_linear_order_witness:
  "version_compare \<lparr>major = 1, minor = 2, patch = 0, pre = ''beta''\<rparr> \<lparr>major = 1, minor = 2, patch = 0, pre = []\<rparr> = -1 \<and>
   version_compare \<lparr>major = 1, minor = 2, patch = 0, pre = ''beta''\<rparr> \<lparr>major = 1, minor = 10, patch = 0, pre = []\<rparr> \<le> 0"
  using version_compare_linear_order [of "\<lparr>major = 1, minor = 2, patch = 0, pre = ''beta''\<rparr>"
      "\<lparr>major = 1, minor = 2, patch = 0, pre = []\<rparr>" "\<lparr>major = 1, minor = 10, patch = 0, pre = []\<rparr>"]
  by (simp add: version_compare_def cmpInt_def)

text \<open>
  Rendering a parsed version and parsing the result gives the version back, and two inputs that render
  to the same text are the same version.
\<close>

theorem version_round_trip:
  assumes "ParseVersion s = Inr v"
  shows "ParseVersion (version_string v) = Inr v \<and>
    (\<forall>t w. ParseVersion t = Inr w \<longrightarrow> (version_string w = version_string v) = (w = v))"
  using reparse [OF assms] reparse by (metis sum.inject(2))

theorem version_round_trip_witness:
  "ParseVersion '' 1.02-rc.1 '' = Inr \<lparr>major = 1, minor = 2, patch = 0, pre = ''rc.1''\<rparr> \<and>
   ParseVersion (version_string \<lparr>major = 1, minor = 2, patch = 0, pre = ''rc.1''\<rparr>) = Inr \<lparr>major = 1, minor = 2, patch = 0, pre = ''rc.1''\<rparr>"
proof -
  have "ParseVersion '' 1.02-rc.1 '' = Inr \<lparr>major = 1, minor = 2, patch = 0, pre = ''rc.1''\<rparr>" by code_simp
  with version_round_trip [OF this] show ?thesis by blast
qed

text \<open>
  The upgrade policy: \<open>Acceptable\<close> succeeds exactly when current and target parse, the target is
  strictly newer and the minimum, where given, parses and is not above the current version. So a chain of
  accepted upgrades never comes back: it always leads to a newer version.
\<close>

theorem upgrade_policy:
  "(Acceptable current target minimum = Inr () \<longleftrightarrow>
     (\<exists>c t. ParseVersion current = Inr c \<and> ParseVersion target = Inr t \<and> version_compare c t < 0 \<and>
       (minimum = [] \<or> (\<exists>m. ParseVersion minimum = Inr m \<and> version_compare m c \<le> 0)))) \<and>
   (Acceptable current target minimum = Inr () \<and> Acceptable target further minimum2 = Inr () \<longrightarrow>
     IsNewerThan current further = Inr True \<and> Acceptable further current minimum3 \<noteq> Inr ())"
proof (intro conjI impI)
  assume "Acceptable current target minimum = Inr () \<and> Acceptable target further minimum2 = Inr ()"
  then obtain c t f where v: "ParseVersion current = Inr c" "ParseVersion target = Inr t" "ParseVersion further = Inr f"
    and l: "version_compare c t < 0" "version_compare t f < 0" by (auto simp: Acceptable_iff)
  from l have less: "version_compare c f < 0" by (rule ver_cmp.cmp_trans)
  moreover have "version_compare f c > 0" using less ver_cmp.cmp_flip [of c f] by simp
  ultimately show "IsNewerThan current further = Inr True" "Acceptable further current minimum3 \<noteq> Inr ()"
    using v by (auto simp: IsNewerThan_def Acceptable_iff)
qed (rule Acceptable_iff)

theorem upgrade_policy_witness:
  "IsNewerThan ''1.0.0'' ''1.1.0'' = Inr True \<and> Acceptable ''1.1.0'' ''1.0.0'' [] \<noteq> Inr ()"
proof -
  have "Acceptable ''1.0.0'' ''1.1.0-rc.1'' ''0.9'' = Inr ()" "Acceptable ''1.1.0-rc.1'' ''1.1.0'' [] = Inr ()" by code_simp+
  with upgrade_policy [of "''1.0.0''" "''1.1.0-rc.1''" "''0.9''" "''1.1.0''" "[]" "[]"] show ?thesis by blast
qed

end
