(* ===== verification/Manifest.thy ===== *)
theory Manifest
  imports Version
begin

text \<open>
  Signed update manifests: the records and validation of \<open>update/manifest.go\<close>, the artifact choice of
  \<open>artifacts.go\<close>, the signature check of \<open>verify.go\<close> and the query match of \<open>provider.go\<close>.
  JSON decoding (\<open>decode\<close>), the canonical bytes (\<open>canon\<close>, \<open>json.Marshal\<close> of the struct) and the
  Ed25519 primitives are parameters.
\<close>

section \<open>Manifests\<close>

definition ArtifactFull :: string where "ArtifactFull = ''full''"
definition ArtifactDelta :: string where "ArtifactDelta = ''delta''"

record artifact =
  atype :: string
  filename :: string
  asize :: int
  sha256 :: string
  url :: string
  from_version :: string

record manifest =
  schema :: int
  mversion :: string
  channel :: string
  release_date :: string
  release_notes :: "string list"
  min_version :: string
  platform :: string
  arch :: string
  artifacts :: "artifact list"

record signed_manifest =
  sm_manifest :: manifest
  signature :: string
  key_id :: string

datatype artifact_error =
    UnknownArtifactType string
  | MissingFilename
  | UnsafeFilename string
  | BadSize int
  | BadSha256
  | MissingUrl
  | BadFromVersion version_error

datatype manifest_error =
    UnsupportedSchema int
  | ManifestVersion version_error
  | UnknownChannel string
  | ManifestMinimum version_error
  | MissingPlatform
  | MissingArch
  | NoArtifacts
  | BadArtifact nat artifact_error
  | DeltaNeedsFrom nat
  | DuplicateArtifact string
  | BadManifestJson
  | Unsigned
  | MissingKeyId

definition isHex :: "string \<Rightarrow> bool" where
  "isHex s = list_all is_hex_digit s"

definition artifact_validate :: "artifact \<Rightarrow> (artifact_error, unit) res" where
  "artifact_validate a =
     (if atype a \<noteq> ArtifactFull \<and> atype a \<noteq> ArtifactDelta then Inl (UnknownArtifactType (atype a))
      else if trim_space (filename a) = [] then Inl MissingFilename
      else if str_contains (filename a) ''..'' then Inl (UnsafeFilename (filename a))
      else if asize a \<le> 0 then Inl (BadSize (asize a))
      else if length (sha256 a) \<noteq> 64 \<or> \<not> isHex (sha256 a) then Inl BadSha256
      else if trim_space (url a) = [] then Inl MissingUrl
      else if from_version a \<noteq> [] then
        (case ParseVersion (from_version a) of Inl e \<Rightarrow> Inl (BadFromVersion e) | Inr _ \<Rightarrow> Inr ())
      else Inr ())"

definition artifact_key :: "artifact \<Rightarrow> string" where
  "artifact_key a = atype a @ ''|'' @ from_version a"

text \<open>The validation loop; \<open>seen\<close> is the set of keys met so far, \<open>i\<close> the index of the artifact.\<close>

fun validate_artifacts :: "nat \<Rightarrow> string list \<Rightarrow> artifact list \<Rightarrow> (manifest_error, unit) res" where
  "validate_artifacts i seen [] = Inr ()"
| "validate_artifacts i seen (a # as) =
     (case artifact_validate a of
        Inl e \<Rightarrow> Inl (BadArtifact i e)
      | Inr _ \<Rightarrow>
          if atype a = ArtifactDelta \<and> from_version a = [] then Inl (DeltaNeedsFrom i)
          else if artifact_key a \<in> set seen then Inl (DuplicateArtifact (artifact_key a))
          else validate_artifacts (Suc i) (artifact_key a # seen) as)"

definition ManifestSchema :: int where "ManifestSchema = 1"

definition manifest_validate :: "manifest \<Rightarrow> (manifest_error, unit) res" where
  "manifest_validate m =
     (if schema m \<noteq> ManifestSchema then Inl (UnsupportedSchema (schema m))
      else case ParseVersion (mversion m) of
        Inl e \<Rightarrow> Inl (ManifestVersion e)
      | Inr _ \<Rightarrow>
          if \<not> ValidChannel (channel m) then Inl (UnknownChannel (channel m))
          else case (if min_version m \<noteq> [] then map_sum id (\<lambda>_. ()) (ParseVersion (min_version m)) else Inr ()) of
            Inl e \<Rightarrow> Inl (ManifestMinimum e)
          | Inr _ \<Rightarrow>
              if trim_space (platform m) = [] then Inl MissingPlatform
              else if trim_space (arch m) = [] then Inl MissingArch
              else if artifacts m = [] then Inl NoArtifacts
              else validate_artifacts 0 [] (artifacts m))"

definition ParseSignedManifest :: "(string \<Rightarrow> signed_manifest option) \<Rightarrow> string \<Rightarrow> (manifest_error, signed_manifest) res" where
  "ParseSignedManifest decode raw =
     (case decode raw of
        None \<Rightarrow> Inl BadManifestJson
      | Some sm \<Rightarrow>
          (case manifest_validate (sm_manifest sm) of
             Inl e \<Rightarrow> Inl e
           | Inr _ \<Rightarrow>
               if trim_space (signature sm) = [] then Inl Unsigned
               else if trim_space (key_id sm) = [] then Inl MissingKeyId
               else Inr sm))"

section \<open>Choosing an artifact\<close>

datatype select_error = SelectVersion version_error | NoFullArtifact

text \<open>The loop of \<open>SelectArtifact\<close>: the first full artifact, and the smallest delta from \<open>cur\<close>.\<close>

fun select_step :: "version \<Rightarrow> artifact option \<times> artifact option \<Rightarrow> artifact \<Rightarrow> artifact option \<times> artifact option" where
  "select_step cur (full, delta) a =
     (if atype a = ArtifactFull then (case full of None \<Rightarrow> Some a | Some f \<Rightarrow> Some f, delta)
      else if atype a = ArtifactDelta then
        (case ParseVersion (from_version a) of
           Inl _ \<Rightarrow> (full, delta)
         | Inr from \<Rightarrow>
             if version_compare from cur \<noteq> 0 then (full, delta)
             else (full, case delta of None \<Rightarrow> Some a | Some d \<Rightarrow> if asize a < asize d then Some a else Some d))
      else (full, delta))"

definition SelectArtifact :: "string \<Rightarrow> manifest \<Rightarrow> (select_error, artifact) res" where
  "SelectArtifact current m =
     (case ParseVersion current of
        Inl e \<Rightarrow> Inl (SelectVersion e)
      | Inr cur \<Rightarrow>
          (case foldl (select_step cur) (None, None) (artifacts m) of
             (None, _) \<Rightarrow> Inl NoFullArtifact
           | (Some full, Some delta) \<Rightarrow> if asize delta < asize full then Inr delta else Inr full
           | (Some full, None) \<Rightarrow> Inr full))"

definition fullArtifactOf :: "manifest \<Rightarrow> artifact option" where
  "fullArtifactOf m = find (\<lambda>a. atype a = ArtifactFull) (artifacts m)"

section \<open>Trust\<close>

definition hex_digit_value :: "char \<Rightarrow> nat" where
  "hex_digit_value c =
     (if is_digit c then byte c - 48 else if 97 \<le> byte c then byte c - 87 else byte c - 55)"

fun hex_decode :: "string \<Rightarrow> string option" where
  "hex_decode [] = Some []"
| "hex_decode [c] = None"
| "hex_decode (a # b # cs) =
     (if is_hex_digit a \<and> is_hex_digit b
      then map_option (Cons (char_of (16 * hex_digit_value a + hex_digit_value b))) (hex_decode cs)
      else None)"

definition hex_char :: "nat \<Rightarrow> char" where
  "hex_char d = (if d < 10 then char_of (48 + d) else char_of (87 + d))"

definition hex_encode :: "string \<Rightarrow> string" where
  "hex_encode s = concat (map (\<lambda>c. [hex_char (byte c div 16), hex_char (byte c mod 16)]) s)"

datatype trust_error = NoTrustedKeys | UntrustedKey string | BadSignatureEncoding | SignatureInvalid

text \<open>\<open>TrustedKeys.VerifyManifest\<close>; the key map is an association list with distinct ids.\<close>

definition VerifyManifest ::
  "('k \<Rightarrow> string \<Rightarrow> string \<Rightarrow> bool) \<Rightarrow> (manifest \<Rightarrow> string) \<Rightarrow> (string \<times> 'k) list \<Rightarrow> signed_manifest \<Rightarrow> (trust_error, unit) res" where
  "VerifyManifest ed_verify canon keys sm =
     (if keys = [] then Inl NoTrustedKeys
      else case map_of keys (key_id sm) of
        None \<Rightarrow> Inl (UntrustedKey (key_id sm))
      | Some pub \<Rightarrow>
          (case hex_decode (trim_space (signature sm)) of
             None \<Rightarrow> Inl BadSignatureEncoding
           | Some sig \<Rightarrow>
               if ed_verify pub (canon (sm_manifest sm)) sig then Inr () else Inl SignatureInvalid))"

definition SignManifest ::
  "('p \<Rightarrow> string \<Rightarrow> string) \<Rightarrow> (manifest \<Rightarrow> string) \<Rightarrow> manifest \<Rightarrow> string \<Rightarrow> 'p \<Rightarrow> signed_manifest" where
  "SignManifest ed_sign canon m kid priv =
     \<lparr>sm_manifest = m, signature = hex_encode (ed_sign priv (canon m)), key_id = kid\<rparr>"

section \<open>Queries\<close>

record query =
  q_channel :: string
  q_platform :: string
  q_arch :: string
  q_current :: string

record release =
  rel_manifest :: signed_manifest
  rel_source :: string

datatype no_update_reason =
    ChannelMismatch string string
  | PlatformMismatch string string
  | ArchMismatch string string
  | NotAcceptable version_error
  | MissingManifest
  | NoReleases
  | NoApplicable "string list"

datatype check_error =
    NoUpdate no_update_reason
  | BadRelease manifest_error
  | BadQueryVersion version_error
  | NotConfigured
  | RateLimited
  | Cancelled
  | FetchFailed string
  | SignatureMismatch string
  | AssetMissing string string

definition IsNoUpdate :: "check_error \<Rightarrow> bool" where
  "IsNoUpdate e = (case e of NoUpdate _ \<Rightarrow> True | _ \<Rightarrow> False)"

definition MatchQuery :: "manifest \<Rightarrow> query \<Rightarrow> (check_error, unit) res" where
  "MatchQuery m q =
     (if channel m \<noteq> q_channel q then Inl (NoUpdate (ChannelMismatch (channel m) (q_channel q)))
      else if platform m \<noteq> q_platform q then Inl (NoUpdate (PlatformMismatch (platform m) (q_platform q)))
      else if arch m \<noteq> q_arch q then Inl (NoUpdate (ArchMismatch (arch m) (q_arch q)))
      else case Acceptable (q_current q) (mversion m) (min_version m) of
        Inr _ \<Rightarrow> Inr ()
      | Inl e \<Rightarrow>
          (case ParseVersion (mversion m) of
             Inl pe \<Rightarrow> Inl (BadQueryVersion pe)
           | Inr _ \<Rightarrow> Inl (NoUpdate (NotAcceptable e))))"

text \<open>\<open>DirProvider.Check\<close>: the context's error and the content of \<open>manifest.json\<close> come from outside.\<close>

definition DirProvider_Check ::
  "(string \<Rightarrow> signed_manifest option) \<Rightarrow> string \<Rightarrow> bool \<Rightarrow> string option \<Rightarrow> query \<Rightarrow> (check_error, release) res" where
  "DirProvider_Check decode dir cancelled content q =
     (if cancelled then Inl Cancelled
      else case content of
        None \<Rightarrow> Inl (FetchFailed dir)
      | Some raw \<Rightarrow>
          (case ParseSignedManifest decode raw of
             Inl e \<Rightarrow> Inl (BadRelease e)
           | Inr sm \<Rightarrow>
               (case MatchQuery (sm_manifest sm) q of
                  Inl e \<Rightarrow> Inl e
                | Inr _ \<Rightarrow> Inr \<lparr>rel_manifest = sm, rel_source = dir\<rparr>)))"

section \<open>Validation\<close>

lemma artifact_validate_ok:
  assumes "artifact_validate a = Inr ()"
  shows "atype a = ArtifactFull \<or> atype a = ArtifactDelta" "filename a \<noteq> []" "\<not> str_contains (filename a) ''..''"
    "0 < asize a" "length (sha256 a) = 64" "isHex (sha256 a)" "url a \<noteq> []"
    "from_version a = [] \<or> is_ok (ParseVersion (from_version a))"
  using assms by (auto simp: artifact_validate_def split: if_splits sum.splits)

lemma validate_artifacts_ok:
  "validate_artifacts i seen as = Inr () \<Longrightarrow>
     (\<forall>a \<in> set as. artifact_validate a = Inr () \<and> (atype a = ArtifactDelta \<longrightarrow> from_version a \<noteq> [])) \<and>
     distinct (map artifact_key as) \<and> set seen \<inter> artifact_key ` set as = {}"
proof (induction as arbitrary: i seen)
  case (Cons a as)
  then have "validate_artifacts (Suc i) (artifact_key a # seen) as = Inr ()" and "artifact_key a \<notin> set seen"
    and "artifact_validate a = Inr ()" and "atype a = ArtifactDelta \<longrightarrow> from_version a \<noteq> []"
    by (auto split: sum.splits if_splits)
  with Cons.IH [of "Suc i" "artifact_key a # seen"] show ?case by auto
qed simp

lemma artifact_key_inj:
  assumes "artifact_key a = artifact_key b"
    and "atype a = ArtifactFull \<or> atype a = ArtifactDelta" and "atype b = ArtifactFull \<or> atype b = ArtifactDelta"
  shows "atype a = atype b \<and> from_version a = from_version b"
  using assms by (auto simp: artifact_key_def ArtifactFull_def ArtifactDelta_def)

lemma manifest_validate_ok:
  assumes "manifest_validate m = Inr ()"
  shows "schema m = ManifestSchema" "is_ok (ParseVersion (mversion m))" "ValidChannel (channel m)"
    "artifacts m \<noteq> []" "validate_artifacts 0 [] (artifacts m) = Inr ()"
    "min_version m = [] \<or> is_ok (ParseVersion (min_version m))"
  using assms by (auto simp: manifest_validate_def map_sum_def split: if_splits sum.splits)

lemma ParseSignedManifest_ok:
  assumes "ParseSignedManifest decode raw = Inr sm"
  shows "decode raw = Some sm" "manifest_validate (sm_manifest sm) = Inr ()" "signature sm \<noteq> []" "key_id sm \<noteq> []"
  using assms by (auto simp: ParseSignedManifest_def split: option.splits sum.splits if_splits)

section \<open>Selection\<close>

definition usable_delta :: "version \<Rightarrow> artifact \<Rightarrow> bool" where
  "usable_delta cur a \<longleftrightarrow> atype a = ArtifactDelta \<and> ParseVersion (from_version a) = Inr cur"

lemma delta_not_full: "ArtifactDelta \<noteq> ArtifactFull"
  by (simp add: ArtifactDelta_def ArtifactFull_def)

lemma select_step_fst:
  "fst (select_step cur (f, d) a) = (case f of None \<Rightarrow> if atype a = ArtifactFull then Some a else None | Some x \<Rightarrow> Some x)"
  using delta_not_full by (auto split: option.splits sum.splits)

lemma select_step_snd:
  "snd (select_step cur (f, d) a) =
     (if usable_delta cur a then (case d of None \<Rightarrow> Some a | Some x \<Rightarrow> if asize a < asize x then Some a else Some x) else d)"
  using delta_not_full by (auto simp: usable_delta_def ver_cmp.cmp_eq split: option.splits sum.splits)

declare select_step.simps [simp del]

lemma select_fold_full:
  "fst (foldl (select_step cur) (f, d) as) =
     (case f of None \<Rightarrow> find (\<lambda>a. atype a = ArtifactFull) as | Some x \<Rightarrow> Some x)"
proof (induction as arbitrary: f d)
  case Nil
  then show ?case by (simp split: option.splits)
next
  case (Cons a as)
  obtain f' d' where fd: "select_step cur (f, d) a = (f', d')" by fastforce
  with select_step_fst [of cur f d a] show ?case by (simp add: Cons.IH split: option.splits)
qed

lemma select_fold_delta:
  assumes "snd (foldl (select_step cur) (f, d) as) = d'"
  shows "(\<forall>x. d' = Some x \<longrightarrow> d = Some x \<or> (x \<in> set as \<and> usable_delta cur x)) \<and>
    (\<forall>y. d = Some y \<or> (y \<in> set as \<and> usable_delta cur y) \<longrightarrow> (\<exists>x. d' = Some x \<and> asize x \<le> asize y))"
  using assms
proof (induction as arbitrary: f d)
  case (Cons a as)
  obtain f1 d1 where fd: "select_step cur (f, d) a = (f1, d1)" by fastforce
  then have d1: "d1 = (if usable_delta cur a then (case d of None \<Rightarrow> Some a | Some x \<Rightarrow> if asize a < asize x then Some a else Some x) else d)"
    using select_step_snd [of cur f d a] by simp
  from Cons.prems fd have "snd (foldl (select_step cur) (f1, d1) as) = d'" by simp
  note IH = Cons.IH [OF this]
  show ?case
  proof (intro conjI allI impI)
    fix x assume "d' = Some x"
    with IH show "d = Some x \<or> (x \<in> set (a # as) \<and> usable_delta cur x)"
      by (auto simp: d1 split: if_splits option.splits)
  next
    fix y assume y: "d = Some y \<or> (y \<in> set (a # as) \<and> usable_delta cur y)"
    then have "(\<exists>z. d1 = Some z \<and> asize z \<le> asize y) \<or> (y \<in> set as \<and> usable_delta cur y)"
      by (cases d) (auto simp: d1)
    then show "\<exists>x. d' = Some x \<and> asize x \<le> asize y"
    proof
      assume "\<exists>z. d1 = Some z \<and> asize z \<le> asize y"
      with IH show ?thesis using order_trans by blast
    qed (use IH in blast)
  qed
qed auto

lemma SelectArtifact_cases:
  assumes "SelectArtifact current m = Inr a"
  obtains cur full d where "ParseVersion current = Inr cur" "fullArtifactOf m = Some full"
    "foldl (select_step cur) (None, None) (artifacts m) = (Some full, d)"
    "a = (case d of Some x \<Rightarrow> if asize x < asize full then x else full | None \<Rightarrow> full)"
proof -
  from assms obtain cur where cur: "ParseVersion current = Inr cur"
    by (auto simp: SelectArtifact_def split: sum.splits)
  obtain f d where fd: "foldl (select_step cur) (None, None) (artifacts m) = (f, d)" by fastforce
  with assms cur obtain full where f: "f = Some full"
    and a: "a = (case d of Some x \<Rightarrow> if asize x < asize full then x else full | None \<Rightarrow> full)"
    by (auto simp: SelectArtifact_def split: option.splits if_splits)
  with fd select_fold_full [of cur None None "artifacts m"] have "fullArtifactOf m = Some full"
    by (simp add: fullArtifactOf_def)
  with that cur fd f a show thesis by blast
qed

lemma fullArtifactOf_Some: "fullArtifactOf m = Some a \<Longrightarrow> a \<in> set (artifacts m) \<and> atype a = ArtifactFull"
  by (auto simp: fullArtifactOf_def find_Some_iff)

lemma SelectArtifact_best:
  assumes "SelectArtifact current m = Inr a"
  shows "\<exists>cur full. ParseVersion current = Inr cur \<and> fullArtifactOf m = Some full \<and> a \<in> set (artifacts m) \<and>
    (a = full \<or> usable_delta cur a \<and> asize a < asize full) \<and> asize a \<le> asize full \<and>
    (\<forall>d \<in> set (artifacts m). usable_delta cur d \<longrightarrow> asize a \<le> asize d)"
proof -
  from assms obtain cur full d where cur: "ParseVersion current = Inr cur" and full: "fullArtifactOf m = Some full"
    and fd: "foldl (select_step cur) (None, None) (artifacts m) = (Some full, d)"
    and a: "a = (case d of Some x \<Rightarrow> if asize x < asize full then x else full | None \<Rightarrow> full)"
    by (rule SelectArtifact_cases)
  have "snd (foldl (select_step cur) (None, None) (artifacts m)) = d" by (simp add: fd)
  note d = select_fold_delta [OF this]
  show ?thesis
  proof (intro exI conjI)
    show "a \<in> set (artifacts m)" "a = full \<or> usable_delta cur a \<and> asize a < asize full" "asize a \<le> asize full"
      using a d fullArtifactOf_Some [OF full] by (auto split: option.splits if_splits)
    show "\<forall>d \<in> set (artifacts m). usable_delta cur d \<longrightarrow> asize a \<le> asize d"
      using a d by (fastforce split: option.splits if_splits)
  qed (fact cur full)+
qed

lemma SelectArtifact_total:
  "is_ok (SelectArtifact current m) \<longleftrightarrow> is_ok (ParseVersion current) \<and> fullArtifactOf m \<noteq> None"
proof (cases "ParseVersion current")
  case (Inr cur)
  obtain f d where fd: "foldl (select_step cur) (None, None) (artifacts m) = (f, d)" by fastforce
  with select_fold_full [of cur None None "artifacts m"] have "f = fullArtifactOf m"
    by (simp add: fullArtifactOf_def)
  with fd Inr show ?thesis by (auto simp: SelectArtifact_def split: option.splits)
qed (simp add: SelectArtifact_def)

section \<open>Hexadecimal\<close>

lemma hex_char_ok: "d < 16 \<Longrightarrow> is_hex_digit (hex_char d) \<and> hex_digit_value (hex_char d) = d"
  by (auto simp: hex_char_def is_hex_digit_def is_digit_def hex_digit_value_def of_char_of)

lemma hex_decode_encode: "hex_decode (hex_encode s) = Some s"
proof (induction s)
  case Nil
  then show ?case by (simp add: hex_encode_def)
next
  case (Cons c s)
  have "byte c div 16 < 16" using byte_less_256 [of c] by linarith
  moreover have "byte c mod 16 < 16" by simp
  ultimately show ?case using Cons.IH hex_char_ok [of "byte c div 16"] hex_char_ok [of "byte c mod 16"]
    by (simp add: hex_encode_def)
qed

lemma hex_solid: "is_hex_digit c \<Longrightarrow> solid_first c \<and> solid_last c"
  by (auto simp: is_hex_digit_def is_digit_def solid_first_def solid_last_def space_seqs_def)

lemma hex_encode_hex: "list_all is_hex_digit (hex_encode s)"
proof (induction s)
  case (Cons c s)
  have "byte c div 16 < 16" using byte_less_256 [of c] by linarith
  with Cons hex_char_ok show ?case by (simp add: hex_encode_def)
qed (simp add: hex_encode_def)

lemma trim_hex: "list_all is_hex_digit s \<Longrightarrow> trim_space s = s"
  by (cases "s = []") (simp_all add: trim_space_solid hex_solid list_all_iff)

lemma VerifyManifest_sound:
  assumes "VerifyManifest ed_verify canon keys sm = Inr ()"
  obtains pub sig where "map_of keys (key_id sm) = Some pub" "hex_decode (trim_space (signature sm)) = Some sig"
    "ed_verify pub (canon (sm_manifest sm)) sig"
  using assms by (auto simp: VerifyManifest_def split: if_splits option.splits)

section \<open>Providers\<close>

text \<open>
  The contract of the \<open>ReleaseProvider\<close> interface that the manager relies on: what \<open>Check\<close> returns
  matches the query. The manager's view, that every answer is an upgrade, follows.
\<close>

locale release_provider =
  fixes check :: "query \<Rightarrow> (check_error, release) res"
  assumes check_matches: "check q = Inr rel \<Longrightarrow> MatchQuery (sm_manifest (rel_manifest rel)) q = Inr ()"
begin

lemma check_scope:
  assumes "check q = Inr rel"
  shows "channel (sm_manifest (rel_manifest rel)) = q_channel q"
    "platform (sm_manifest (rel_manifest rel)) = q_platform q"
    "arch (sm_manifest (rel_manifest rel)) = q_arch q"
  using check_matches [OF assms] by (auto simp: MatchQuery_def split: if_splits)

lemma check_acceptable:
  assumes "check q = Inr rel"
  shows "Acceptable (q_current q) (mversion (sm_manifest (rel_manifest rel))) (min_version (sm_manifest (rel_manifest rel))) = Inr ()"
  using check_matches [OF assms] by (auto simp: MatchQuery_def split: if_splits sum.splits)

lemma check_newer:
  assumes "check q = Inr rel"
  shows "IsNewerThan (q_current q) (mversion (sm_manifest (rel_manifest rel))) = Inr True"
  using check_acceptable [OF assms] by (auto simp: Acceptable_iff IsNewerThan_def ver_cmp.cmp_pos_iff)

end

interpretation dir_provider: release_provider "DirProvider_Check decode dir cancelled content"
  for decode dir cancelled content
  by unfold_locales (auto simp: DirProvider_Check_def split: if_splits option.splits sum.splits)

section \<open>Properties\<close>

text \<open>
  C23. The artifact choice. \<open>SelectArtifact\<close> succeeds exactly when the running version parses and the
  manifest lists a full artifact. The choice is listed, is the first full artifact or a delta made for
  exactly the running version that is smaller than it, and no usable delta and not the full artifact is
  smaller than the choice.
\<close>

theorem artifact_choice_minimal:
  "(is_ok (SelectArtifact current m) \<longleftrightarrow> is_ok (ParseVersion current) \<and> fullArtifactOf m \<noteq> None) \<and>
   (SelectArtifact current m = Inr a \<longrightarrow>
     (\<exists>cur full. ParseVersion current = Inr cur \<and> fullArtifactOf m = Some full \<and> a \<in> set (artifacts m) \<and>
       (a = full \<or> atype a = ArtifactDelta \<and> ParseVersion (from_version a) = Inr cur \<and> asize a < asize full) \<and>
       asize a \<le> asize full \<and>
       (\<forall>d \<in> set (artifacts m). atype d = ArtifactDelta \<and> ParseVersion (from_version d) = Inr cur \<longrightarrow> asize a \<le> asize d)))"
  using SelectArtifact_total [of current m] SelectArtifact_best [of current m a] by (auto simp: usable_delta_def)

definition sample_artifact :: "string \<Rightarrow> int \<Rightarrow> string \<Rightarrow> artifact" where
  "sample_artifact t n v = \<lparr>atype = t, filename = ''app.'' @ v @ t, asize = n, sha256 = replicate 64 CHR ''a'', url = ''u'', from_version = v\<rparr>"

definition sample_manifest :: manifest where
  "sample_manifest = \<lparr>schema = 1, mversion = ''1.2.0'', channel = ''stable'', release_date = [], release_notes = [],
     min_version = [], platform = ''linux'', arch = ''x86_64'',
     artifacts = [sample_artifact ''delta'' 9 ''1.0.0'', sample_artifact ''full'' 50 [], sample_artifact ''delta'' 7 ''1.1'']\<rparr>"

theorem artifact_choice_minimal_witness:
  "SelectArtifact ''1.1.0'' sample_manifest = Inr (sample_artifact ''delta'' 7 ''1.1'') \<and>
   (\<exists>full. fullArtifactOf sample_manifest = Some full \<and> asize (sample_artifact ''delta'' 7 ''1.1'') \<le> asize full)"
proof -
  have "SelectArtifact ''1.1.0'' sample_manifest = Inr (sample_artifact ''delta'' 7 ''1.1'')" by code_simp
  with artifact_choice_minimal [of "''1.1.0''" sample_manifest "sample_artifact ''delta'' 7 ''1.1''"]
  show ?thesis by blast
qed

text \<open>
  What a manifest that \<open>ParseSignedManifest\<close> accepts is good for: a supported schema and a known
  channel, at least one artifact, no two artifacts of the same type and base version, and of every artifact
  a positive size, a 64-digit hexadecimal hash, an address, and a file name without \<open>..\<close>; a delta
  names a base version that parses.
\<close>

theorem parsed_manifest_well_formed:
  assumes "ParseSignedManifest decode raw = Inr sm"
  shows "let m = sm_manifest sm in
    schema m = 1 \<and> channel m \<in> {''stable'', ''beta'', ''dev''} \<and> is_ok (ParseVersion (mversion m)) \<and>
    signature sm \<noteq> [] \<and> key_id sm \<noteq> [] \<and> artifacts m \<noteq> [] \<and>
    distinct (map (\<lambda>a. (atype a, from_version a)) (artifacts m)) \<and>
    (\<forall>a \<in> set (artifacts m). atype a \<in> {''full'', ''delta''} \<and> 0 < asize a \<and> length (sha256 a) = 64 \<and>
       list_all is_hex_digit (sha256 a) \<and> url a \<noteq> [] \<and> filename a \<noteq> [] \<and> \<not> str_contains (filename a) ''..'' \<and>
       (atype a = ''delta'' \<longrightarrow> is_ok (ParseVersion (from_version a))))"
proof -
  define m where "m = sm_manifest sm"
  note p = ParseSignedManifest_ok [OF assms]
  note v = manifest_validate_ok [OF p(2), folded m_def]
  have a: "artifact_validate x = Inr ()" "atype x = ArtifactDelta \<longrightarrow> from_version x \<noteq> []" if "x \<in> set (artifacts m)" for x
    using validate_artifacts_ok [OF v(5)] that by auto
  have "distinct (artifacts m)" and inj: "inj_on artifact_key (set (artifacts m))"
    using validate_artifacts_ok [OF v(5)] by (simp_all add: distinct_map)
  moreover have "inj_on (\<lambda>a. (atype a, from_version a)) (set (artifacts m))"
  proof (rule inj_onI)
    fix x y assume xy: "x \<in> set (artifacts m)" "y \<in> set (artifacts m)" "(atype x, from_version x) = (atype y, from_version y)"
    then have "artifact_key x = artifact_key y" by (simp add: artifact_key_def)
    with inj xy(1,2) show "x = y" by (simp add: inj_on_def)
  qed
  ultimately have "distinct (map (\<lambda>a. (atype a, from_version a)) (artifacts m))" by (simp add: distinct_map)
  moreover have "channel m \<in> {''stable'', ''beta'', ''dev''}" "schema m = 1"
    using v(1,3) by (auto simp: ManifestSchema_def ValidChannel_def ChannelStable_def ChannelBeta_def ChannelDev_def)
  moreover have "atype x \<in> {''full'', ''delta''} \<and> 0 < asize x \<and> length (sha256 x) = 64 \<and> list_all is_hex_digit (sha256 x) \<and>
      url x \<noteq> [] \<and> filename x \<noteq> [] \<and> \<not> str_contains (filename x) ''..'' \<and>
      (atype x = ''delta'' \<longrightarrow> is_ok (ParseVersion (from_version x)))" if "x \<in> set (artifacts m)" for x
    using artifact_validate_ok [OF a(1) [OF that]] a(2) [OF that]
    by (auto simp: ArtifactFull_def ArtifactDelta_def isHex_def)
  ultimately show ?thesis unfolding Let_def m_def [symmetric] using p(3,4) v(2,4) by (intro conjI ballI) blast+
qed

theorem parsed_manifest_well_formed_witness:
  "distinct (map (\<lambda>a. (atype a, from_version a)) (artifacts sample_manifest)) \<and>
   ParseSignedManifest (\<lambda>_. Some \<lparr>sm_manifest = sample_manifest, signature = ''00'', key_id = ''k''\<rparr>) [] =
     Inr \<lparr>sm_manifest = sample_manifest, signature = ''00'', key_id = ''k''\<rparr>"
proof -
  have "ParseSignedManifest (\<lambda>_. Some \<lparr>sm_manifest = sample_manifest, signature = ''00'', key_id = ''k''\<rparr>) [] =
      Inr \<lparr>sm_manifest = sample_manifest, signature = ''00'', key_id = ''k''\<rparr>" by code_simp
  with parsed_manifest_well_formed [OF this] show ?thesis by (simp add: Let_def)
qed

text \<open>
  C24. Signing and verification fit together: what \<open>SignManifest\<close> produces under a trusted key id is
  accepted, given only that the primitive accepts its own signatures; and whatever is accepted carries a
  decodable signature that the primitive accepts for the manifest's canonical bytes under the key named.
\<close>

theorem signed_manifest_verifies:
  "(map_of keys kid = Some pub \<and> ed_verify pub (canon m) (ed_sign priv (canon m)) \<longrightarrow>
      VerifyManifest ed_verify canon keys (SignManifest ed_sign canon m kid priv) = Inr ()) \<and>
   (VerifyManifest ed_verify canon keys sm = Inr () \<longleftrightarrow>
      (\<exists>k sig. map_of keys (key_id sm) = Some k \<and> hex_decode (trim_space (signature sm)) = Some sig \<and>
         ed_verify k (canon (sm_manifest sm)) sig))"
proof (intro conjI impI)
  assume "map_of keys kid = Some pub \<and> ed_verify pub (canon m) (ed_sign priv (canon m))"
  then show "VerifyManifest ed_verify canon keys (SignManifest ed_sign canon m kid priv) = Inr ()"
    by (auto simp: VerifyManifest_def SignManifest_def trim_hex [OF hex_encode_hex] hex_decode_encode)
next
  show "VerifyManifest ed_verify canon keys sm = Inr () \<longleftrightarrow>
      (\<exists>k sig. map_of keys (key_id sm) = Some k \<and> hex_decode (trim_space (signature sm)) = Some sig \<and>
         ed_verify k (canon (sm_manifest sm)) sig)"
    by (auto simp: VerifyManifest_def split: option.splits)
qed

theorem signed_manifest_verifies_witness:
  "VerifyManifest (\<lambda>k b sig. sig = k @ b) mversion [(''id'', ''key'')] (SignManifest (@) mversion sample_manifest ''id'' ''key'') = Inr ()"
  using signed_manifest_verifies [of "[(''id'', ''key'')]" "''id''" "''key''" "\<lambda>k b sig. sig = k @ b" mversion sample_manifest "(@)" "''key''"]
  by simp

end
