(* ===== verification/GitHub.thy ===== *)
theory GitHub
  imports Manifest
begin

text \<open>
  The GitHub release provider (\<open>update/github.go\<close>): paging through the release index, throttling, the
  choice of a manifest asset, the checks on a release and the scan for the newest applicable one. The
  server's answer to a request, JSON decoding, the context's error at each point where the code asks for
  it and the wall clock are parameters; during one check a request is answered the same way every time.
  Error texts are reduced to their cause, and a skipped release to its tag.
\<close>

section \<open>Requests\<close>

definition GitHubManifestAsset :: string where "GitHubManifestAsset = ''update-manifest.json''"
definition GitHubSigAsset :: string where "GitHubSigAsset = ''update-manifest.json.sig''"
definition DefaultAPIBase :: string where "DefaultAPIBase = ''https://api.github.com''"

record provider =
  p_owner :: string
  p_repo :: string
  p_base :: string
  p_token :: string

record request =
  req_url :: string
  req_accept :: string
  req_auth :: string

record response =
  resp_status :: int
  resp_header :: "string \<Rightarrow> string"
  resp_body :: "string option"

type_synonym transport = "request \<Rightarrow> (string, response) res"

datatype ctx_point = AtStart | AtPage nat | AtRelease string

definition apiBase :: "provider \<Rightarrow> string" where
  "apiBase p = (if p_base p \<noteq> [] then trim_suffix (p_base p) ''/'' else DefaultAPIBase)"

definition provider_name :: "provider \<Rightarrow> string" where
  "provider_name p =
     (if p_owner p = [] \<or> p_repo p = [] then ''github:(unconfigured)'' else ''github:'' @ p_owner p @ ''/'' @ p_repo p)"

definition auth :: "provider \<Rightarrow> string" where
  "auth p = (if p_token p \<noteq> [] then ''Bearer '' @ p_token p else [])"

text \<open>When throttling ends: unknown, at a Unix time, or a duration after now (an \<open>int64\<close> product).\<close>

datatype reset = NoReset | ResetAt int | ResetIn int

definition rateLimit :: "response \<Rightarrow> reset option" where
  "rateLimit r =
     (if resp_status r \<noteq> 403 \<and> resp_status r \<noteq> 429 then None
      else if resp_status r \<noteq> 429 \<and> resp_header r ''X-RateLimit-Remaining'' \<noteq> ''0'' \<and> resp_header r ''Retry-After'' = [] then None
      else Some
        (case atoi (resp_header r ''X-RateLimit-Reset'') of
           Some n \<Rightarrow> if n > 0 then ResetAt n else
             (case atoi (trim_space (resp_header r ''Retry-After'')) of
                Some k \<Rightarrow> if k > 0 then ResetIn (sint (word_of_int (k * 10 ^ 9) :: 64 word)) else NoReset
              | None \<Rightarrow> NoReset)
         | None \<Rightarrow>
             (case atoi (trim_space (resp_header r ''Retry-After'')) of
                Some k \<Rightarrow> if k > 0 then ResetIn (sint (word_of_int (k * 10 ^ 9) :: 64 word)) else NoReset
              | None \<Rightarrow> NoReset)))"

definition getBytes :: "transport \<Rightarrow> provider \<Rightarrow> string \<Rightarrow> int \<Rightarrow> (check_error, string) res" where
  "getBytes http p u mx =
     (case http \<lparr>req_url = u, req_accept = [], req_auth = auth p\<rparr> of
        Inl e \<Rightarrow> Inl (FetchFailed e)
      | Inr r \<Rightarrow>
          if resp_status r \<noteq> 200 then
            (case rateLimit r of Some _ \<Rightarrow> Inl RateLimited | None \<Rightarrow> Inl (FetchFailed u))
          else case resp_body r of
            None \<Rightarrow> Inl (FetchFailed u)
          | Some body \<Rightarrow>
              (let raw = read_limited (mx + 1) body
               in if int (length raw) > mx then Inl (FetchFailed u) else Inr raw))"

section \<open>The release index\<close>

record gh_asset =
  as_name :: string
  as_url :: string
  as_size :: int

record gh_release =
  gh_tag :: string
  gh_prerelease :: bool
  gh_draft :: bool
  gh_body :: string
  gh_assets :: "gh_asset list"

text \<open>The address marked \<open>rel="next"\<close> of a \<open>Link\<close> header.\<close>

definition link_target :: "string \<Rightarrow> string option" where
  "link_target seg =
     (case split_on CHR '';'' seg of
        u # params \<Rightarrow>
          (let urlPart = trim_space u
           in if params = [] \<or> \<not> has_prefix urlPart ''<'' \<or> \<not> has_suffix urlPart ''>'' then None
              else if \<exists>q \<in> set params. trim_space q = ''rel='' @ [CHR 0x22] @ ''next'' @ [CHR 0x22]
              then Some (trim_suffix (trim_prefix urlPart ''<'') ''>'') else None)
      | [] \<Rightarrow> None)"

fun first_some :: "('a \<Rightarrow> 'b option) \<Rightarrow> 'a list \<Rightarrow> 'b option" where
  "first_some f [] = None"
| "first_some f (x # xs) = (case f x of Some y \<Rightarrow> Some y | None \<Rightarrow> first_some f xs)"

definition parseNextLink :: "string \<Rightarrow> string" where
  "parseNextLink header = (case first_some link_target (split_on CHR '','' header) of Some u \<Rightarrow> u | None \<Rightarrow> [])"

definition fetchReleasePage ::
  "transport \<Rightarrow> (string \<Rightarrow> gh_release list option) \<Rightarrow> provider \<Rightarrow> string \<Rightarrow> (check_error, gh_release list \<times> string) res" where
  "fetchReleasePage http decode p u =
     (case http \<lparr>req_url = u, req_accept = ''application/vnd.github+json'', req_auth = auth p\<rparr> of
        Inl e \<Rightarrow> Inl (FetchFailed e)
      | Inr r \<Rightarrow>
          if resp_status r \<noteq> 200 then
            (case rateLimit r of Some _ \<Rightarrow> Inl RateLimited | None \<Rightarrow> Inl (FetchFailed u))
          else case resp_body r of
            None \<Rightarrow> Inl (FetchFailed u)
          | Some b \<Rightarrow>
              (case decode (read_limited 4194304 b) of
                 None \<Rightarrow> Inl (FetchFailed u)
               | Some rels \<Rightarrow> Inr (rels, parseNextLink (resp_header r ''Link''))))"

text \<open>The paging loop, with \<open>page\<close> counting up to five.\<close>

function list_pages ::
  "transport \<Rightarrow> (string \<Rightarrow> gh_release list option) \<Rightarrow> (ctx_point \<Rightarrow> bool) \<Rightarrow> provider \<Rightarrow> nat \<Rightarrow> string \<Rightarrow> gh_release list
    \<Rightarrow> (check_error, gh_release list) res" where
  "list_pages http decode done p page u all =
     (if page \<ge> 5 then Inr all
      else if done (AtPage page) then Inl Cancelled
      else case fetchReleasePage http decode p u of
        Inl e \<Rightarrow> Inl e
      | Inr (rels, next) \<Rightarrow>
          if next = [] then Inr (all @ rels) else list_pages http decode done p (Suc page) next (all @ rels))"
  by pat_completeness auto
termination by (relation "measure (\<lambda>(_, _, _, _, page, _, _). 5 - page)") auto

declare list_pages.simps [simp del]

definition listReleases ::
  "transport \<Rightarrow> (string \<Rightarrow> gh_release list option) \<Rightarrow> (ctx_point \<Rightarrow> bool) \<Rightarrow> provider \<Rightarrow> (check_error, gh_release list) res" where
  "listReleases http decode done p =
     list_pages http decode done p 0
       (apiBase p @ ''/repos/'' @ p_owner p @ ''/'' @ p_repo p @ ''/releases?per_page=100'') []"

section \<open>One release\<close>

definition manifestCandidates :: "string \<Rightarrow> string list" where
  "manifestCandidates plat =
     rev (remdups (rev ((''update-manifest-'' @ plat @ ''.json'') # GitHubManifestAsset #
       (if plat = ''linux'' then [''update-manifest-linux.json''] else []))))"

text \<open>The map by asset name: a later asset of the same name replaces an earlier one.\<close>

definition byName :: "gh_asset list \<Rightarrow> string \<rightharpoonup> gh_asset" where
  "byName assets = map_of (rev (map (\<lambda>a. (as_name a, a)) assets))"

text \<open>The manifest's address and that of its detached signature, if any.\<close>

definition manifest_source :: "(string \<rightharpoonup> gh_asset) \<Rightarrow> string \<Rightarrow> (string \<times> string) option" where
  "manifest_source names plat =
     first_some (\<lambda>want. case names want of
         None \<Rightarrow> None
       | Some a \<Rightarrow>
           if as_url a = [] then None
           else Some (as_url a,
             (case names (want @ ''.sig'') of
                Some s \<Rightarrow> as_url s
              | None \<Rightarrow> (case names GitHubSigAsset of Some s \<Rightarrow> as_url s | None \<Rightarrow> []))))
       (manifestCandidates plat)"

fun resolve_artifacts :: "(string \<rightharpoonup> gh_asset) \<Rightarrow> string \<Rightarrow> artifact list \<Rightarrow> (check_error, artifact list) res" where
  "resolve_artifacts names tag [] = Inr []"
| "resolve_artifacts names tag (a # as) =
     (if str_contains (url a) ''://'' then
        (case resolve_artifacts names tag as of Inl e \<Rightarrow> Inl e | Inr bs \<Rightarrow> Inr (a # bs))
      else
        (let name = (if url a = [] then filename a else url a)
         in case names name of
              None \<Rightarrow> Inl (AssetMissing tag name)
            | Some asset \<Rightarrow>
                if as_url asset = [] then Inl (AssetMissing tag name)
                else case resolve_artifacts names tag as of
                  Inl e \<Rightarrow> Inl e
                | Inr bs \<Rightarrow> Inr (a\<lparr>url := as_url asset\<rparr> # bs)))"

definition releaseFrom ::
  "transport \<Rightarrow> (string \<Rightarrow> signed_manifest option) \<Rightarrow> provider \<Rightarrow> gh_release \<Rightarrow> query \<Rightarrow> (check_error, release) res" where
  "releaseFrom http decode p r q =
     (let names = byName (gh_assets r)
      in case manifest_source names (q_platform q) of
        None \<Rightarrow> Inl (NoUpdate MissingManifest)
      | Some (manURL, sigURL) \<Rightarrow>
          (case getBytes http p manURL 1048576 of
             Inl e \<Rightarrow> Inl e
           | Inr raw \<Rightarrow>
               (case ParseSignedManifest decode raw of
                  Inl e \<Rightarrow> Inl (BadRelease e)
                | Inr sm \<Rightarrow>
                    (case MatchQuery (sm_manifest sm) q of
                       Inl e \<Rightarrow> Inl e
                     | Inr _ \<Rightarrow>
                         (case (if sigURL = [] then Inr ()
                                else case getBytes http p sigURL 65536 of
                                  Inl e \<Rightarrow> Inl e
                                | Inr sigRaw \<Rightarrow>
                                    if trim_space sigRaw \<noteq> trim_space (signature sm)
                                    then Inl (SignatureMismatch (gh_tag r)) else Inr ()) of
                            Inl e \<Rightarrow> Inl e
                          | Inr _ \<Rightarrow>
                              (case resolve_artifacts names (gh_tag r) (artifacts (sm_manifest sm)) of
                                 Inl e \<Rightarrow> Inl e
                               | Inr as \<Rightarrow>
                                   Inr \<lparr>rel_manifest = sm\<lparr>sm_manifest := (sm_manifest sm)\<lparr>artifacts := as\<rparr>\<rparr>,
                                        rel_source = provider_name p @ ''@'' @ gh_tag r\<rparr>))))))"

definition tagVersion :: "string \<Rightarrow> (version_error, string) res" where
  "tagVersion tag =
     (let t = trim_prefix (trim_prefix (trim_space tag) ''v'') ''V''
      in case ParseVersion t of Inl e \<Rightarrow> Inl e | Inr _ \<Rightarrow> Inr t)"

section \<open>The scan\<close>

text \<open>Whether a release is considered at all: its tag's version, or a skipped tag, or nothing.\<close>

datatype relevance = Irrelevant | Untagged | Candidate

definition relevance_of :: "query \<Rightarrow> gh_release \<Rightarrow> relevance" where
  "relevance_of q r =
     (if gh_draft r then Irrelevant
      else if q_channel q = ChannelStable \<and> gh_prerelease r then Irrelevant
      else case tagVersion (gh_tag r) of
        Inl _ \<Rightarrow> Untagged
      | Inr ver \<Rightarrow> if IsNewerThan (q_current q) ver = Inr True then Candidate else Irrelevant)"

fun scan ::
  "(gh_release \<Rightarrow> (check_error, release) res) \<Rightarrow> (ctx_point \<Rightarrow> bool) \<Rightarrow> query \<Rightarrow> gh_release list \<Rightarrow> string list \<Rightarrow> check_error list
    \<Rightarrow> (string list \<times> check_error list, (check_error, release) res) res" where
  "scan from done q [] skipped hard = Inl (skipped, hard)"
| "scan from done q (r # rs) skipped hard =
     (case relevance_of q r of
        Irrelevant \<Rightarrow> scan from done q rs skipped hard
      | Untagged \<Rightarrow> scan from done q rs (skipped @ [gh_tag r]) hard
      | Candidate \<Rightarrow>
          (case from r of
             Inr rel \<Rightarrow> Inr (Inr rel)
           | Inl e \<Rightarrow>
               if IsNoUpdate e then scan from done q rs (skipped @ [gh_tag r]) hard
               else if e = RateLimited \<or> done (AtRelease (gh_tag r)) then Inr (Inl e)
               else scan from done q rs (skipped @ [gh_tag r]) (hard @ [e])))"

definition conclude :: "gh_release list \<Rightarrow> string list \<times> check_error list \<Rightarrow> check_error" where
  "conclude rels sh =
     (case sh of (skipped, hard) \<Rightarrow>
        if rels = [] then NoUpdate NoReleases
        else if hard \<noteq> [] \<and> length hard = length skipped then hd hard
        else NoUpdate (NoApplicable skipped))"

definition GitHub_Check ::
  "transport \<Rightarrow> (string \<Rightarrow> gh_release list option) \<Rightarrow> (string \<Rightarrow> signed_manifest option) \<Rightarrow> (ctx_point \<Rightarrow> bool) \<Rightarrow>
    provider \<Rightarrow> query \<Rightarrow> (check_error, release) res" where
  "GitHub_Check http decode_rels decode_sm done p q =
     (if p_owner p = [] \<or> p_repo p = [] then Inl NotConfigured
      else if done AtStart then Inl Cancelled
      else case listReleases http decode_rels done p of
        Inl e \<Rightarrow> Inl e
      | Inr rels \<Rightarrow>
          (case scan (\<lambda>r. releaseFrom http decode_sm p r q) done q rels [] [] of
             Inr res \<Rightarrow> res
           | Inl sh \<Rightarrow> Inl (conclude rels sh)))"

definition OpenArtifact :: "transport \<Rightarrow> provider \<Rightarrow> artifact \<Rightarrow> (check_error, string option) res" where
  "OpenArtifact http p a =
     (if p_owner p = [] \<or> p_repo p = [] then Inl NotConfigured
      else if \<not> str_contains (url a) ''://'' then Inl (FetchFailed (url a))
      else case http \<lparr>req_url = url a, req_accept = [], req_auth = auth p\<rparr> of
        Inl e \<Rightarrow> Inl (FetchFailed e)
      | Inr r \<Rightarrow>
          if resp_status r \<noteq> 200 then
            (case rateLimit r of Some _ \<Rightarrow> Inl RateLimited | None \<Rightarrow> Inl (FetchFailed (url a)))
          else Inr (resp_body r))"

section \<open>Lemmas\<close>

lemma first_some_Some: "first_some f xs = Some y \<Longrightarrow> \<exists>x \<in> set xs. f x = Some y"
  by (induction xs) (auto split: option.splits)

lemma resolve_artifacts_ok:
  "resolve_artifacts names tag as = Inr bs \<Longrightarrow>
     length bs = length as \<and>
     (\<forall>i < length as. bs ! i = as ! i \<and> str_contains (url (as ! i)) ''://'' \<or>
        (\<exists>asset. names (if url (as ! i) = [] then filename (as ! i) else url (as ! i)) = Some asset \<and> as_url asset \<noteq> [] \<and>
           bs ! i = (as ! i)\<lparr>url := as_url asset\<rparr>))"
proof (induction as arbitrary: bs)
  case (Cons a as)
  from Cons.prems obtain b bs' where bs: "bs = b # bs'" "resolve_artifacts names tag as = Inr bs'"
    and b: "b = a \<and> str_contains (url a) ''://'' \<or>
      (\<exists>asset. names (if url a = [] then filename a else url a) = Some asset \<and> as_url asset \<noteq> [] \<and> b = a\<lparr>url := as_url asset\<rparr>)"
    by (auto simp: Let_def split: if_splits option.splits sum.splits)
  show ?case using Cons.IH [OF bs(2)] b unfolding bs(1)
    by (auto simp: nth_Cons split: nat.splits)
qed simp

lemma resolve_artifacts_fields:
  "resolve_artifacts names tag as = Inr bs \<Longrightarrow>
     map (\<lambda>a. (atype a, filename a, asize a, sha256 a, from_version a)) bs = map (\<lambda>a. (atype a, filename a, asize a, sha256 a, from_version a)) as"
  by (induction as arbitrary: bs) (auto simp: Let_def split: if_splits option.splits sum.splits)

lemma MatchQuery_artifacts: "MatchQuery (m\<lparr>artifacts := as\<rparr>) q = MatchQuery m q"
  by (simp add: MatchQuery_def split: sum.splits)

lemma releaseFrom_ok:
  assumes "releaseFrom http decode p r q = Inr rel"
  obtains manURL sigURL raw sm as where
    "manifest_source (byName (gh_assets r)) (q_platform q) = Some (manURL, sigURL)"
    "getBytes http p manURL 1048576 = Inr raw" "ParseSignedManifest decode raw = Inr sm"
    "MatchQuery (sm_manifest sm) q = Inr ()"
    "sigURL \<noteq> [] \<Longrightarrow> \<exists>sig. getBytes http p sigURL 65536 = Inr sig \<and> trim_space sig = trim_space (signature sm)"
    "resolve_artifacts (byName (gh_assets r)) (gh_tag r) (artifacts (sm_manifest sm)) = Inr as"
    "rel = \<lparr>rel_manifest = sm\<lparr>sm_manifest := (sm_manifest sm)\<lparr>artifacts := as\<rparr>\<rparr>, rel_source = provider_name p @ ''@'' @ gh_tag r\<rparr>"
  using assms by (auto simp: releaseFrom_def Let_def split: option.splits prod.splits sum.splits if_splits)

lemma scan_Inr:
  "scan from done q rs skipped hard = Inr (Inr rel) \<Longrightarrow>
     \<exists>before r after. rs = before @ r # after \<and> relevance_of q r = Candidate \<and> from r = Inr rel \<and>
       (\<forall>b \<in> set before. relevance_of q b = Candidate \<longrightarrow> (\<exists>e. from b = Inl e \<and> e \<noteq> RateLimited))"
proof (induction rs arbitrary: skipped hard)
  case (Cons r rs)
  show ?case
  proof (cases "relevance_of q r = Candidate \<and> is_ok (from r)")
    case True
    with Cons.prems have "from r = Inr rel" by (auto simp: is_ok_iff)
    with True have "r # rs = [] @ r # rs \<and> relevance_of q r = Candidate \<and> from r = Inr rel \<and>
       (\<forall>b \<in> set []. relevance_of q b = Candidate \<longrightarrow> (\<exists>e. from b = Inl e \<and> e \<noteq> RateLimited))" by simp
    then show ?thesis by blast
  next
    case False
    then have r: "relevance_of q r = Candidate \<Longrightarrow> \<exists>e. from r = Inl e" by (cases "from r") auto
    with Cons.prems obtain sk hd where rest: "scan from done q rs sk hd = Inr (Inr rel)"
      and r': "relevance_of q r = Candidate \<longrightarrow> (\<exists>e. from r = Inl e \<and> e \<noteq> RateLimited)"
      by (cases "relevance_of q r") (auto simp: IsNoUpdate_def split: if_splits sum.splits check_error.splits)
    from Cons.IH [OF rest] obtain before r2 after where "rs = before @ r2 # after" "relevance_of q r2 = Candidate" "from r2 = Inr rel"
      "\<forall>b \<in> set before. relevance_of q b = Candidate \<longrightarrow> (\<exists>e. from b = Inl e \<and> e \<noteq> RateLimited)" by blast
    with r' have "r # rs = (r # before) @ r2 # after \<and> relevance_of q r2 = Candidate \<and> from r2 = Inr rel \<and>
       (\<forall>b \<in> set (r # before). relevance_of q b = Candidate \<longrightarrow> (\<exists>e. from b = Inl e \<and> e \<noteq> RateLimited))" by simp
    then show ?thesis by blast
  qed
qed simp

lemma GitHub_Check_ok:
  assumes "GitHub_Check http dr ds done p q = Inr rel"
  obtains rels before r after where "listReleases http dr done p = Inr rels" "rels = before @ r # after"
    "relevance_of q r = Candidate" "releaseFrom http ds p r q = Inr rel"
    "\<forall>b \<in> set before. relevance_of q b = Candidate \<longrightarrow> (\<exists>e. releaseFrom http ds p b q = Inl e \<and> e \<noteq> RateLimited)"
proof -
  from assms obtain rels where rels: "listReleases http dr done p = Inr rels"
    and s: "scan (\<lambda>r. releaseFrom http ds p r q) done q rels [] [] = Inr (Inr rel)"
    by (auto simp: GitHub_Check_def split: if_splits sum.splits)
  from scan_Inr [OF s] that [OF rels] show thesis by blast
qed

interpretation github: release_provider "GitHub_Check http dr ds done p"
  for http dr ds "done" p
proof unfold_locales
  fix q rel assume "GitHub_Check http dr ds done p q = Inr rel"
  then obtain r where "releaseFrom http ds p r q = Inr rel" by (rule GitHub_Check_ok)
  then show "MatchQuery (sm_manifest (rel_manifest rel)) q = Inr ()"
    by (rule releaseFrom_ok) (simp add: MatchQuery_artifacts)
qed

section \<open>Properties\<close>

text \<open>A server with one repository: a draft, a prerelease, a release without a manifest and a good one.\<close>

definition demo_rel :: "string \<Rightarrow> bool \<Rightarrow> bool \<Rightarrow> gh_asset list \<Rightarrow> gh_release" where
  "demo_rel tag draft prerel assets = \<lparr>gh_tag = tag, gh_prerelease = prerel, gh_draft = draft, gh_body = [], gh_assets = assets\<rparr>"

definition demo_index :: "gh_release list" where
  "demo_index = [demo_rel ''v2.0.0'' True False [], demo_rel ''v1.9.0-rc.1'' False True [], demo_rel ''v1.3.0'' False False [],
     demo_rel ''v1.2.0'' False False
       [\<lparr>as_name = ''update-manifest.json'', as_url = ''https://x/m'', as_size = 1\<rparr>,
        \<lparr>as_name = ''full.zip'', as_url = ''https://x/full.zip'', as_size = 1\<rparr>]]"

definition demo_published :: "string \<Rightarrow> signed_manifest" where
  "demo_published u = SignManifest (@) (\<lambda>m. url (hd (artifacts m)))
     (sample_manifest\<lparr>artifacts := [(sample_artifact ''full'' 50 [])\<lparr>url := u\<rparr>]\<rparr>) ''id'' ''key''"

definition demo_http :: transport where
  "demo_http r = Inr \<lparr>resp_status = 200, resp_header = \<lambda>_. [],
     resp_body = Some (if req_url r = ''https://x/m'' then ''manifest'' else ''index'')\<rparr>"

definition demo_provider :: provider where
  "demo_provider = \<lparr>p_owner = ''o'', p_repo = ''r'', p_base = ''https://api/'', p_token = []\<rparr>"

definition demo_query :: query where
  "demo_query = \<lparr>q_channel = ''stable'', q_platform = ''linux'', q_arch = ''x86_64'', q_current = ''1.0.0''\<rparr>"

lemma demo_check:
  "map_sum id rel_source (GitHub_Check demo_http (\<lambda>_. Some demo_index) (\<lambda>_. Some (demo_published ''full.zip'')) (\<lambda>_. False) demo_provider demo_query)
   = Inr ''github:o/r@v1.2.0''"
  by code_simp



text \<open>
  A manifest published with relative artifact addresses can never be installed: the provider replaces them
  by the assets' addresses inside the manifest, and the manager then verifies the published signature
  against the changed manifest. Assumed is only that the canonical bytes tell the two manifests apart and
  that a signature is not valid for two different texts.
\<close>

theorem relative_urls_break_trust:
  assumes "releaseFrom http decode p r q = Inr rel"
    and "manifest_source (byName (gh_assets r)) (q_platform q) = Some (manURL, sigURL)"
    and "getBytes http p manURL 1048576 = Inr raw" and "decode raw = Some sm"
    and "a \<in> set (artifacts (sm_manifest sm))" and "\<not> str_contains (url a) ''://''" and "url a \<notin> as_url ` set (gh_assets r)"
    and "VerifyManifest ed_verify canon keys sm = Inr ()"
    and "canon (sm_manifest (rel_manifest rel)) = canon (sm_manifest sm) \<longrightarrow> sm_manifest (rel_manifest rel) = sm_manifest sm"
    and "\<And>k b b' sig. ed_verify k b sig \<Longrightarrow> ed_verify k b' sig \<Longrightarrow> b = b'"
  shows "VerifyManifest ed_verify canon keys (rel_manifest rel) \<noteq> Inr ()"
proof
  assume ver: "VerifyManifest ed_verify canon keys (rel_manifest rel) = Inr ()"
  obtain as where as: "resolve_artifacts (byName (gh_assets r)) (gh_tag r) (artifacts (sm_manifest sm)) = Inr as"
    and rel: "rel_manifest rel = sm\<lparr>sm_manifest := (sm_manifest sm)\<lparr>artifacts := as\<rparr>\<rparr>"
  proof (rule releaseFrom_ok [OF assms(1)])
    fix manURL' sigURL' raw' sm' as
    assume "manifest_source (byName (gh_assets r)) (q_platform q) = Some (manURL', sigURL')" "getBytes http p manURL' 1048576 = Inr raw'"
      and "ParseSignedManifest decode raw' = Inr sm'"
      and r: "resolve_artifacts (byName (gh_assets r)) (gh_tag r) (artifacts (sm_manifest sm')) = Inr as"
        "rel = \<lparr>rel_manifest = sm'\<lparr>sm_manifest := (sm_manifest sm')\<lparr>artifacts := as\<rparr>\<rparr>, rel_source = provider_name p @ ''@'' @ gh_tag r\<rparr>"
    then have "sm' = sm" using assms(2-4) by (auto dest: ParseSignedManifest_ok(1))
    with r that show thesis by simp
  qed
  from assms(5) obtain i where i: "i < length (artifacts (sm_manifest sm))" "artifacts (sm_manifest sm) ! i = a"
    by (auto simp: in_set_conv_nth)
  have "as_url asset \<in> as_url ` set (gh_assets r)" if "byName (gh_assets r) n = Some asset" for n asset
    using map_of_SomeD [OF that [unfolded byName_def]] by auto
  moreover have "\<exists>n asset. byName (gh_assets r) n = Some asset \<and> as ! i = a\<lparr>url := as_url asset\<rparr>"
    using resolve_artifacts_ok [OF as] i assms(6) by blast
  ultimately have "url (as ! i) \<in> as_url ` set (gh_assets r)" by auto
  with assms(7) i have "as \<noteq> artifacts (sm_manifest sm)" by auto
  then have "sm_manifest (rel_manifest rel) \<noteq> sm_manifest sm" by (auto simp: rel dest: arg_cong [of _ _ artifacts])
  moreover have kid: "key_id (rel_manifest rel) = key_id sm" and sgn: "signature (rel_manifest rel) = signature sm" by (simp_all add: rel)
  have "canon (sm_manifest (rel_manifest rel)) = canon (sm_manifest sm)"
    using VerifyManifest_sound [OF ver] VerifyManifest_sound [OF assms(8)] assms(10)
    by (metis kid option.inject sgn)
  ultimately show False using assms(9) by blast
qed

theorem relative_urls_break_trust_witness:
  "\<exists>rel. releaseFrom demo_http (\<lambda>_. Some (demo_published ''full.zip'')) demo_provider (demo_index ! 3) demo_query = Inr rel \<and>
     VerifyManifest (\<lambda>k b sig. sig = k @ b) (\<lambda>m. url (hd (artifacts m))) [(''id'', ''key'')] (demo_published ''full.zip'') = Inr () \<and>
     VerifyManifest (\<lambda>k b sig. sig = k @ b) (\<lambda>m. url (hd (artifacts m))) [(''id'', ''key'')] (rel_manifest rel) \<noteq> Inr ()"
proof -
  let ?canon = "\<lambda>m :: manifest. url (hd (artifacts m))" and ?ver = "\<lambda>k b sig. sig = k @ b"
  have "map_sum id (\<lambda>rel. ?canon (sm_manifest (rel_manifest rel)))
      (releaseFrom demo_http (\<lambda>_. Some (demo_published ''full.zip'')) demo_provider (demo_index ! 3) demo_query) = Inr ''https://x/full.zip''"
    by code_simp
  then obtain rel where rel: "releaseFrom demo_http (\<lambda>_. Some (demo_published ''full.zip'')) demo_provider (demo_index ! 3) demo_query = Inr rel"
    and c: "?canon (sm_manifest (rel_manifest rel)) = ''https://x/full.zip''"
    by (auto simp: map_sum_def split: sum.splits)
  have src: "manifest_source (byName (gh_assets (demo_index ! 3))) (q_platform demo_query) = Some (''https://x/m'', [])"
    "getBytes demo_http demo_provider ''https://x/m'' 1048576 = Inr ''manifest''" by code_simp+
  have pub: "?canon (sm_manifest (demo_published ''full.zip'')) = ''full.zip''" by code_simp
  have ver: "VerifyManifest ?ver ?canon [(''id'', ''key'')] (demo_published ''full.zip'') = Inr ()" by code_simp
  have a: "(sample_artifact ''full'' 50 [])\<lparr>url := ''full.zip''\<rparr> \<in> set (artifacts (sm_manifest (demo_published ''full.zip'')))"
    by (simp add: demo_published_def SignManifest_def)
  have b: "\<not> str_contains (url ((sample_artifact ''full'' 50 [])\<lparr>url := ''full.zip''\<rparr>)) ''://''"
    "url ((sample_artifact ''full'' 50 [])\<lparr>url := ''full.zip''\<rparr>) \<notin> as_url ` set (gh_assets (demo_index ! 3))" by code_simp+
  have "VerifyManifest ?ver ?canon [(''id'', ''key'')] (rel_manifest rel) \<noteq> Inr ()"
    by (rule relative_urls_break_trust [OF rel src refl a b ver]) (use c pub in auto)
  with rel ver show ?thesis by blast
qed

end
