(* ===== verification/Machine_Spec.thy ===== *)
theory Machine_Spec
  imports Prelude
begin

text \<open>
  The interface of a state machine whose transitions are checked against a table: \<open>move t m\<close> is the
  attempt to go to \<open>t\<close>, refused with \<open>None\<close>. Both lifecycles of the program (the connection and the
  update) are driven this way, and callers ignore refusals, so what holds of every run of attempts is
  proved once here.
\<close>

locale checked_machine =
  fixes allowed :: "'s \<Rightarrow> 's \<Rightarrow> bool"
    and st :: "'m \<Rightarrow> 's"
    and move :: "'s \<Rightarrow> 'm \<Rightarrow> 'm option"
  assumes move_legal: "move t m = Some m' \<Longrightarrow> allowed (st m) t \<and> st m' = t"
    and move_refused: "move t m = None \<Longrightarrow> \<not> allowed (st m) t"
begin

definition attempt :: "'m \<Rightarrow> 's \<Rightarrow> 'm" where
  "attempt m t = (case move t m of None \<Rightarrow> m | Some m' \<Rightarrow> m')"

lemma attempt_state: "st (attempt m t) = (if allowed (st m) t then t else st m)"
  using move_legal [of t m] move_refused [of t m]
  by (cases "move t m") (auto simp: attempt_def)

lemma attempt_path: "allowed\<^sup>*\<^sup>* (st m) (st (attempt m t))"
  by (simp add: attempt_state r_into_rtranclp)

lemma run_path: "allowed\<^sup>*\<^sup>* (st m) (st (foldl attempt m ts))"
proof (induction ts arbitrary: m)
  case (Cons t ts)
  show ?case using attempt_path [of m t] Cons.IH [of "attempt m t"] by simp
qed simp

lemma run_closed:
  assumes closed: "\<And>s t. s \<in> S \<Longrightarrow> allowed s t \<Longrightarrow> t \<in> S" and "st m \<in> S"
  shows "st (foldl attempt m ts) \<in> S"
  using assms(2)
proof (induction ts arbitrary: m)
  case (Cons t ts)
  have "st (attempt m t) \<in> S" using Cons.prems closed by (auto simp: attempt_state)
  with Cons.IH show ?case by simp
qed simp

lemma path_attempts: "allowed\<^sup>*\<^sup>* s t \<Longrightarrow> st m = s \<Longrightarrow> \<exists>ts. st (foldl attempt m ts) = t"
proof (induction arbitrary: m rule: converse_rtranclp_induct)
  case base
  then have "st (foldl attempt m []) = t" by simp
  then show ?case by blast
next
  case (step s u)
  then have "st (attempt m u) = u" by (simp add: attempt_state)
  with step.IH obtain ts where "st (foldl attempt (attempt m u) ts) = t" by blast
  then have "st (foldl attempt m (u # ts)) = t" by simp
  then show ?case by blast
qed

end

end
