(* ===== verification/Connection.thy ===== *)
theory Connection
  imports Machine_Spec
begin

text \<open>
  The connection state machine of \<open>backend/internal/connection/machine.go\<close>. The mutex makes every
  method atomic, so a method is a function on the machine. A listener is represented by the events it
  has been called with, newest last; the clock is an argument.
\<close>

datatype State =
    StDisconnected | StTesting | StSelecting | StConnecting | StStartingCore | StInitializingTUN
  | StApplyingRouting | StConnected | StDegraded | StReconnecting | StSwitchingServer
  | StDisconnecting | StError

record event =
  ev_from :: State
  ev_to :: State
  ev_at :: int
  ev_reason :: string
  ev_server :: string

fun allowed :: "State \<Rightarrow> State list" where
  "allowed StDisconnected = [StTesting, StSelecting, StConnecting]"
| "allowed StTesting = [StSelecting, StDisconnected, StError]"
| "allowed StSelecting = [StConnecting, StDisconnected, StError]"
| "allowed StConnecting = [StStartingCore, StDisconnected, StError]"
| "allowed StStartingCore = [StInitializingTUN, StReconnecting, StDisconnecting, StError]"
| "allowed StInitializingTUN = [StApplyingRouting, StReconnecting, StDisconnecting, StError]"
| "allowed StApplyingRouting = [StConnected, StReconnecting, StDisconnecting, StError]"
| "allowed StConnected = [StDegraded, StSwitchingServer, StReconnecting, StDisconnecting, StError]"
| "allowed StDegraded = [StConnected, StSwitchingServer, StReconnecting, StDisconnecting, StError]"
| "allowed StReconnecting = [StSelecting, StConnecting, StConnected, StDisconnecting, StError]"
| "allowed StSwitchingServer = [StConnecting, StConnected, StDegraded, StDisconnecting, StError]"
| "allowed StDisconnecting = [StDisconnected, StError]"
| "allowed StError = [StDisconnected, StSelecting, StReconnecting]"

record machine =
  mstate :: State
  serverID :: string
  listeners :: "event list list"
  history :: "event list"

definition NewMachine :: machine where
  "NewMachine = \<lparr>mstate = StDisconnected, serverID = [], listeners = [], history = []\<rparr>"

definition Subscribe :: "machine \<Rightarrow> machine" where
  "Subscribe m = m\<lparr>listeners := listeners m @ [[]]\<rparr>"

text \<open>Record an event and call every listener with it.\<close>

definition emit :: "event \<Rightarrow> machine \<Rightarrow> machine" where
  "emit ev m = m\<lparr>mstate := ev_to ev, history := history m @ [ev], listeners := map (\<lambda>l. l @ [ev]) (listeners m)\<rparr>"

datatype machine_error = IllegalTransition State State

definition Transition :: "int \<Rightarrow> State \<Rightarrow> string \<Rightarrow> machine \<Rightarrow> (machine_error, machine) res" where
  "Transition now t why m =
     (if t \<in> set (allowed (mstate m))
      then Inr (emit \<lparr>ev_from = mstate m, ev_to = t, ev_at = now, ev_reason = why, ev_server = serverID m\<rparr> m)
      else Inl (IllegalTransition (mstate m) t))"

definition SetServer :: "string \<Rightarrow> machine \<Rightarrow> machine" where
  "SetServer i m = m\<lparr>serverID := i\<rparr>"

definition Reset :: "int \<Rightarrow> string \<Rightarrow> machine \<Rightarrow> machine" where
  "Reset now why m =
     (if mstate m = StDisconnected then m
      else emit \<lparr>ev_from = mstate m, ev_to = StDisconnected, ev_at = now, ev_reason = why, ev_server = serverID m\<rparr> m)"

definition Connected :: "machine \<Rightarrow> bool" where
  "Connected m \<longleftrightarrow> mstate m = StConnected \<or> mstate m = StDegraded"

definition History :: "machine \<Rightarrow> event list" where
  "History m = history m"

section \<open>Runs of the machine\<close>

text \<open>The operations of the interface as steps, in any order.\<close>

inductive mstep :: "machine \<Rightarrow> machine \<Rightarrow> bool" where
  subscribe: "mstep m (Subscribe m)"
| transition: "Transition now t why m = Inr m' \<Longrightarrow> mstep m m'"
| refused: "Transition now t why m = Inl e \<Longrightarrow> mstep m m"
| setserver: "mstep m (SetServer i m)"
| reset: "mstep m (Reset now why m)"

inductive mreach :: "machine \<Rightarrow> bool" where
  start: "mreach NewMachine"
| step: "mreach m \<Longrightarrow> mstep m m' \<Longrightarrow> mreach m'"

inductive_cases mstepE: "mstep m m'"

lemmas machine_defs = Subscribe_def emit_def SetServer_def Reset_def NewMachine_def

lemma Transition_Inr:
  "Transition now t why m = Inr m' \<longleftrightarrow> t \<in> set (allowed (mstate m)) \<and>
     m' = emit \<lparr>ev_from = mstate m, ev_to = t, ev_at = now, ev_reason = why, ev_server = serverID m\<rparr> m"
  by (auto simp: Transition_def)

lemma Transition_Inl: "Transition now t why m = Inl e \<longleftrightarrow> t \<notin> set (allowed (mstate m)) \<and> e = IllegalTransition (mstate m) t"
  by (auto simp: Transition_def)

lemma emit_sel [simp]:
  "mstate (emit ev m) = ev_to ev" "history (emit ev m) = history m @ [ev]" "serverID (emit ev m) = serverID m"
  "listeners (emit ev m) = map (\<lambda>l. l @ [ev]) (listeners m)"
  by (simp_all add: emit_def)

text \<open>The machine as an instance of the checked-machine interface.\<close>

definition machine_move :: "int \<Rightarrow> string \<Rightarrow> State \<Rightarrow> machine \<Rightarrow> machine option" where
  "machine_move now why t m = (case Transition now t why m of Inl _ \<Rightarrow> None | Inr m' \<Rightarrow> Some m')"

interpretation conn: checked_machine "\<lambda>s t. t \<in> set (allowed s)" mstate "machine_move now why" for now why
  by unfold_locales (auto simp: machine_move_def Transition_Inr Transition_Inl split: sum.splits)

section \<open>The history is the path the machine took\<close>

text \<open>
  A log explains a state: it starts in \<open>s\<close>, its events link up, every event is an edge of the table or
  a forced reset, and it ends in \<open>t\<close>.
\<close>

fun log_path :: "State \<Rightarrow> event list \<Rightarrow> State \<Rightarrow> bool" where
  "log_path s [] t \<longleftrightarrow> s = t"
| "log_path s (e # es) t \<longleftrightarrow>
     ev_from e = s \<and> (ev_to e \<in> set (allowed s) \<or> ev_to e = StDisconnected) \<and> log_path (ev_to e) es t"

lemma log_path_snoc:
  "log_path s (es @ [e]) t \<longleftrightarrow> (\<exists>u. log_path s es u \<and> log_path u [e] t)"
  by (induction es arbitrary: s) auto

definition history_ok :: "machine \<Rightarrow> bool" where
  "history_ok m \<longleftrightarrow> log_path StDisconnected (history m) (mstate m)"

lemma history_ok_step: "mstep m m' \<Longrightarrow> history_ok m \<Longrightarrow> history_ok m'"
  by (erule mstepE)
     (auto simp: history_ok_def log_path_snoc Transition_Inr Subscribe_def SetServer_def Reset_def)

lemma history_ok_reach: "mreach m \<Longrightarrow> history_ok m"
  by (induction rule: mreach.induct) (simp add: NewMachine_def history_ok_def, rule history_ok_step)

text \<open>Every listener has seen the events since it subscribed: its calls are a suffix of the history.\<close>

definition listeners_ok :: "machine \<Rightarrow> bool" where
  "listeners_ok m \<longleftrightarrow> (\<forall>l \<in> set (listeners m). suffix l (history m))"

lemma listeners_ok_step: "mstep m m' \<Longrightarrow> listeners_ok m \<Longrightarrow> listeners_ok m'"
  by (erule mstepE)
     (auto simp: listeners_ok_def Transition_Inr Subscribe_def SetServer_def Reset_def)

lemma listeners_ok_reach: "mreach m \<Longrightarrow> listeners_ok m"
  by (induction rule: mreach.induct) (simp add: NewMachine_def listeners_ok_def, rule listeners_ok_step)

section \<open>What precedes a connected state\<close>

text \<open>The events since the machine last was in \<open>StDisconnected\<close>, newest first.\<close>

definition episode :: "machine \<Rightarrow> event list" where
  "episode m = takeWhile (\<lambda>e. ev_to e \<noteq> StDisconnected) (rev (history m))"

definition live :: "State set" where
  "live = {StConnected, StDegraded, StSwitchingServer}"

definition gate_passed :: "machine \<Rightarrow> bool" where
  "gate_passed m \<longleftrightarrow> (mstate m \<in> live \<longrightarrow>
     (\<exists>e \<in> set (episode m). ev_to e = StApplyingRouting \<or> ev_to e = StReconnecting))"

lemma live_entry: "t \<in> live \<Longrightarrow> t \<in> set (allowed s) \<Longrightarrow> s \<in> live \<or> s = StApplyingRouting \<or> s = StReconnecting"
  by (cases s) (auto simp: live_def)

lemma log_path_last: "log_path s es t \<Longrightarrow> es \<noteq> [] \<Longrightarrow> ev_to (last es) = t"
  by (induction es arbitrary: s) auto

lemma last_event_episode:
  assumes "history_ok m" and "mstate m \<noteq> StDisconnected"
  shows "\<exists>e \<in> set (episode m). ev_to e = mstate m"
proof -
  from assms have ne: "history m \<noteq> []" by (auto simp: history_ok_def)
  with assms have "ev_to (last (history m)) = mstate m"
    by (auto simp: history_ok_def intro: log_path_last)
  moreover from ne obtain es e where "history m = es @ [e]" by (metis append_butlast_last_id)
  ultimately show ?thesis using assms(2) by (auto simp: episode_def)
qed

lemma episode_emit: "ev_to e \<noteq> StDisconnected \<Longrightarrow> episode (emit e m) = e # episode m"
  by (simp add: episode_def)

lemma gate_passed_step:
  assumes "mstep m m'" and "history_ok m" and "gate_passed m"
  shows "gate_passed m'"
  using assms(1)
proof cases
  case (transition now t why)
  then have t: "t \<in> set (allowed (mstate m))" and m': "m' = emit \<lparr>ev_from = mstate m, ev_to = t, ev_at = now, ev_reason = why, ev_server = serverID m\<rparr> m"
    by (auto simp: Transition_Inr)
  show ?thesis
  proof (cases "t \<in> live")
    case True
    with t have "mstate m \<in> live \<or> mstate m = StApplyingRouting \<or> mstate m = StReconnecting" by (metis live_entry)
    then have "\<exists>e \<in> set (episode m). ev_to e = StApplyingRouting \<or> ev_to e = StReconnecting"
      using assms(2,3) last_event_episode [of m] by (auto simp: gate_passed_def)
    moreover have "t \<noteq> StDisconnected" using True by (auto simp: live_def)
    ultimately show ?thesis by (simp add: m' gate_passed_def episode_emit)
  qed (simp add: m' gate_passed_def)
qed (use assms in \<open>auto simp: gate_passed_def Subscribe_def SetServer_def Reset_def episode_def live_def\<close>)

lemma gate_passed_reach: "mreach m \<Longrightarrow> gate_passed m"
proof (induction rule: mreach.induct)
  case start
  show ?case by (simp add: gate_passed_def NewMachine_def live_def)
next
  case (step m m')
  then show ?case using gate_passed_step history_ok_reach by blast
qed

section \<open>Recovery\<close>

lemma to_disconnected: "(\<lambda>s t. t \<in> set (allowed s))\<^sup>*\<^sup>* s StDisconnected"
proof -
  let ?r = "\<lambda>s t. t \<in> set (allowed s)"
  have e: "?r\<^sup>*\<^sup>* StError StDisconnected" by (rule r_into_rtranclp) simp
  have d: "?r\<^sup>*\<^sup>* StDisconnecting StDisconnected" by (rule r_into_rtranclp) simp
  show ?thesis
  proof (cases "StError \<in> set (allowed s)")
    case True
    with e show ?thesis by (meson converse_rtranclp_into_rtranclp)
  next
    case False
    then show ?thesis using e d by (cases s) auto
  qed
qed

text \<open>Callers drop the error of \<open>Transition\<close>; a list of such calls.\<close>

fun try_transitions :: "int \<Rightarrow> string \<Rightarrow> State list \<Rightarrow> machine \<Rightarrow> machine" where
  "try_transitions now why [] m = m"
| "try_transitions now why (t # ts) m =
     try_transitions now why ts (case Transition now t why m of Inl _ \<Rightarrow> m | Inr m' \<Rightarrow> m')"

lemma try_transitions_attempts: "try_transitions now why ts m = foldl (conn.attempt now why) m ts"
  by (induction ts arbitrary: m) (auto simp: conn.attempt_def machine_move_def split: sum.splits)

lemma mreach_try: "mreach m \<Longrightarrow> mreach (try_transitions now why ts m)"
proof (induction ts arbitrary: m)
  case (Cons t ts)
  then have "mreach (case Transition now t why m of Inl _ \<Rightarrow> m | Inr m' \<Rightarrow> m')"
    by (auto intro: mreach.step mstep.transition split: sum.splits)
  with Cons.IH show ?case by simp
qed simp

section \<open>Properties\<close>

definition session_up :: machine where
  "session_up = try_transitions 7 ''user''
     [StSelecting, StConnecting, StStartingCore, StInitializingTUN, StApplyingRouting, StConnected] (Subscribe NewMachine)"

lemma session_up_reach: "mreach session_up"
  unfolding session_up_def by (intro mreach_try mreach.step [OF mreach.start mstep.subscribe])

text \<open>
  C17. The transition log of a machine reached by any sequence of calls explains its state: it starts in
  \<open>StDisconnected\<close>, its events chain, each is an edge of the table or a reset, and it ends in the current
  state; and what every listener has been called with is a suffix of that log, in order.
\<close>

theorem connection_history_legal:
  assumes "mreach m"
  shows "log_path StDisconnected (history m) (mstate m) \<and> (\<forall>l \<in> set (listeners m). suffix l (history m))"
  using history_ok_reach [OF assms] listeners_ok_reach [OF assms] by (simp add: history_ok_def listeners_ok_def)

theorem connection_history_legal_witness:
  "log_path StDisconnected (history session_up) (mstate session_up) \<and> mstate session_up = StConnected \<and> length (history session_up) = 6"
  using connection_history_legal [OF session_up_reach]
  by (simp add: session_up_def Transition_def Subscribe_def NewMachine_def)



text \<open>
  No state wedges the machine: from every machine some list of ordinary transitions, without
  \<open>Reset\<close>, ends in \<open>StDisconnected\<close>.
\<close>

theorem connection_recoverable: "\<exists>ts. mstate (try_transitions now why ts m) = StDisconnected"
  unfolding try_transitions_attempts by (rule conn.path_attempts [OF to_disconnected refl])

end
