(* ===== verification/Update_State.thy ===== *)
theory Update_State
  imports Machine_Spec
begin

text \<open>
  The update lifecycle table of \<open>update/state.go\<close> and the retry back-off of \<open>manager.go\<close>, whose shift
  is computed in 64-bit arithmetic as the code does.
\<close>

datatype upd_state =
    Idle | Checking | NoUpdateState | UpdateAvailable | Downloading | Verifying | Staging
  | Installing | Restarting | Updated | CancelledState | Failed | RolledBack

fun upd_allowed :: "upd_state \<Rightarrow> upd_state list" where
  "upd_allowed Idle = [Checking, Updated, Failed]"
| "upd_allowed Checking = [NoUpdateState, UpdateAvailable, Failed, CancelledState]"
| "upd_allowed NoUpdateState = [Checking]"
| "upd_allowed UpdateAvailable = [Downloading, Staging, Checking, CancelledState, Idle]"
| "upd_allowed Downloading = [Verifying, Failed, CancelledState]"
| "upd_allowed Verifying = [Staging, UpdateAvailable, Failed, CancelledState]"
| "upd_allowed Staging = [Installing, Failed, CancelledState]"
| "upd_allowed Installing = [Restarting, Failed, RolledBack]"
| "upd_allowed Restarting = [Updated, Failed, RolledBack, CancelledState]"
| "upd_allowed Updated = [Checking]"
| "upd_allowed CancelledState = [Checking, Idle]"
| "upd_allowed Failed = [Checking, Idle]"
| "upd_allowed RolledBack = [Checking, Idle]"

datatype upd_error = ImpossibleTransition upd_state upd_state

definition upd_transition :: "upd_state \<Rightarrow> upd_state \<Rightarrow> (upd_error, unit) res" where
  "upd_transition from to = (if to \<in> set (upd_allowed from) then Inr () else Inl (ImpossibleTransition from to))"

lemma upd_transition_Inr [simp]: "upd_transition from to = Inr u \<longleftrightarrow> to \<in> set (upd_allowed from)"
  by (simp add: upd_transition_def)

section \<open>Back-off\<close>

definition nanos :: int where "nanos = 10 ^ 9"
definition CheckInterval :: int where "CheckInterval = 6 * 3600 * nanos"
definition backoffBase :: int where "backoffBase = 5 * 60 * nanos"
definition backoffMax :: int where "backoffMax = 24 * 3600 * nanos"
definition minCheckSpacing :: int where "minCheckSpacing = 60 * nanos"

text \<open>\<open>backoffBase << shift\<close> on an \<open>int64\<close>.\<close>

definition shifted :: "nat \<Rightarrow> int" where
  "shifted k = sint (push_bit k (word_of_int backoffBase :: 64 word))"

definition backoff :: "int \<Rightarrow> int" where
  "backoff failCount =
     (let shift = failCount - 1
      in if shift < 63 then
           (let b = shifted (nat shift) in if b > 0 \<and> b < backoffMax then b else backoffMax)
         else backoffMax)"

text \<open>Small shifts do not wrap; every larger one yields a value the code discards.\<close>

lemma shifted_small: "\<forall>k \<in> set [0..<9]. shifted k = backoffBase * 2 ^ k"
  by (simp add: shifted_def backoffBase_def nanos_def upt_rec numeral_eq_Suc push_bit_of_int)

lemma shifted_large: "\<forall>k \<in> set [9..<63]. \<not> (shifted k > 0 \<and> shifted k < backoffMax)"
  by (simp add: shifted_def backoffBase_def backoffMax_def nanos_def upt_rec)

lemma backoff_large: "9 \<le> k \<Longrightarrow> min (backoffBase * 2 ^ k) backoffMax = backoffMax"
proof -
  assume "9 \<le> k"
  then have "(2::int) ^ 9 \<le> 2 ^ k" by (rule power_increasing) simp
  then have "backoffBase * 2 ^ 9 \<le> backoffBase * 2 ^ k"
    by (rule mult_left_mono) (simp add: backoffBase_def nanos_def)
  then show ?thesis by (simp add: backoffBase_def backoffMax_def nanos_def)
qed

lemma backoff_eq:
  assumes "0 < n"
  shows "backoff n = min (backoffBase * 2 ^ nat (n - 1)) backoffMax"
proof -
  define k where "k = nat (n - 1)"
  have n: "n - 1 = int k" using assms by (simp add: k_def)
  consider "k < 9" | "9 \<le> k" "k < 63" | "63 \<le> k" by linarith
  then show ?thesis
  proof cases
    case 1
    then have s: "shifted k = backoffBase * 2 ^ k" by (intro bspec [OF shifted_small]) (simp only: set_upt atLeastLessThan_iff; simp)
    have "0 < backoffBase * 2 ^ k" by (simp add: backoffBase_def nanos_def)
    then show ?thesis using 1 s n by (simp add: backoff_def Let_def k_def [symmetric] min_def)
  next
    case 2
    then have "\<not> (shifted k > 0 \<and> shifted k < backoffMax)" by (intro bspec [OF shifted_large]) (simp only: set_upt atLeastLessThan_iff)
    then show ?thesis using 2 n backoff_large [of k] by (simp add: backoff_def Let_def k_def [symmetric])
  next
    case 3
    then show ?thesis using n backoff_large [of k] by (simp add: backoff_def k_def [symmetric])
  qed
qed

section \<open>The table\<close>

lemma upd_to_checking: "(\<lambda>s t. t \<in> set (upd_allowed s))\<^sup>*\<^sup>* s Checking"
proof -
  let ?r = "\<lambda>s t. t \<in> set (upd_allowed s)"
  have direct: "Checking \<in> set (upd_allowed s) \<Longrightarrow> ?r\<^sup>*\<^sup>* s Checking" for s by (rule r_into_rtranclp)
  have failed: "?r\<^sup>*\<^sup>* Failed Checking" by (rule direct) simp
  show ?thesis
  proof (cases "Failed \<in> set (upd_allowed s)")
    case True
    with failed show ?thesis by (meson converse_rtranclp_into_rtranclp)
  next
    case False
    then show ?thesis using direct failed by (cases s) auto
  qed
qed

section \<open>Properties\<close>

text \<open>
  C27. The back-off after \<open>n\<close> consecutive failures is five minutes doubled \<open>n - 1\<close> times and capped at a
  day, for every failure count: the 64-bit shift wraps for large counts, but every wrapped value is
  negative, zero or above the cap, so it never shortens the wait.
\<close>

theorem backoff_doubles_capped:
  assumes "0 < n"
  shows "backoff n = min (backoffBase * 2 ^ nat (n - 1)) backoffMax"
  by (rule backoff_eq [OF assms])

theorem backoff_doubles_capped_witness: "backoff 40 = backoffMax \<and> backoff 3 = 20 * 60 * nanos"
  using backoff_doubles_capped [of 40] backoff_doubles_capped [of 3]
  by (simp add: backoffBase_def backoffMax_def nanos_def)

end
