(* ===== verification/Path.thy ===== *)
theory Path
  imports Prelude
begin

text \<open>
  The functions of Go's \<open>path/filepath\<close> (Unix) that the update code confines its writes with. \<open>clean\<close>
  follows the documented rules: drop empty and \<open>.\<close> elements, let \<open>..\<close> remove the element before it,
  drop \<open>..\<close> at the root of an absolute path.
\<close>

definition dot :: string where "dot = ''.''"
definition dotdot :: string where "dotdot = ''..''"

definition is_abs :: "string \<Rightarrow> bool" where
  "is_abs p \<longleftrightarrow> has_prefix p ''/''"

definition comps :: "string \<Rightarrow> string list" where
  "comps p = filter (\<lambda>c. c \<noteq> [] \<and> c \<noteq> dot) (split_on CHR ''/'' p)"

definition clean_step :: "bool \<Rightarrow> string list \<Rightarrow> string \<Rightarrow> string list" where
  "clean_step rooted out c =
     (if c = dotdot then
        (if out \<noteq> [] \<and> last out \<noteq> dotdot then butlast out
         else if rooted then out else out @ [dotdot])
      else out @ [c])"

definition clean_comps :: "bool \<Rightarrow> string list \<Rightarrow> string list" where
  "clean_comps rooted cs = foldl (clean_step rooted) [] cs"

definition unparse :: "bool \<Rightarrow> string list \<Rightarrow> string" where
  "unparse rooted out =
     (if rooted then CHR ''/'' # join_with ''/'' out else if out = [] then dot else join_with ''/'' out)"

definition clean :: "string \<Rightarrow> string" where
  "clean p = unparse (is_abs p) (clean_comps (is_abs p) (comps p))"

definition path_join :: "string list \<Rightarrow> string" where
  "path_join ps = (case dropWhile (\<lambda>p. p = []) ps of [] \<Rightarrow> [] | qs \<Rightarrow> clean (join_with ''/'' qs))"

definition base :: "string \<Rightarrow> string" where
  "base p =
     (if p = [] then dot
      else let q = rev (dropWhile (\<lambda>c. c = CHR ''/'') (rev p))
           in if q = [] then ''/'' else rev (takeWhile (\<lambda>c. c \<noteq> CHR ''/'') (rev q)))"

definition dir :: "string \<Rightarrow> string" where
  "dir p = clean (rev (dropWhile (\<lambda>c. c \<noteq> CHR ''/'') (rev p)))"

section \<open>Elements\<close>

definition elem_ok :: "string \<Rightarrow> bool" where
  "elem_ok c \<longleftrightarrow> c \<noteq> [] \<and> c \<noteq> dot \<and> CHR ''/'' \<notin> set c"

lemma comps_ok: "c \<in> set (comps p) \<Longrightarrow> elem_ok c"
  by (auto simp: comps_def elem_ok_def dest: split_on_parts)

lemma dotdot_ok [simp]: "elem_ok dotdot"
  by (simp add: elem_ok_def dotdot_def dot_def)

lemma comps_Nil [simp]: "comps [] = []"
  by (simp add: comps_def)

lemma comps_slash [simp]: "comps (CHR ''/'' # p) = comps p"
  by (simp add: comps_def)

lemma split_on_mid: "split_on c (a @ c # b) = split_on c a @ split_on c b"
proof (induction a)
  case (Cons x a)
  obtain q qs where "split_on c a = q # qs" by (metis list.exhaust split_on_ne)
  with Cons show ?case by (auto split: list.splits)
qed simp

lemma comps_append: "comps (a @ CHR ''/'' # b) = comps a @ comps b"
  by (simp add: comps_def split_on_mid)

lemma comps_single: "elem_ok c \<Longrightarrow> comps c = [c]"
  by (simp add: comps_def elem_ok_def split_on_no_sep)

lemma comps_join: "list_all elem_ok cs \<Longrightarrow> comps (join_with ''/'' cs) = cs"
  by (induction "''/''" cs rule: join_with.induct) (auto simp: comps_single comps_append)

lemma comps_unparse: "list_all elem_ok out \<Longrightarrow> comps (unparse r out) = out"
  by (auto simp: unparse_def comps_join) (simp add: comps_def dot_def)

lemma join_not_abs: "list_all elem_ok cs \<Longrightarrow> \<not> is_abs (join_with ''/'' cs)"
proof (cases cs)
  case Nil
  then show ?thesis by (simp add: is_abs_def has_prefix_def)
next
  case (Cons c cs')
  assume "list_all elem_ok cs"
  with Cons obtain x c' where "c = x # c'" "x \<noteq> CHR ''/''" by (cases c) (auto simp: elem_ok_def)
  moreover have "\<exists>r. join_with ''/'' cs = c @ r" using Cons by (cases cs') auto
  ultimately show ?thesis by (auto simp: is_abs_def has_prefix_def)
qed

lemma is_abs_unparse: "list_all elem_ok out \<Longrightarrow> is_abs (unparse r out) = r"
  by (auto simp: unparse_def join_not_abs) (simp_all add: is_abs_def has_prefix_def dot_def)

section \<open>Cleaning\<close>

lemma clean_step_ok: "list_all elem_ok out \<Longrightarrow> elem_ok c \<Longrightarrow> list_all elem_ok (clean_step r out c)"
  by (auto simp: clean_step_def list_all_iff dest: in_set_butlastD)

lemma clean_fold_ok: "list_all elem_ok out \<Longrightarrow> list_all elem_ok cs \<Longrightarrow> list_all elem_ok (foldl (clean_step r) out cs)"
  by (induction cs arbitrary: out) (auto intro: clean_step_ok)

lemma clean_comps_ok: "list_all elem_ok (clean_comps r (comps p))"
  unfolding clean_comps_def by (rule clean_fold_ok) (auto simp: list_all_iff dest: comps_ok)

lemma comps_clean [simp]: "comps (clean p) = clean_comps (is_abs p) (comps p)"
  by (simp add: clean_def comps_unparse clean_comps_ok)

lemma is_abs_clean [simp]: "is_abs (clean p) = is_abs p"
  by (simp add: clean_def is_abs_unparse clean_comps_ok)

lemma clean_fold_plain: "dotdot \<notin> set cs \<Longrightarrow> foldl (clean_step r) out cs = out @ cs"
  by (induction cs arbitrary: out) (auto simp: clean_step_def)

lemma clean_comps_append: "dotdot \<notin> set cs \<Longrightarrow> clean_comps r (bs @ cs) = clean_comps r bs @ cs"
  by (simp add: clean_comps_def clean_fold_plain)

text \<open>A cleaned relative path has its \<open>..\<close> elements in front; a cleaned absolute path has none.\<close>

definition updirs :: "bool \<Rightarrow> string list \<Rightarrow> bool" where
  "updirs r out \<longleftrightarrow> (\<exists>n ys. out = replicate n dotdot @ ys \<and> dotdot \<notin> set ys \<and> (r \<longrightarrow> n = 0))"

lemma updirs_step: "updirs r out \<Longrightarrow> updirs r (clean_step r out c)"
proof -
  assume "updirs r out"
  then obtain n ys where o: "out = replicate n dotdot @ ys" "dotdot \<notin> set ys" "r \<longrightarrow> n = 0"
    by (auto simp: updirs_def)
  show ?thesis
  proof (cases "c = dotdot")
    case False
    then have "clean_step r out c = replicate n dotdot @ (ys @ [c])" by (simp add: clean_step_def o)
    with False o show ?thesis unfolding updirs_def by (metis Un_iff empty_iff insert_iff list.set set_append)
  next
    case True
    show ?thesis
    proof (cases "ys = []")
      case False
      then have "last out \<noteq> dotdot" "out \<noteq> []" using o by (auto dest: last_in_set)
      then have "clean_step r out c = replicate n dotdot @ butlast ys"
        using True False o by (simp add: clean_step_def butlast_append)
      with o show ?thesis unfolding updirs_def by (metis in_set_butlastD)
    next
      case ys: True
      show ?thesis
      proof (cases r)
        case True
        with o ys have "out = []" by simp
        with True \<open>c = dotdot\<close> show ?thesis by (simp add: clean_step_def updirs_def)
      next
        case False
        have "out = [] \<or> last out = dotdot" using o ys by (cases n) (simp_all add: last_replicate del: replicate_Suc)
        then have "clean_step r out c = replicate (Suc n) dotdot"
          using False \<open>c = dotdot\<close> o ys by (auto simp: clean_step_def replicate_append_same)
        with False show ?thesis unfolding updirs_def by (metis append_Nil2 empty_iff list.set(1))
      qed
    qed
  qed
qed

lemma updirs_clean: "updirs r (clean_comps r cs)"
proof -
  have "updirs r out \<Longrightarrow> updirs r (foldl (clean_step r) out cs)" for out
    by (induction cs arbitrary: out) (auto intro: updirs_step)
  moreover have "updirs r []" by (simp add: updirs_def)
  ultimately show ?thesis by (simp add: clean_comps_def)
qed

lemma clean_no_up:
  assumes "clean_comps r cs = [] \<or> hd (clean_comps r cs) \<noteq> dotdot"
  shows "dotdot \<notin> set (clean_comps r cs)"
proof -
  obtain n ys where "clean_comps r cs = replicate n dotdot @ ys" "dotdot \<notin> set ys"
    using updirs_clean [of r cs] by (auto simp: updirs_def)
  with assms show ?thesis by (cases n) auto
qed

section \<open>The confinement check\<close>

text \<open>
  The test the extractors make on a member name: not absolute, and its cleaned form neither the
  directory itself nor above it. A path that passes it stays below any directory it is joined to.
\<close>

definition escapes :: "string \<Rightarrow> bool" where
  "escapes rel \<longleftrightarrow> rel = dotdot \<or> has_prefix rel ''../''"

lemma confined_comps:
  assumes "\<not> is_abs name" and "\<not> escapes (clean name)"
  shows "dotdot \<notin> set (comps (clean name))"
proof -
  let ?cs = "clean_comps False (comps name)"
  have cl: "clean name = unparse False ?cs" using assms(1) by (simp add: clean_def)
  have "?cs = [] \<or> hd ?cs \<noteq> dotdot"
  proof (rule ccontr)
    assume "\<not> (?cs = [] \<or> hd ?cs \<noteq> dotdot)"
    then obtain rest where cs: "?cs = dotdot # rest" by (cases ?cs) auto
    have "clean name = dotdot \<or> has_prefix (clean name) ''../''"
      by (cases rest) (auto simp: cl cs unparse_def dotdot_def has_prefix_def)
    with assms(2) show False by (simp add: escapes_def)
  qed
  then have "dotdot \<notin> set ?cs" by (rule clean_no_up)
  with assms(1) show ?thesis by simp
qed

lemma comps_join_dir: "out \<noteq> [] \<Longrightarrow> path_join [out, rel] = clean (out @ CHR ''/'' # rel)"
  by (simp add: path_join_def)

lemma path_join_below:
  assumes "out \<noteq> []" and "dotdot \<notin> set (comps rel)"
  shows "comps (path_join [out, rel]) = comps (clean out) @ comps rel" "is_abs (path_join [out, rel]) = is_abs out"
proof -
  have "is_abs (out @ CHR ''/'' # rel) = is_abs out" using assms(1) by (cases out) (simp_all add: is_abs_def has_prefix_def)
  with assms show "comps (path_join [out, rel]) = comps (clean out) @ comps rel" "is_abs (path_join [out, rel]) = is_abs out"
    by (simp_all add: comps_join_dir comps_append clean_comps_append)
qed

end
