(* ===== verification/Handoff.thy ===== *)
theory Handoff
  imports Version Path
begin

text \<open>
  The contract between the daemon and the detached updater (\<open>update/handoff.go\<close>): the pending and result
  documents, the updater's command line, where the install root is, and what the daemon does with the
  documents at boot. File probes (\<open>os.Stat\<close>) and the \<open>PATH\<close> lookup are parameters, as is \<open>filepath.Dir\<close>
  of the platform.
\<close>

text \<open>A JSON document on disk: missing, unreadable as the expected type, or decoded.\<close>

datatype 'a doc = Absent | Corrupt | Doc 'a

record pending_update =
  pu_version :: string
  pu_root :: string
  pu_updater :: string
  pu_staged :: string
  pu_at :: int

record result_update =
  ru_version :: string
  ru_ok :: bool
  ru_error :: string
  ru_prev :: string
  ru_at :: int

record handoff_files =
  hf_pending :: "pending_update doc"
  hf_result :: "result_update doc"

record boot_seed =
  seed_version :: string
  seed_ok :: bool
  seed_err :: string

text \<open>What the UI is shown; texts the code truncates carry the kept prefix and whether they were cut.\<close>

datatype ui_msg =
    NoMsg
  | RateLimitMsg
  | OfflineMsg
  | CheckMsg string bool
  | UnverifiedMsg
  | DownloadFailedMsg
  | NotInstalledMsg
  | RollbackFailedMsg
  | NotStartedMsg
  | CouldNotStartMsg string bool
  | InstallerMsg string

definition truncated :: "nat \<Rightarrow> string \<Rightarrow> string \<times> bool" where
  "truncated n s = (if length s > n then (take n s, True) else (s, False))"

definition friendlySpawnError :: "string \<Rightarrow> ui_msg" where
  "friendlySpawnError msg =
     (if str_contains msg ''cancel'' \<or> str_contains msg ''dismiss'' \<or>
         str_contains msg ''auth'' \<or> str_contains msg ''elevation''
      then NotStartedMsg
      else case truncated 220 msg of (t, c) \<Rightarrow> CouldNotStartMsg t c)"

definition failedSpawnError :: ui_msg where
  "failedSpawnError = NotInstalledMsg"

definition exitedSpawnError :: "string \<Rightarrow> ui_msg" where
  "exitedSpawnError msg =
     (if str_contains msg ''cancel'' \<or> str_contains msg ''dismiss'' \<or>
         str_contains msg ''auth'' \<or> str_contains msg ''elevation'' \<or>
         str_contains msg ''not authorized'' \<or> str_contains msg ''aborted''
      then friendlySpawnError msg
      else failedSpawnError)"

section \<open>Locations and the command line\<close>

definition updaterExeName :: "bool \<Rightarrow> string" where
  "updaterExeName windows = (if windows then ''connective-updater.exe'' else ''connective-updater'')"

definition isProdRoot :: "(string \<Rightarrow> bool) \<Rightarrow> (string \<Rightarrow> bool) \<Rightarrow> string \<Rightarrow> bool" where
  "isProdRoot is_dir exists root \<longleftrightarrow>
     is_dir (path_join [root, ''versions'']) \<or> exists (path_join [root, ''current.txt''])"

text \<open>The climb looks at four directories at most and stops at the root.\<close>

fun walk_up :: "(string \<Rightarrow> string) \<Rightarrow> (string \<Rightarrow> bool) \<Rightarrow> (string \<Rightarrow> bool) \<Rightarrow> nat \<Rightarrow> string \<Rightarrow> string" where
  "walk_up dirf is_dir exists 0 d = []"
| "walk_up dirf is_dir exists (Suc n) d =
     (if d = [] \<or> d = dirf d then []
      else if is_dir (path_join [d, ''versions'']) \<and> exists (path_join [d, ''current.txt'']) then d
      else walk_up dirf is_dir exists n (dirf d))"

definition walkUpForWindowsRoot :: "(string \<Rightarrow> string) \<Rightarrow> (string \<Rightarrow> bool) \<Rightarrow> (string \<Rightarrow> bool) \<Rightarrow> string \<Rightarrow> string" where
  "walkUpForWindowsRoot dirf is_dir exists exe = walk_up dirf is_dir exists 4 (dirf exe)"

definition optRoot :: string where "optRoot = ''/opt/connective''"

definition scratchRoot :: "string \<Rightarrow> string" where
  "scratchRoot dataDir = path_join [dataDir, ''updates'', ''versions-root'']"

definition resolveInstallRoot ::
  "bool \<Rightarrow> (string \<Rightarrow> string) \<Rightarrow> (string \<Rightarrow> bool) \<Rightarrow> (string \<Rightarrow> bool) \<Rightarrow> string \<Rightarrow> string \<Rightarrow> string" where
  "resolveInstallRoot windows dirf is_dir exists daemonExe dataDir =
     (if windows then
        (let d = walkUpForWindowsRoot dirf is_dir exists daemonExe
         in if d \<noteq> [] then d else scratchRoot dataDir)
      else if daemonExe \<noteq> [] \<and> has_prefix daemonExe (optRoot @ ''/'') \<and> isProdRoot is_dir exists optRoot
        then optRoot
      else scratchRoot dataDir)"

definition resolveUpdaterBin ::
  "bool \<Rightarrow> (string \<Rightarrow> string) \<Rightarrow> (string \<Rightarrow> bool) \<Rightarrow> (string \<Rightarrow> string option) \<Rightarrow> string \<Rightarrow> string \<Rightarrow> string" where
  "resolveUpdaterBin windows dirf is_file lookPath daemonExe root =
     (let name = updaterExeName windows;
          in_root = path_join [root, ''updater'', name];
          beside = path_join [dirf daemonExe, name]
      in if windows \<and> root \<noteq> [] \<and> is_file in_root then in_root
         else if daemonExe \<noteq> [] \<and> is_file beside then beside
         else case lookPath name of Some p \<Rightarrow> p | None \<Rightarrow> [])"

definition spawnArgs :: "string \<Rightarrow> string \<Rightarrow> string \<Rightarrow> string \<Rightarrow> string \<Rightarrow> string list" where
  "spawnArgs bin root ver staged resultFile =
     [bin, ''apply'', ''--install-root'', root, ''--version'', ver, ''--result-file'', resultFile,
      ''--wait-timeout'', ''15m0s''] @
     (if staged \<noteq> [] then [''--staged-dir'', staged] else [])"

definition ClearPending :: "handoff_files \<Rightarrow> handoff_files" where
  "ClearPending fs = fs\<lparr>hf_pending := Absent\<rparr>"

section \<open>Boot\<close>

definition reconcileBoot :: "handoff_files \<Rightarrow> handoff_files \<times> boot_seed option" where
  "reconcileBoot fs =
     (let stale = (case hf_pending fs of
            Doc p \<Rightarrow> if pu_version p \<noteq> [] then fs\<lparr>hf_pending := Absent\<rparr> else fs
          | _ \<Rightarrow> fs)
      in case hf_result fs of
           Doc r \<Rightarrow>
             if ru_version r \<noteq> [] then
               (fs\<lparr>hf_result := Absent, hf_pending := Absent\<rparr>,
                case ParseVersion (ru_version r) of
                  Inl _ \<Rightarrow> None
                | Inr _ \<Rightarrow> Some \<lparr>seed_version = ru_version r, seed_ok = ru_ok r, seed_err = ru_error r\<rparr>)
             else (stale, None)
         | _ \<Rightarrow> (stale, None))"

lemma reconcileBoot_seed:
  assumes "reconcileBoot fs = (fs', Some sd)"
  shows "\<exists>r. hf_result fs = Doc r \<and> seed_version sd = ru_version r \<and> seed_ok sd = ru_ok r \<and> is_ok (ParseVersion (ru_version r))"
    and "hf_result fs' = Absent" and "hf_pending fs' = Absent"
  using assms by (auto simp: reconcileBoot_def Let_def split: doc.splits if_splits sum.splits)

lemma reconcileBoot_quiet:
  assumes "reconcileBoot fs = (fs', s)"
  shows "reconcileBoot fs' = (fs', None)"
  using assms by (auto simp: reconcileBoot_def Let_def split: doc.splits if_splits sum.splits)

lemma reconcileBoot_no_contract:
  assumes "reconcileBoot fs = (fs', s)" and "hf_pending fs' = Doc p"
  shows "pu_version p = []"
  using assms by (auto simp: reconcileBoot_def Let_def split: doc.splits if_splits sum.splits)

section \<open>Properties\<close>

text \<open>
  A boot announces an update at most once: whatever documents are on disk, it announces only a
  version that parses and that a result document reported, it leaves no readable contract behind, and a
  second boot announces nothing.
\<close>

theorem boot_announces_once:
  assumes "reconcileBoot fs = (fs', s)"
  shows "(\<forall>sd. s = Some sd \<longrightarrow>
      (\<exists>r. hf_result fs = Doc r \<and> seed_version sd = ru_version r \<and> seed_ok sd = ru_ok r \<and> is_ok (ParseVersion (ru_version r)))) \<and>
    (\<forall>p. hf_pending fs' = Doc p \<longrightarrow> pu_version p = []) \<and> snd (reconcileBoot fs') = None"
  using assms reconcileBoot_seed(1) [of fs fs'] reconcileBoot_no_contract reconcileBoot_quiet [OF assms] by auto

definition boot_example :: handoff_files where
  "boot_example =
     \<lparr>hf_pending = Doc \<lparr>pu_version = ''6.1'', pu_root = optRoot, pu_updater = ''/opt/connective/connective-updater'', pu_staged = [], pu_at = 1\<rparr>,
      hf_result = Doc \<lparr>ru_version = ''6.1'', ru_ok = True, ru_error = [], ru_prev = ''6.0'', ru_at = 2\<rparr>\<rparr>"

theorem boot_announces_once_witness:
  "\<exists>fs' sd. reconcileBoot boot_example = (fs', Some sd) \<and> seed_version sd = ''6.1'' \<and> snd (reconcileBoot fs') = None"
proof -
  obtain fs' s where r: "reconcileBoot boot_example = (fs', s)" by fastforce
  moreover have "is_ok (ParseVersion ''6.1'')" by code_simp
  then have "s = Some \<lparr>seed_version = ''6.1'', seed_ok = True, seed_err = []\<rparr>"
    using r by (auto simp: reconcileBoot_def boot_example_def is_ok_iff)
  ultimately show ?thesis using boot_announces_once [OF r] by auto
qed

end
