(* ===== verification/Manager.thy ===== *)
theory Manager
  imports Complex_Main Manifest Update_State Handoff
begin

text \<open>
  The update manager of \<open>update/manager.go\<close>. Every method holds the mutex except while it waits for the
  network, the hash, the assembly or the activation; a method is therefore cut at the points where it
  releases the mutex into functions that run atomically, and what happens in between (other methods
  included) is left to the step relation of the theory \<open>Manager_Run\<close>. A cancellable operation has a
  number; cancelling its context puts the number into \<open>m_cancelled\<close>. Files of downloaded artifacts are a
  map from paths to contents, assembled trees a set of paths. Logging is left out.
\<close>

section \<open>Environment and state\<close>

record 'k cfg =
  ed_verify :: "'k \<Rightarrow> string \<Rightarrow> string \<Rightarrow> bool"
  canon :: "manifest \<Rightarrow> string"
  keys :: "(string \<times> 'k) list"
  sha :: "string \<Rightarrow> string"
  err_text :: "check_error \<Rightarrow> string"
  set_channel :: string
  cur_version :: string
  goos_windows :: bool
  goarch_arm64 :: bool
  test_apply :: bool

definition the_channel :: "'k cfg \<Rightarrow> string" where
  "the_channel c = (if ValidChannel (set_channel c) then set_channel c else ChannelStable)"

definition the_platform :: "'k cfg \<Rightarrow> string \<times> string" where
  "the_platform c =
     (if goos_windows c then (''windows'', ''x86_64'')
      else (''linux'', if goarch_arm64 c then ''aarch64'' else ''x86_64''))"

record check_cache =
  last_check :: int
  last_success :: int
  last_seen :: string
  cc_channel :: string
  dismissed :: string
  fail_count :: int

record progress =
  bytes_done :: int
  bytes_total :: int
  percent :: rat
  speed_bps :: int
  eta_seconds :: int

record info =
  i_version :: string
  i_channel :: string
  i_date :: string
  i_notes :: "string list"
  i_min :: string
  i_size :: int
  i_type :: string

record status =
  s_state :: upd_state
  s_info :: "info option"
  s_progress :: progress
  s_error :: ui_msg
  s_channel :: string
  s_current :: string
  s_last_check :: int
  s_staged :: bool

record manager =
  m_state :: upd_state
  m_error :: ui_msg
  m_progress :: progress
  m_cancel :: "nat option"
  m_cache :: check_cache
  m_saved :: check_cache
  m_pending :: "release option"
  m_artifact :: "artifact option"
  m_staged :: string
  m_assembled :: string
  m_last_poll :: int
  m_disk :: "string \<rightharpoonup> string"
  m_trees :: "string set"
  m_contract :: bool
  m_cancelled :: "nat set"
  m_events :: "status list"

definition no_progress :: progress where
  "no_progress = \<lparr>bytes_done = 0, bytes_total = 0, percent = 0, speed_bps = 0, eta_seconds = 0\<rparr>"

text \<open>
  \<open>progressOf\<close>; the percentage, a \<open>float64\<close> in the code, is the exact quotient here. Go's integer
  division truncates, which is \<open>div\<close> for the non-negative operands of this call.
\<close>

definition progressOf :: "int \<Rightarrow> int \<Rightarrow> int \<Rightarrow> progress" where
  "progressOf dn tot speed =
     \<lparr>bytes_done = dn, bytes_total = tot,
      percent = (if tot > 0 then min 100 (of_int dn * 100 / of_int tot) else 0),
      speed_bps = speed,
      eta_seconds = (if tot > 0 \<and> speed > 0 \<and> dn < tot then (tot - dn) div speed else 0)\<rparr>"

definition the_manifest :: "release \<Rightarrow> manifest" where
  "the_manifest r = sm_manifest (rel_manifest r)"

definition snapshot :: "'k cfg \<Rightarrow> manager \<Rightarrow> status" where
  "snapshot c m =
     \<lparr>s_state = m_state m,
      s_info = (case m_pending m of
          None \<Rightarrow> None
        | Some r \<Rightarrow> Some
            \<lparr>i_version = mversion (the_manifest r), i_channel = channel (the_manifest r),
             i_date = release_date (the_manifest r), i_notes = release_notes (the_manifest r),
             i_min = min_version (the_manifest r),
             i_size = (case m_artifact m of None \<Rightarrow> 0 | Some a \<Rightarrow> asize a),
             i_type = (case m_artifact m of None \<Rightarrow> [] | Some a \<Rightarrow> atype a)\<rparr>),
      s_progress = m_progress m, s_error = m_error m, s_channel = the_channel c,
      s_current = cur_version c, s_last_check = last_check (m_cache m), s_staged = (m_staged m \<noteq> [])\<rparr>"

text \<open>\<open>setState\<close>: an impossible transition is logged and ignored; otherwise one event is delivered.\<close>

definition set_state :: "'k cfg \<Rightarrow> upd_state \<Rightarrow> ui_msg \<Rightarrow> manager \<Rightarrow> manager" where
  "set_state c t e m =
     (case upd_transition (m_state m) t of
        Inl _ \<Rightarrow> m
      | Inr _ \<Rightarrow>
          (let m1 = m\<lparr>m_state := t, m_error := e\<rparr>
           in m1\<lparr>m_events := m_events m1 @ [snapshot c m1]\<rparr>))"

definition save_cache :: "manager \<Rightarrow> manager" where
  "save_cache m = m\<lparr>m_saved := m_cache m\<rparr>"

definition remove_file :: "string \<Rightarrow> manager \<Rightarrow> manager" where
  "remove_file p m = m\<lparr>m_disk := (m_disk m)(p := None)\<rparr>"

section \<open>Start\<close>

text \<open>\<open>Init\<close>: the cache from disk, and the announcement a boot seed makes.\<close>

definition fresh_manager :: "check_cache \<Rightarrow> bool \<Rightarrow> manager" where
  "fresh_manager cache contract =
     \<lparr>m_state = Idle, m_error = NoMsg, m_progress = no_progress, m_cancel = None, m_cache = cache,
      m_saved = cache, m_pending = None, m_artifact = None, m_staged = [], m_assembled = [],
      m_last_poll = - 62135596800 * nanos, m_disk = Map.empty, m_trees = {}, m_contract = contract,
      m_cancelled = {}, m_events = []\<rparr>"

definition seed_release :: "string \<Rightarrow> release" where
  "seed_release v =
     \<lparr>rel_manifest = \<lparr>sm_manifest = \<lparr>schema = 0, mversion = v, channel = [], release_date = [], release_notes = [],
        min_version = [], platform = [], arch = [], artifacts = []\<rparr>, signature = [], key_id = []\<rparr>, rel_source = []\<rparr>"

definition announce_boot :: "'k cfg \<Rightarrow> boot_seed \<Rightarrow> manager \<Rightarrow> manager" where
  "announce_boot c sd m0 =
     (let m = m0\<lparr>m_pending := Some (seed_release (seed_version sd)), m_artifact := None, m_staged := [], m_assembled := []\<rparr>
      in if seed_ok sd then
           set_state c Updated NoMsg (save_cache (m\<lparr>m_cache := (m_cache m)\<lparr>last_seen := seed_version sd\<rparr>\<rparr>))
         else set_state c Failed (if seed_err sd = [] then failedSpawnError else InstallerMsg (seed_err sd)) m)"

definition Init :: "'k cfg \<Rightarrow> check_cache \<Rightarrow> handoff_files \<Rightarrow> manager \<times> handoff_files" where
  "Init c cache fs =
     (let (fs', seed) = reconcileBoot fs;
          m = fresh_manager cache (case hf_pending fs' of Absent \<Rightarrow> False | _ \<Rightarrow> True)
      in (case seed of None \<Rightarrow> m | Some sd \<Rightarrow> announce_boot c sd m, fs'))"

section \<open>Checking\<close>

definition unix :: "int \<Rightarrow> int" where
  "unix now = now div nanos"

definition cooling :: "int \<Rightarrow> manager \<Rightarrow> bool" where
  "cooling now m \<longleftrightarrow>
     fail_count (m_cache m) > 0 \<and> unix now - last_check (m_cache m) < backoff (fail_count (m_cache m)) div nanos"

definition idle_states :: "upd_state list" where
  "idle_states = [Idle, NoUpdateState, Updated, CancelledState, Failed, RolledBack, UpdateAvailable]"

definition StartCheck :: "'k cfg \<Rightarrow> int \<Rightarrow> bool \<Rightarrow> manager \<Rightarrow> manager \<times> query option" where
  "StartCheck c now manual m =
     (if \<not> manual \<and> (now - m_last_poll m < minCheckSpacing \<or>
          unix now - last_check (m_cache m) < CheckInterval div nanos \<or> cooling now m)
      then (m, None)
      else
        (let m1 = m\<lparr>m_last_poll := now\<rparr>
         in if m_state m1 \<notin> set idle_states then (m1, None)
            else
              (let m2 = set_state c Checking NoMsg m1;
                   m3 = save_cache (m2\<lparr>m_cache := (m_cache m2)\<lparr>last_check := unix now\<rparr>\<rparr>)
               in (m3, Some \<lparr>q_channel = the_channel c, q_platform = fst (the_platform c),
                             q_arch = snd (the_platform c), q_current = cur_version c\<rparr>))))"

definition friendlyCheck :: "check_error \<Rightarrow> string \<Rightarrow> ui_msg" where
  "friendlyCheck e msg =
     (if e = RateLimited then RateLimitMsg
      else if str_contains msg ''no such host'' \<or> str_contains msg ''connection refused'' \<or>
           str_contains msg ''network is unreachable'' \<or> str_contains msg ''timeout'' \<or>
           str_contains msg ''deadline exceeded'' then OfflineMsg
      else case truncated 200 msg of (t, b) \<Rightarrow> CheckMsg t b)"

definition bump_fail :: "manager \<Rightarrow> manager" where
  "bump_fail m = save_cache (m\<lparr>m_cache := (m_cache m)\<lparr>fail_count := fail_count (m_cache m) + 1\<rparr>\<rparr>)"

text \<open>The part of \<open>RunCheck\<close> after the provider answered with \<open>r\<close>.\<close>

definition RunCheck :: "'k cfg \<Rightarrow> int \<Rightarrow> (check_error, release) res \<Rightarrow> manager \<Rightarrow> manager" where
  "RunCheck c now r m =
     (if m_state m \<noteq> Checking then m
      else case r of
        Inl e \<Rightarrow>
          if IsNoUpdate e \<or> e = NotConfigured then set_state c NoUpdateState NoMsg m
          else set_state c Failed (friendlyCheck e (err_text c e)) (bump_fail m)
      | Inr rel \<Rightarrow>
          (case VerifyManifest (ed_verify c) (canon c) (keys c) (rel_manifest rel) of
             Inl _ \<Rightarrow> set_state c Failed UnverifiedMsg (bump_fail m)
           | Inr _ \<Rightarrow>
               (case SelectArtifact (cur_version c) (the_manifest rel) of
                  Inl _ \<Rightarrow> set_state c Failed UnverifiedMsg m
                | Inr art \<Rightarrow>
                    (let m1 = m\<lparr>m_pending := Some rel, m_artifact := Some art\<rparr>;
                         m2 = (if m_staged m1 \<noteq> [] then remove_file (m_staged m1) m1 else m1);
                         m3 = m2\<lparr>m_staged := [], m_assembled := [],
                                 m_cache := (m_cache m2)\<lparr>fail_count := 0, last_success := unix now,
                                   last_seen := mversion (the_manifest rel)\<rparr>\<rparr>;
                         m4 = save_cache m3
                     in if dismissed (m_cache m4) = mversion (the_manifest rel)
                        then set_state c NoUpdateState NoMsg m4
                        else set_state c UpdateAvailable NoMsg m4))))"

text \<open>\<open>MaybeCheckOnStartup\<close>: whether a background check is started.\<close>

definition startup_check_due :: "bool \<Rightarrow> int \<Rightarrow> manager \<Rightarrow> bool" where
  "startup_check_due auto now m \<longleftrightarrow> auto \<and> unix now - last_check (m_cache m) \<ge> CheckInterval div nanos"

section \<open>Downloading\<close>

definition Download_start :: "'k cfg \<Rightarrow> nat \<Rightarrow> manager \<Rightarrow> manager \<times> artifact option" where
  "Download_start c op m =
     (case (m_pending m, m_artifact m) of
        (Some _, Some a) \<Rightarrow>
          if m_state m \<noteq> UpdateAvailable then (m, None)
          else ((set_state c Downloading NoMsg m)\<lparr>m_cancel := Some op\<rparr>, Some a)
      | _ \<Rightarrow> (m, None))"

text \<open>Back under the mutex with the outcome of \<open>fetch\<close>: the staged path, or a failure.\<close>

definition Download_fetched :: "'k cfg \<Rightarrow> nat \<Rightarrow> string option \<Rightarrow> manager \<Rightarrow> manager \<times> string option" where
  "Download_fetched c op r m0 =
     (let m = m0\<lparr>m_cancel := None\<rparr>
      in case r of
           None \<Rightarrow>
             if op \<in> m_cancelled m then (set_state c CancelledState NoMsg m, None)
             else (set_state c Failed DownloadFailedMsg m, None)
         | Some path \<Rightarrow>
             if m_state m \<noteq> Downloading then (remove_file path m, None)
             else (set_state c Verifying NoMsg m, Some path))"

definition lower_ascii :: "char \<Rightarrow> char" where
  "lower_ascii c = (if 65 \<le> byte c \<and> byte c \<le> 90 then char_of (byte c + 32) else c)"

definition equal_fold :: "string \<Rightarrow> string \<Rightarrow> bool" where
  "equal_fold a b \<longleftrightarrow> map lower_ascii a = map lower_ascii b"

text \<open>
  \<open>VerifySHA256\<close> on the content of a file (\<open>None\<close>: it cannot be read). The computed digest is lower-case
  hexadecimal, so folding ASCII letters is all \<open>strings.EqualFold\<close> can do here.
\<close>

definition VerifySHA256 :: "(string \<Rightarrow> string) \<Rightarrow> string option \<Rightarrow> string \<Rightarrow> bool" where
  "VerifySHA256 h content want = (case content of None \<Rightarrow> False | Some b \<Rightarrow> equal_fold (h b) (trim_space want))"

definition verifyStaged :: "'k cfg \<Rightarrow> string \<Rightarrow> artifact \<Rightarrow> manager \<Rightarrow> manager \<times> bool" where
  "verifyStaged c path art m =
     (if VerifySHA256 (sha c) (m_disk m path) (sha256 art) then (m, True) else (remove_file path m, False))"

definition Download_verified :: "'k cfg \<Rightarrow> string \<Rightarrow> artifact \<Rightarrow> bool \<Rightarrow> manager \<Rightarrow> manager" where
  "Download_verified c path art ok m =
     (if m_state m \<noteq> Verifying then remove_file path m
      else if \<not> ok then set_state c Failed UnverifiedMsg m
      else set_state c UpdateAvailable NoMsg
             (m\<lparr>m_staged := path, m_progress := progressOf (asize art) (asize art) 0\<rparr>))"

text \<open>The progress callback of the downloader: a sample and an event.\<close>

definition on_progress :: "'k cfg \<Rightarrow> int \<Rightarrow> int \<Rightarrow> int \<Rightarrow> manager \<Rightarrow> manager" where
  "on_progress c dn tot speed m =
     (let m1 = m\<lparr>m_progress := progressOf dn tot (max 0 speed)\<rparr>
      in m1\<lparr>m_events := m_events m1 @ [snapshot c m1]\<rparr>)"

section \<open>Installing\<close>

record install_job =
  ij_version :: string
  ij_staged :: string
  ij_kind :: string
  ij_release :: release
  ij_from :: string

definition Install_start :: "'k cfg \<Rightarrow> nat \<Rightarrow> manager \<Rightarrow> manager \<times> install_job option" where
  "Install_start c op m =
     (case (m_pending m, m_artifact m) of
        (Some rel, Some a) \<Rightarrow>
          if m_state m \<noteq> UpdateAvailable \<or> m_staged m = [] then (m, None)
          else ((set_state c Staging NoMsg m)\<lparr>m_cancel := Some op\<rparr>,
                Some \<lparr>ij_version = mversion (the_manifest rel), ij_staged = m_staged m, ij_kind = atype a,
                      ij_release = rel, ij_from = from_version a\<rparr>)
      | _ \<Rightarrow> (m, None))"

text \<open>A delta that cannot be applied is replaced by the full artifact, fetched and verified anew.\<close>

definition Install_fallback :: "string \<Rightarrow> artifact \<Rightarrow> manager \<Rightarrow> manager" where
  "Install_fallback path full m = m\<lparr>m_staged := path, m_artifact := Some full\<rparr>"

text \<open>
  Back under the mutex with the outcome of the assembly: the tree's directory or a failure. In production
  the handoff to the updater follows; \<open>h\<close> is its error text, \<open>None\<close> on success.
\<close>

definition Install_assembled :: "'k cfg \<Rightarrow> string option \<Rightarrow> string option \<Rightarrow> manager \<Rightarrow> manager" where
  "Install_assembled c tree h m0 =
     (let m = m0\<lparr>m_cancel := None\<rparr>
      in if m_state m \<noteq> Staging then
           (let m1 = (case tree of None \<Rightarrow> m | Some d \<Rightarrow> m\<lparr>m_trees := m_trees m - {d}\<rparr>)
            in if m_staged m1 \<noteq> [] then (remove_file (m_staged m1) m1)\<lparr>m_staged := []\<rparr> else m1)
         else case tree of
           None \<Rightarrow> set_state c Failed NotInstalledMsg m
         | Some d \<Rightarrow>
             (let m1 = set_state c Installing NoMsg (m\<lparr>m_assembled := d\<rparr>)
              in if \<not> test_apply c then
                   (case h of
                      Some msg \<Rightarrow> set_state c Failed (friendlySpawnError msg) (m1\<lparr>m_contract := False\<rparr>)
                    | None \<Rightarrow> set_state c Restarting NoMsg (m1\<lparr>m_contract := True\<rparr>))
                 else set_state c Restarting NoMsg m1))"

text \<open>In test mode the tree is activated in process; the outcomes of activation, health and rollback.\<close>

datatype apply_outcome = ActivateFailed | Healthy | RolledBackOk | RollbackError

definition Install_activated :: "'k cfg \<Rightarrow> apply_outcome \<Rightarrow> manager \<Rightarrow> manager" where
  "Install_activated c r m =
     (case r of
        ActivateFailed \<Rightarrow> set_state c Failed NotInstalledMsg m
      | RollbackError \<Rightarrow> set_state c Failed RollbackFailedMsg m
      | RolledBackOk \<Rightarrow> set_state c RolledBack NoMsg m
      | Healthy \<Rightarrow> set_state c Updated NoMsg m)"

definition onUpdaterExit :: "'k cfg \<Rightarrow> string option \<Rightarrow> manager \<Rightarrow> manager" where
  "onUpdaterExit c err m =
     (case err of
        None \<Rightarrow> m
      | Some msg \<Rightarrow>
          if m_state m \<noteq> Restarting \<or> \<not> m_contract m then m
          else set_state c Failed (exitedSpawnError msg) m)"

section \<open>User actions\<close>

definition Cancel :: "'k cfg \<Rightarrow> manager \<Rightarrow> manager" where
  "Cancel c m0 =
     (let m = (case m_cancel m0 of
            None \<Rightarrow> m0
          | Some op \<Rightarrow> m0\<lparr>m_cancelled := insert op (m_cancelled m0), m_cancel := None\<rparr>)
      in if m_state m \<in> {Downloading, Verifying, Staging, Checking} then set_state c CancelledState NoMsg m
         else if m_state m = Restarting then set_state c CancelledState NoMsg (m\<lparr>m_contract := False\<rparr>)
         else m)"

definition Dismiss :: "'k cfg \<Rightarrow> manager \<Rightarrow> manager" where
  "Dismiss c m =
     (case m_pending m of
        None \<Rightarrow> m
      | Some rel \<Rightarrow>
          if m_state m \<noteq> UpdateAvailable then m
          else set_state c Idle NoMsg
                 (save_cache (m\<lparr>m_cache := (m_cache m)\<lparr>dismissed := mversion (the_manifest rel)\<rparr>\<rparr>)))"

end
