(* ===== verification/Manager_Run.thy ===== *)
theory Manager_Run
  imports Manager
begin

text \<open>
  Runs of the update manager with any number of calls in flight. A call that has released the mutex is a
  thread; a step is one atomic section of one call, or a user action. The provider's answers are whatever
  \<open>prov\<close> allows, downloads deliver any bytes or fail at any time. \<open>used\<close> holds the names
  \<open>os.CreateTemp\<close> has given out: a new name is a fresh one.
\<close>

datatype thread =
    TCheck query
  | TFetch artifact
  | TVerify artifact string
  | TVerified artifact string bool
  | TAssemble install_job
  | TRefetch install_job artifact
  | TReverify install_job artifact string
  | TReassemble install_job
  | TActivate

record sys =
  mgr :: manager
  thr :: "nat \<Rightarrow> thread option"
  next_op :: nat
  used :: "string set"

definition with_thread :: "nat \<Rightarrow> thread option \<Rightarrow> manager \<Rightarrow> sys \<Rightarrow> sys" where
  "with_thread i t m s = s\<lparr>mgr := m, thr := (thr s)(i := t)\<rparr>"

definition new_thread :: "thread \<Rightarrow> manager \<Rightarrow> sys \<Rightarrow> sys" where
  "new_thread t m s = s\<lparr>mgr := m, thr := (thr s)(next_op s := Some t), next_op := Suc (next_op s)\<rparr>"

text \<open>A downloaded file appears under a fresh name.\<close>

definition fresh_path :: "string \<Rightarrow> sys \<Rightarrow> bool" where
  "fresh_path p s \<longleftrightarrow> p \<noteq> [] \<and> p \<notin> used s"

definition store_file :: "string \<Rightarrow> string \<Rightarrow> sys \<Rightarrow> sys" where
  "store_file p b s = s\<lparr>mgr := (mgr s)\<lparr>m_disk := (m_disk (mgr s))(p \<mapsto> b)\<rparr>, used := insert p (used s)\<rparr>"

text \<open>Whether the installing thread goes on: in test mode it activates in process.\<close>

definition after_assembly :: "'k cfg \<Rightarrow> manager \<Rightarrow> thread option" where
  "after_assembly c m = (if test_apply c \<and> m_state m = Staging then Some TActivate else None)"

inductive ustep :: "'k cfg \<Rightarrow> (query \<Rightarrow> (check_error, release) res \<Rightarrow> bool) \<Rightarrow> sys \<Rightarrow> sys \<Rightarrow> bool"
  for c prov
where
  check_start: "StartCheck c now manual (mgr s) = (m', Some q) \<Longrightarrow> ustep c prov s (new_thread (TCheck q) m' s)"
| check_skip: "StartCheck c now manual (mgr s) = (m', None) \<Longrightarrow> ustep c prov s (s\<lparr>mgr := m'\<rparr>)"
| check_done: "thr s i = Some (TCheck q) \<Longrightarrow> prov q r \<Longrightarrow>
    ustep c prov s (with_thread i None (RunCheck c now r (mgr s)) s)"
| download_start: "Download_start c (next_op s) (mgr s) = (m', Some a) \<Longrightarrow> ustep c prov s (new_thread (TFetch a) m' s)"
| fetch_fail: "thr s i = Some (TFetch a) \<Longrightarrow> Download_fetched c i None (mgr s) = (m', None) \<Longrightarrow>
    ustep c prov s (with_thread i None m' s)"
| fetch_ok: "thr s i = Some (TFetch a) \<Longrightarrow> fresh_path p s \<Longrightarrow> s1 = store_file p b s \<Longrightarrow>
    Download_fetched c i (Some p) (mgr s1) = (m', r) \<Longrightarrow>
    ustep c prov s (with_thread i (map_option (TVerify a) r) m' s1)"
| verify: "thr s i = Some (TVerify a p) \<Longrightarrow> verifyStaged c p a (mgr s) = (m', ok) \<Longrightarrow>
    ustep c prov s (with_thread i (Some (TVerified a p ok)) m' s)"
| verified: "thr s i = Some (TVerified a p ok) \<Longrightarrow>
    ustep c prov s (with_thread i None (Download_verified c p a ok (mgr s)) s)"
| progress: "ustep c prov s (s\<lparr>mgr := on_progress c dn tot speed (mgr s)\<rparr>)"
| install_start: "Install_start c (next_op s) (mgr s) = (m', Some job) \<Longrightarrow> ustep c prov s (new_thread (TAssemble job) m' s)"
| assembled: "thr s i = Some (TAssemble job) \<or> thr s i = Some (TReassemble job) \<Longrightarrow>
    ustep c prov s (with_thread i (after_assembly c (mgr s))
      (Install_assembled c (Some d) h ((mgr s)\<lparr>m_trees := insert d (m_trees (mgr s))\<rparr>)) s)"
| assemble_fail: "thr s i = Some (TAssemble job) \<or> thr s i = Some (TReassemble job) \<Longrightarrow>
    ij_kind job \<noteq> ArtifactDelta \<or> fullArtifactOf (the_manifest (ij_release job)) = None \<or> thr s i = Some (TReassemble job) \<Longrightarrow>
    ustep c prov s (with_thread i None (Install_assembled c None h (mgr s)) s)"
| delta_unusable: "thr s i = Some (TAssemble job) \<Longrightarrow> ij_kind job = ArtifactDelta \<Longrightarrow>
    fullArtifactOf (the_manifest (ij_release job)) = Some full \<Longrightarrow>
    ustep c prov s (with_thread i (Some (TRefetch job full)) (mgr s) s)"
| refetch_fail: "thr s i = Some (TRefetch job full) \<Longrightarrow>
    ustep c prov s (with_thread i None (Install_assembled c None h (mgr s)) s)"
| refetch_ok: "thr s i = Some (TRefetch job full) \<Longrightarrow> fresh_path p s \<Longrightarrow> s1 = store_file p b s \<Longrightarrow>
    ustep c prov s (with_thread i (Some (TReverify job full p)) (mgr s1) s1)"
| reverify_ok: "thr s i = Some (TReverify job full p) \<Longrightarrow> verifyStaged c p full (mgr s) = (m', True) \<Longrightarrow>
    ustep c prov s (with_thread i (Some (TReassemble job)) (Install_fallback p full m') s)"
| reverify_fail: "thr s i = Some (TReverify job full p) \<Longrightarrow> verifyStaged c p full (mgr s) = (m', False) \<Longrightarrow>
    ustep c prov s (with_thread i None (Install_assembled c None h m') s)"
| activated: "thr s i = Some TActivate \<Longrightarrow> ustep c prov s (with_thread i None (Install_activated c r (mgr s)) s)"
| updater_exit: "ustep c prov s (s\<lparr>mgr := onUpdaterExit c err (mgr s)\<rparr>)"
| cancel: "ustep c prov s (s\<lparr>mgr := Cancel c (mgr s)\<rparr>)"
| dismiss: "ustep c prov s (s\<lparr>mgr := Dismiss c (mgr s)\<rparr>)"

definition boot_sys :: "'k cfg \<Rightarrow> check_cache \<Rightarrow> handoff_files \<Rightarrow> sys" where
  "boot_sys c cache fs = \<lparr>mgr = fst (Init c cache fs), thr = (\<lambda>_. None), next_op = 0, used = {}\<rparr>"

inductive ureach :: "'k cfg \<Rightarrow> (query \<Rightarrow> (check_error, release) res \<Rightarrow> bool) \<Rightarrow> sys \<Rightarrow> bool"
  for c prov
where
  boot: "ureach c prov (boot_sys c cache fs)"
| step: "ureach c prov s \<Longrightarrow> ustep c prov s s' \<Longrightarrow> ureach c prov s'"

section \<open>What the handlers touch\<close>

lemma set_state_state: "m_state (set_state c t e m) = (if t \<in> set (upd_allowed (m_state m)) then t else m_state m)"
  by (simp add: set_state_def upd_transition_def Let_def)

lemma set_state_sel [simp]:
  "m_pending (set_state c t e m) = m_pending m" "m_artifact (set_state c t e m) = m_artifact m"
  "m_staged (set_state c t e m) = m_staged m" "m_disk (set_state c t e m) = m_disk m"
  "m_cache (set_state c t e m) = m_cache m" "m_saved (set_state c t e m) = m_saved m"
  "m_contract (set_state c t e m) = m_contract m" "m_cancelled (set_state c t e m) = m_cancelled m"
  "m_cancel (set_state c t e m) = m_cancel m"
  by (simp_all add: set_state_def upd_transition_def Let_def)

lemma save_cache_sel [simp]:
  "m_state (save_cache m) = m_state m" "m_pending (save_cache m) = m_pending m" "m_artifact (save_cache m) = m_artifact m"
  "m_staged (save_cache m) = m_staged m" "m_disk (save_cache m) = m_disk m" "m_cache (save_cache m) = m_cache m"
  by (simp_all add: save_cache_def)

lemma bump_fail_sel [simp]:
  "m_state (bump_fail m) = m_state m" "m_pending (bump_fail m) = m_pending m" "m_artifact (bump_fail m) = m_artifact m"
  "m_staged (bump_fail m) = m_staged m" "m_disk (bump_fail m) = m_disk m"
  by (simp_all add: bump_fail_def)

lemma remove_file_sel [simp]:
  "m_state (remove_file p m) = m_state m" "m_pending (remove_file p m) = m_pending m" "m_artifact (remove_file p m) = m_artifact m"
  "m_staged (remove_file p m) = m_staged m" "m_disk (remove_file p m) = (m_disk m)(p := None)"
  by (simp_all add: remove_file_def)

lemmas handler_defs = StartCheck_def Download_start_def Download_fetched_def verifyStaged_def Download_verified_def
  on_progress_def Install_start_def Install_fallback_def Install_assembled_def Install_activated_def onUpdaterExit_def
  Cancel_def Dismiss_def Let_def

lemmas handler_splits = if_splits option.splits sum.splits prod.splits apply_outcome.splits

section \<open>Trust\<close>

definition authentic :: "'k cfg \<Rightarrow> release \<Rightarrow> bool" where
  "authentic c rel \<longleftrightarrow> is_ok (VerifyManifest (ed_verify c) (canon c) (keys c) (rel_manifest rel))"

definition listed :: "'k cfg \<Rightarrow> artifact \<Rightarrow> bool" where
  "listed c a \<longleftrightarrow> (\<exists>rel. authentic c rel \<and> a \<in> set (artifacts (the_manifest rel)))"

definition file_matches :: "'k cfg \<Rightarrow> manager \<Rightarrow> string \<Rightarrow> artifact \<Rightarrow> bool" where
  "file_matches c m p a \<longleftrightarrow> VerifySHA256 (sha c) (m_disk m p) (sha256 a)"

text \<open>The states from which an installation may still come out of the current release.\<close>

definition engaged :: "upd_state set" where
  "engaged = {UpdateAvailable, Downloading, Verifying, Staging, Installing, Restarting}"

definition safe :: "'k cfg \<Rightarrow> manager \<Rightarrow> bool" where
  "safe c m \<longleftrightarrow> (m_state m \<in> engaged \<longrightarrow> (\<exists>rel. m_pending m = Some rel \<and> authentic c rel)) \<and>
     (\<forall>a. m_artifact m = Some a \<longrightarrow> listed c a)"

lemma engaged_entry: "t \<in> set (upd_allowed s) \<Longrightarrow> t \<in> engaged \<Longrightarrow> s \<in> engaged \<or> t = UpdateAvailable \<and> s = Checking"
  by (cases s) (auto simp: engaged_def)

lemma safe_set_state:
  "safe c m \<Longrightarrow> t \<noteq> UpdateAvailable \<or> m_state m \<noteq> Checking \<Longrightarrow> safe c (set_state c t e m)"
  using engaged_entry [of t "m_state m"] by (auto simp: safe_def set_state_state)

lemma safe_cong:
  "m_state m' = m_state m \<Longrightarrow> m_pending m' = m_pending m \<Longrightarrow> m_artifact m' = m_artifact m \<Longrightarrow> safe c m \<Longrightarrow> safe c m'"
  by (simp add: safe_def)

lemma safe_updates [simp]:
  "safe c (m\<lparr>m_cancel := x\<rparr>) = safe c m" "safe c (m\<lparr>m_staged := p\<rparr>) = safe c m" "safe c (save_cache m) = safe c m"
  "safe c (m\<lparr>m_cache := cc\<rparr>) = safe c m" "safe c (remove_file q m) = safe c m" "safe c (m\<lparr>m_assembled := p\<rparr>) = safe c m"
  "safe c (m\<lparr>m_contract := b\<rparr>) = safe c m" "safe c (m\<lparr>m_trees := ts\<rparr>) = safe c m" "safe c (m\<lparr>m_progress := pr\<rparr>) = safe c m"
  "safe c (m\<lparr>m_events := ev\<rparr>) = safe c m" "safe c (bump_fail m) = safe c m" "safe c (m\<lparr>m_last_poll := t\<rparr>) = safe c m"
  "safe c (m\<lparr>m_cancelled := cs\<rparr>) = safe c m" "safe c (m\<lparr>m_disk := d\<rparr>) = safe c m"
  "safe c (m\<lparr>m_cancelled := cs, m_cancel := x\<rparr>) = safe c m" "safe c (m\<lparr>m_staged := p, m_progress := pr\<rparr>) = safe c m"
  "safe c (m\<lparr>m_events := ev, m_progress := pr\<rparr>) = safe c m"
  by (simp_all add: safe_def)

lemma authentic_listed: "authentic c rel \<Longrightarrow> a \<in> set (artifacts (the_manifest rel)) \<Longrightarrow> listed c a"
  by (auto simp: listed_def)

lemma safe_RunCheck: "safe c m \<Longrightarrow> safe c (RunCheck c now r m)"
proof (cases r)
  case (Inl e)
  then show "safe c m \<Longrightarrow> safe c (RunCheck c now r m)"
    by (auto simp: RunCheck_def intro!: safe_set_state)
next
  case (Inr rel)
  assume s: "safe c m"
  show ?thesis
  proof (cases "m_state m = Checking \<and> authentic c rel \<and> is_ok (SelectArtifact (cur_version c) (the_manifest rel))")
    case False
    then show ?thesis using s Inr
      by (auto simp: RunCheck_def authentic_def is_ok_def intro!: safe_set_state split: sum.splits)
  next
    case True
    then obtain u art where v: "VerifyManifest (ed_verify c) (canon c) (keys c) (rel_manifest rel) = Inr u"
      and art: "SelectArtifact (cur_version c) (the_manifest rel) = Inr art"
      by (auto simp: authentic_def is_ok_iff)
    from SelectArtifact_best [OF art] True have "listed c art" by (auto intro: authentic_listed)
    then show ?thesis using True v art Inr
      by (auto simp: RunCheck_def safe_def set_state_state Let_def)
  qed
qed

lemma safe_handlers:
  assumes "safe c m"
  shows "safe c (fst (StartCheck c now manual m))"
    and "safe c (fst (Download_start c op m))" and "safe c (fst (Download_fetched c op r m))"
    and "safe c (fst (verifyStaged c p a m))" and "safe c (Download_verified c p a ok m)"
    and "safe c (on_progress c dn tot speed m)" and "safe c (fst (Install_start c op m))"
    and "safe c (Install_assembled c tree h m)" and "safe c (Install_activated c ro m)"
    and "safe c (onUpdaterExit c err m)" and "safe c (Cancel c m)" and "safe c (Dismiss c m)"
  using assms by (auto simp: handler_defs intro!: safe_set_state split: handler_splits)

lemma safe_fallback: "safe c m \<Longrightarrow> listed c full \<Longrightarrow> safe c (Install_fallback p full m)"
  by (auto simp: safe_def Install_fallback_def)

lemma safe_boot: "safe c (fst (Init c cache fs))"
proof -
  have "safe c (fresh_manager cache b)" for b by (simp add: safe_def fresh_manager_def engaged_def)
  moreover have "safe c (announce_boot c sd m)" if "m_state m = Idle" for sd m
    using that by (auto simp: announce_boot_def Let_def safe_def set_state_state engaged_def)
  moreover have "m_state (fresh_manager cache b) = Idle" for b by (simp add: fresh_manager_def)
  ultimately show ?thesis by (auto simp: Init_def Let_def split: prod.splits option.splits)
qed

section \<open>Files\<close>

fun tpaths :: "thread \<Rightarrow> string set" where
  "tpaths (TVerify a p) = {p}"
| "tpaths (TVerified a p ok) = {p}"
| "tpaths (TReverify job full p) = {p}"
| "tpaths _ = {}"

fun thread_ok :: "'k cfg \<Rightarrow> manager \<Rightarrow> thread \<Rightarrow> bool" where
  "thread_ok c m (TFetch a) = listed c a"
| "thread_ok c m (TVerify a p) = listed c a"
| "thread_ok c m (TVerified a p ok) = (listed c a \<and> (ok \<longrightarrow> file_matches c m p a))"
| "thread_ok c m (TAssemble job) = authentic c (ij_release job)"
| "thread_ok c m (TRefetch job full) = listed c full"
| "thread_ok c m (TReverify job full p) = listed c full"
| "thread_ok c m _ = True"

definition staged_ok :: "'k cfg \<Rightarrow> manager \<Rightarrow> bool" where
  "staged_ok c m \<longleftrightarrow> (m_staged m \<noteq> [] \<longrightarrow> (\<exists>a. listed c a \<and> file_matches c m (m_staged m) a))"

definition run_inv :: "'k cfg \<Rightarrow> sys \<Rightarrow> bool" where
  "run_inv c s \<longleftrightarrow> safe c (mgr s) \<and> staged_ok c (mgr s) \<and>
     (m_staged (mgr s) \<noteq> [] \<longrightarrow> m_staged (mgr s) \<in> used s) \<and>
     (\<forall>i t. thr s i = Some t \<longrightarrow> i < next_op s \<and> thread_ok c (mgr s) t \<and> tpaths t \<subseteq> used s - {[], m_staged (mgr s)}) \<and>
     (\<forall>i j t u. thr s i = Some t \<and> thr s j = Some u \<and> i \<noteq> j \<longrightarrow> tpaths t \<inter> tpaths u = {})"

lemma run_invD:
  assumes "run_inv c s"
  shows "safe c (mgr s)" "staged_ok c (mgr s)" "m_staged (mgr s) \<noteq> [] \<Longrightarrow> m_staged (mgr s) \<in> used s"
    "thr s i = Some t \<Longrightarrow> i < next_op s" "thr s i = Some t \<Longrightarrow> thread_ok c (mgr s) t"
    "thr s i = Some t \<Longrightarrow> tpaths t \<subseteq> used s - {[], m_staged (mgr s)}"
    "thr s i = Some t \<Longrightarrow> thr s j = Some u \<Longrightarrow> i \<noteq> j \<Longrightarrow> tpaths t \<inter> tpaths u = {}"
  using assms unfolding run_inv_def by blast+

lemma run_invI:
  assumes "safe c (mgr s)" "staged_ok c (mgr s)" "m_staged (mgr s) \<noteq> [] \<Longrightarrow> m_staged (mgr s) \<in> used s"
    "\<And>i t. thr s i = Some t \<Longrightarrow> i < next_op s \<and> thread_ok c (mgr s) t \<and> tpaths t \<subseteq> used s - {[], m_staged (mgr s)}"
    "\<And>i j t u. thr s i = Some t \<Longrightarrow> thr s j = Some u \<Longrightarrow> i \<noteq> j \<Longrightarrow> tpaths t \<inter> tpaths u = {}"
  shows "run_inv c s"
  using assms unfolding run_inv_def by blast

lemma staged_ok_cong:
  "m_staged m' = m_staged m \<Longrightarrow> m_disk m' (m_staged m) = m_disk m (m_staged m) \<Longrightarrow> staged_ok c m \<Longrightarrow> staged_ok c m'"
  by (simp add: staged_ok_def file_matches_def)

text \<open>A thread's verdict depends on the content of its own file only.\<close>

lemma thread_ok_cong: "(\<And>p. p \<in> tpaths t \<Longrightarrow> m_disk m' p = m_disk m p) \<Longrightarrow> thread_ok c m t \<Longrightarrow> thread_ok c m' t"
  by (cases t) (auto simp: file_matches_def)

lemma thread_ok_eq: "m_disk m' = m_disk m \<Longrightarrow> thread_ok c m' t = thread_ok c m t"
  by (cases t) (simp_all add: file_matches_def)

text \<open>
  A thread moves on: it may change files it owns and the staged file, keep or drop what is staged, or
  stage a file of its own that matches a listed artifact.
\<close>

lemma with_thread_inv:
  assumes inv: "run_inv c s" and i: "i < next_op s" and safe: "safe c m'"
    and own: "own \<subseteq> used s - {[], m_staged (mgr s)}" "\<And>j u. j \<noteq> i \<Longrightarrow> thr s j = Some u \<Longrightarrow> tpaths u \<inter> own = {}"
    and disk: "\<And>p. m_disk m' p \<noteq> m_disk (mgr s) p \<Longrightarrow> p \<in> own \<or> p = m_staged (mgr s)"
    and staged: "m_staged m' = [] \<or> m_staged m' = m_staged (mgr s) \<and> m_disk m' (m_staged m') = m_disk (mgr s) (m_staged m') \<or>
      m_staged m' \<in> own \<and> (\<exists>a. listed c a \<and> file_matches c m' (m_staged m') a)"
    and new: "\<And>u. t = Some u \<Longrightarrow> tpaths u \<subseteq> own - {m_staged m'} \<and> thread_ok c m' u"
  shows "run_inv c (with_thread i t m' s)"
proof -
  have others: "thread_ok c m' u \<and> tpaths u \<subseteq> used s - {[], m_staged m'}" if "j \<noteq> i" "thr s j = Some u" for j u
  proof
    have u: "thread_ok c (mgr s) u" "tpaths u \<subseteq> used s - {[], m_staged (mgr s)}" using inv that by (auto simp: run_inv_def)
    then show "thread_ok c m' u"
      using disk own(2) [OF that] by (intro thread_ok_cong [of u m' "mgr s" c]) blast+
    show "tpaths u \<subseteq> used s - {[], m_staged m'}"
      using u(2) staged own(2) [OF that] by auto
  qed
  have mine: "thread_ok c m' u \<and> tpaths u \<subseteq> used s - {[], m_staged m'}" if "t = Some u" for u
    using new [OF that] own(1) by auto
  have "staged_ok c m'" using staged inv by (auto simp: staged_ok_def run_inv_def file_matches_def)
  moreover have "m_staged m' \<noteq> [] \<longrightarrow> m_staged m' \<in> used s" using staged inv own(1) by (auto simp: run_inv_def)
  moreover have disj: "tpaths u \<inter> tpaths v = {}"
    if "((thr s)(i := t)) j = Some u" "((thr s)(i := t)) k = Some v" "j \<noteq> k" for j k u v
  proof -
    have "tpaths u \<inter> tpaths v = {}" if "thr s j = Some u" "thr s k = Some v"
      using inv that \<open>j \<noteq> k\<close> by (auto simp: run_inv_def)
    moreover have "tpaths w \<inter> tpaths x = {}" if "l \<noteq> i" "thr s l = Some w" "t = Some x" for l w x
      using own(2) [OF that(1,2)] new [OF that(3)] by blast
    ultimately show ?thesis using that by (cases "j = i"; cases "k = i") (auto simp: Int_commute)
  qed
  moreover have "\<forall>j u. ((thr s)(i := t)) j = Some u \<longrightarrow> j < next_op s \<and> thread_ok c m' u \<and> tpaths u \<subseteq> used s - {[], m_staged m'}"
    using others mine i inv by (auto simp: run_inv_def)
  moreover have "mgr (with_thread i t m' s) = m'" "thr (with_thread i t m' s) = (thr s)(i := t)"
    "used (with_thread i t m' s) = used s" "next_op (with_thread i t m' s) = next_op s" by (simp_all add: with_thread_def)
  ultimately show ?thesis using safe unfolding run_inv_def by (metis disj)
qed

text \<open>The common case: the thread owns what it owned, and neither the files nor the staged path change.\<close>

lemma thread_step_inv:
  assumes inv: "run_inv c s" and i: "thr s i = Some t0" and safe: "safe c m'"
    and disk: "\<And>p. m_disk m' p \<noteq> m_disk (mgr s) p \<Longrightarrow> p \<in> tpaths t0 \<or> p = m_staged (mgr s)"
    and staged: "m_staged m' = [] \<or> m_staged m' = m_staged (mgr s) \<and> m_disk m' (m_staged m') = m_disk (mgr s) (m_staged m') \<or>
      m_staged m' \<in> tpaths t0 \<and> (\<exists>a. listed c a \<and> file_matches c m' (m_staged m') a)"
    and new: "\<And>u. t = Some u \<Longrightarrow> tpaths u \<subseteq> tpaths t0 - {m_staged m'} \<and> thread_ok c m' u"
  shows "run_inv c (with_thread i t m' s)"
proof (rule with_thread_inv [OF inv _ safe, where own = "tpaths t0"])
  show "i < next_op s" "tpaths t0 \<subseteq> used s - {[], m_staged (mgr s)}" using inv i by (auto simp: run_inv_def)
  show "tpaths u \<inter> tpaths t0 = {}" if "j \<noteq> i" "thr s j = Some u" for j u
    using inv i that unfolding run_inv_def by blast
qed (use disk staged new in auto)

lemma run_inv_mgr:
  assumes inv: "run_inv c s" and "safe c m'" and disk: "m_disk m' = m_disk (mgr s)" and st: "m_staged m' = m_staged (mgr s)"
  shows "run_inv c (s\<lparr>mgr := m'\<rparr>)"
proof -
  have "thread_ok c m' t" if "thr s i = Some t" for i t
    using run_invD(5) [OF inv that] by (subst thread_ok_eq [OF disk])
  moreover have "staged_ok c m'" using run_invD(2) [OF inv] disk by (intro staged_ok_cong [OF st]) simp_all
  ultimately show ?thesis
    using assms(2) st run_invD(3,4,6,7) [OF inv] by (intro run_invI) simp_all
qed

lemma run_inv_new:
  assumes inv: "run_inv c s" and "safe c m'" and disk: "m_disk m' = m_disk (mgr s)" and st: "m_staged m' = m_staged (mgr s)"
    and t: "tpaths t = {}" "thread_ok c m' t"
  shows "run_inv c (new_thread t m' s)"
proof -
  have inv': "run_inv c (s\<lparr>mgr := m'\<rparr>)" by (rule run_inv_mgr [OF assms(1-4)])
  show ?thesis
  proof (rule run_invI)
    show "safe c (mgr (new_thread t m' s))" "staged_ok c (mgr (new_thread t m' s))"
      using run_invD(1,2) [OF inv'] by (simp_all add: new_thread_def)
    show "m_staged (mgr (new_thread t m' s)) \<in> used (new_thread t m' s)" if "m_staged (mgr (new_thread t m' s)) \<noteq> []"
      using run_invD(3) [OF inv'] that by (simp add: new_thread_def)
    fix i u assume iu: "thr (new_thread t m' s) i = Some u"
    show "i < next_op (new_thread t m' s) \<and> thread_ok c (mgr (new_thread t m' s)) u \<and>
        tpaths u \<subseteq> used (new_thread t m' s) - {[], m_staged (mgr (new_thread t m' s))}"
    proof (cases "i = next_op s")
      case True
      then show ?thesis using iu t by (simp add: new_thread_def)
    next
      case False
      then show ?thesis using iu run_invD(4-6) [OF inv', of i u] by (simp add: new_thread_def)
    qed
  next
    fix i j u v assume "thr (new_thread t m' s) i = Some u" "thr (new_thread t m' s) j = Some v" "i \<noteq> j"
    then show "tpaths u \<inter> tpaths v = {}"
      using t(1) run_invD(7) [OF inv', of i u j v] by (auto simp: new_thread_def split: if_splits)
  qed
qed

lemma store_file_sel [simp]:
  "thr (store_file p b s) = thr s" "next_op (store_file p b s) = next_op s" "used (store_file p b s) = insert p (used s)"
  "m_staged (mgr (store_file p b s)) = m_staged (mgr s)" "m_disk (mgr (store_file p b s)) = (m_disk (mgr s))(p \<mapsto> b)"
  "m_state (mgr (store_file p b s)) = m_state (mgr s)" "m_artifact (mgr (store_file p b s)) = m_artifact (mgr s)"
  "m_pending (mgr (store_file p b s)) = m_pending (mgr s)" "safe c (mgr (store_file p b s)) = safe c (mgr s)"
  by (simp_all add: store_file_def)

lemma run_inv_store:
  assumes inv: "run_inv c s" and p: "fresh_path p s"
  shows "run_inv c (store_file p b s)"
proof (rule run_invI, unfold store_file_sel)
  show "safe c (mgr s)" by (rule run_invD [OF inv])
  have st: "m_staged (mgr s) \<noteq> p" using run_invD(3) [OF inv] p by (auto simp: fresh_path_def)
  show "staged_ok c (mgr (store_file p b s))"
    by (rule staged_ok_cong [OF _ _ run_invD(2) [OF inv]]) (use st in simp_all)
  show "m_staged (mgr s) \<in> insert p (used s)" if "m_staged (mgr s) \<noteq> []" using run_invD(3) [OF inv that] by simp
  fix i t assume t: "thr s i = Some t"
  note sub = run_invD(6) [OF inv t]
  have "thread_ok c (mgr (store_file p b s)) t"
    by (rule thread_ok_cong [OF _ run_invD(5) [OF inv t]]) (use sub p in \<open>auto simp: fresh_path_def\<close>)
  then show "i < next_op s \<and> thread_ok c (mgr (store_file p b s)) t \<and>
      tpaths t \<subseteq> insert p (used s) - {[], m_staged (mgr s)}"
    using sub run_invD(4) [OF inv t] by blast
next
  fix i j t u assume "thr s i = Some t" "thr s j = Some u" "i \<noteq> j"
  then show "tpaths t \<inter> tpaths u = {}" by (rule run_invD [OF inv])
qed

section \<open>Files the handlers touch\<close>

lemma StartCheck_files: "StartCheck c now manual m = (m', r) \<Longrightarrow> m_disk m' = m_disk m \<and> m_staged m' = m_staged m"
  by (auto simp: StartCheck_def Let_def split: if_splits)

lemma RunCheck_files:
  "(m_staged (RunCheck c now r m) = [] \<and> (\<forall>p. m_disk (RunCheck c now r m) p \<noteq> m_disk m p \<longrightarrow> p = m_staged m)) \<or>
   (m_staged (RunCheck c now r m) = m_staged m \<and> m_disk (RunCheck c now r m) = m_disk m)"
  by (auto simp: RunCheck_def Let_def split: if_splits sum.splits)

lemma Download_start_files:
  "Download_start c op m = (m', r) \<Longrightarrow> m_disk m' = m_disk m \<and> m_staged m' = m_staged m \<and> (\<forall>a. r = Some a \<longrightarrow> m_artifact m = Some a)"
  by (auto simp: Download_start_def split: option.splits if_splits)

lemma Install_start_files:
  "Install_start c op m = (m', r) \<Longrightarrow> m_disk m' = m_disk m \<and> m_staged m' = m_staged m \<and>
     (\<forall>job. r = Some job \<longrightarrow> m_pending m = Some (ij_release job) \<and> m_state m = UpdateAvailable)"
  by (auto simp: Install_start_def split: option.splits if_splits)

lemma Download_fetched_files:
  "Download_fetched c op (Some p) m = (m', r) \<Longrightarrow> m_staged m' = m_staged m \<and>
     (\<forall>q. m_disk m' q \<noteq> m_disk m q \<longrightarrow> q = p) \<and> (r = None \<or> r = Some p \<and> m_disk m' = m_disk m)"
  "Download_fetched c op None m = (m', r') \<Longrightarrow> m_staged m' = m_staged m \<and> m_disk m' = m_disk m"
  by (auto simp: Download_fetched_def Let_def split: if_splits)

lemma verifyStaged_files:
  "verifyStaged c p a m = (m', ok) \<Longrightarrow> m_staged m' = m_staged m \<and> (\<forall>q. m_disk m' q \<noteq> m_disk m q \<longrightarrow> q = p) \<and>
     (ok \<longrightarrow> m' = m \<and> file_matches c m p a)"
  by (auto simp: verifyStaged_def file_matches_def split: if_splits)

lemma Download_verified_files:
  "m_staged (Download_verified c p a ok m) = m_staged m \<and> (\<forall>q. m_disk (Download_verified c p a ok m) q \<noteq> m_disk m q \<longrightarrow> q = p) \<or>
   m_staged (Download_verified c p a ok m) = p \<and> m_disk (Download_verified c p a ok m) = m_disk m \<and> ok"
  by (auto simp: Download_verified_def)

lemma Install_assembled_files:
  "m_staged (Install_assembled c tree h m) = [] \<and> (\<forall>q. m_disk (Install_assembled c tree h m) q \<noteq> m_disk m q \<longrightarrow> q = m_staged m) \<or>
   m_staged (Install_assembled c tree h m) = m_staged m \<and> m_disk (Install_assembled c tree h m) = m_disk m"
  by (auto simp: Install_assembled_def Let_def split: option.splits)

lemma quiet_files:
  "m_disk (on_progress c dn tot sp m) = m_disk m" "m_staged (on_progress c dn tot sp m) = m_staged m"
  "m_disk (Install_activated c ro m) = m_disk m" "m_staged (Install_activated c ro m) = m_staged m"
  "m_disk (onUpdaterExit c err m) = m_disk m" "m_staged (onUpdaterExit c err m) = m_staged m"
  "m_disk (Cancel c m) = m_disk m" "m_staged (Cancel c m) = m_staged m"
  "m_disk (Dismiss c m) = m_disk m" "m_staged (Dismiss c m) = m_staged m"
  by (auto simp: handler_defs split: handler_splits)

section \<open>The invariant of a run\<close>

lemma fresh_step_inv:
  assumes inv: "run_inv c s" and p: "fresh_path p s" and i: "thr s i = Some t0"
    and safe: "safe c m'" and st: "m_staged m' = m_staged (mgr s)"
    and disk: "\<And>q. m_disk m' q \<noteq> m_disk (mgr (store_file p b s)) q \<Longrightarrow> q = p"
    and new: "\<And>u. t = Some u \<Longrightarrow> tpaths u \<subseteq> {p} \<and> thread_ok c m' u"
  shows "run_inv c (with_thread i t m' (store_file p b s))"
proof (rule with_thread_inv [OF run_inv_store [OF inv p] _ safe, where own = "{p}"], unfold store_file_sel)
  have sp: "m_staged (mgr s) \<noteq> p" using run_invD(3) [OF inv] p by (auto simp: fresh_path_def)
  show "i < next_op s" by (rule run_invD(4) [OF inv i])
  show "{p} \<subseteq> insert p (used s) - {[], m_staged (mgr s)}" using p sp by (auto simp: fresh_path_def)
  show "tpaths u \<inter> {p} = {}" if "j \<noteq> i" "thr s j = Some u" for j u
    using run_invD(6) [OF inv that(2)] p by (auto simp: fresh_path_def)
  show "q \<in> {p} \<or> q = m_staged (mgr s)" if "m_disk m' q \<noteq> ((m_disk (mgr s))(p \<mapsto> b)) q" for q
    using disk [of q] that by (simp only: store_file_sel) blast
  have "m_disk m' (m_staged m') = m_disk (mgr (store_file p b s)) (m_staged m')"
    using disk [of "m_staged m'"] st sp by metis
  then show "m_staged m' = [] \<or> m_staged m' = m_staged (mgr s) \<and> m_disk m' (m_staged m') = ((m_disk (mgr s))(p \<mapsto> b)) (m_staged m') \<or>
      m_staged m' \<in> {p} \<and> (\<exists>a. listed c a \<and> file_matches c m' (m_staged m') a)" using st by simp
  show "tpaths u \<subseteq> {p} - {m_staged m'} \<and> thread_ok c m' u" if "t = Some u" for u
    using new [OF that] st sp by auto
qed

lemma own_path_not_staged:
  "run_inv c s \<Longrightarrow> thr s i = Some t \<Longrightarrow> p \<in> tpaths t \<Longrightarrow> p \<noteq> m_staged (mgr s) \<and> p \<noteq> []"
  using run_invD(6) [of c s i t] by auto

lemma inv_check_start:
  "run_inv c s \<Longrightarrow> StartCheck c now manual (mgr s) = (m', Some q) \<Longrightarrow> run_inv c (new_thread (TCheck q) m' s)"
  using safe_handlers(1) [OF run_invD(1), of c s now manual]
  by (intro run_inv_new) (simp_all add: StartCheck_files)

lemma inv_check_skip:
  "run_inv c s \<Longrightarrow> StartCheck c now manual (mgr s) = (m', None) \<Longrightarrow> run_inv c (s\<lparr>mgr := m'\<rparr>)"
  using safe_handlers(1) [OF run_invD(1), of c s now manual]
  by (intro run_inv_mgr) (simp_all add: StartCheck_files)

lemma inv_check_done:
  assumes "run_inv c s" "thr s i = Some (TCheck q)"
  shows "run_inv c (with_thread i None (RunCheck c now r (mgr s)) s)"
  using RunCheck_files [of c now r "mgr s"]
  by (intro thread_step_inv [OF assms safe_RunCheck [OF run_invD(1) [OF assms(1)]]]) auto

lemma inv_download_start:
  assumes "run_inv c s" "Download_start c op (mgr s) = (m', Some a)"
  shows "run_inv c (new_thread (TFetch a) m' s)"
proof (rule run_inv_new [OF assms(1)])
  show "safe c m'" using safe_handlers(2) [OF run_invD(1) [OF assms(1)], of op] assms(2) by simp
  show "thread_ok c m' (TFetch a)"
    using Download_start_files [OF assms(2)] run_invD(1) [OF assms(1)] by (simp add: safe_def)
qed (use Download_start_files [OF assms(2)] in simp_all)

lemma inv_fetch_fail:
  assumes "run_inv c s" "thr s i = Some (TFetch a)" "Download_fetched c i None (mgr s) = (m', None)"
  shows "run_inv c (with_thread i None m' s)"
  using safe_handlers(3) [OF run_invD(1) [OF assms(1)], of i None] assms(3) Download_fetched_files(2) [OF assms(3)]
  by (intro thread_step_inv [OF assms(1,2)]) simp_all

lemma inv_fetch_ok:
  assumes "run_inv c s" "thr s i = Some (TFetch a)" "fresh_path p s"
    "Download_fetched c i (Some p) (mgr (store_file p b s)) = (m', r)"
  shows "run_inv c (with_thread i (map_option (TVerify a) r) m' (store_file p b s))"
proof (rule fresh_step_inv [OF assms(1,3,2)])
  note f = Download_fetched_files(1) [OF assms(4)]
  show "safe c m'"
    using safe_handlers(3) [OF run_invD(1) [OF run_inv_store [OF assms(1,3)]], of i "Some p" b] assms(4) by simp
  show "m_staged m' = m_staged (mgr s)" using f by simp
  show "q = p" if "m_disk m' q \<noteq> m_disk (mgr (store_file p b s)) q" for q using f that by blast
  show "tpaths u \<subseteq> {p} \<and> thread_ok c m' u" if "map_option (TVerify a) r = Some u" for u
    using f that run_invD(5) [OF assms(1,2)] by auto
qed

lemma inv_verify:
  assumes "run_inv c s" "thr s i = Some (TVerify a p)" "verifyStaged c p a (mgr s) = (m', ok)"
  shows "run_inv c (with_thread i (Some (TVerified a p ok)) m' s)"
  using safe_handlers(4) [OF run_invD(1) [OF assms(1)], of p a] assms(3) verifyStaged_files [OF assms(3)]
    run_invD(5) [OF assms(1,2)] own_path_not_staged [OF assms(1,2), of p]
  by (intro thread_step_inv [OF assms(1,2)]) auto

lemma inv_verified:
  assumes "run_inv c s" "thr s i = Some (TVerified a p ok)"
  shows "run_inv c (with_thread i None (Download_verified c p a ok (mgr s)) s)"
  using safe_handlers(5) [OF run_invD(1) [OF assms(1)]] Download_verified_files [of c p a ok "mgr s"]
    run_invD(5) [OF assms] own_path_not_staged [OF assms, of p]
  by (intro thread_step_inv [OF assms]) (auto simp: file_matches_def)

lemma inv_install_start:
  assumes "run_inv c s" "Install_start c op (mgr s) = (m', Some job)"
  shows "run_inv c (new_thread (TAssemble job) m' s)"
proof (rule run_inv_new [OF assms(1)])
  show "safe c m'" using safe_handlers(7) [OF run_invD(1) [OF assms(1)], of op] assms(2) by simp
  show "thread_ok c m' (TAssemble job)"
    using Install_start_files [OF assms(2)] run_invD(1) [OF assms(1)] by (auto simp: safe_def engaged_def)
qed (use Install_start_files [OF assms(2)] in simp_all)

lemma inv_assembled:
  assumes "run_inv c s" "thr s i = Some t0" "tpaths t0 = {}" "\<And>u. t = Some u \<Longrightarrow> u = TActivate"
  shows "run_inv c (with_thread i t (Install_assembled c tree h ((mgr s)\<lparr>m_trees := ts\<rparr>)) s)"
  using safe_handlers(8) [of c "(mgr s)\<lparr>m_trees := ts\<rparr>" tree h] run_invD(1) [OF assms(1)]
    Install_assembled_files [of c tree h "(mgr s)\<lparr>m_trees := ts\<rparr>"] assms(3,4)
  by (intro thread_step_inv [OF assms(1,2)]) auto

lemma inv_assemble_fail:
  assumes "run_inv c s" "thr s i = Some t0" "tpaths t0 = {}"
  shows "run_inv c (with_thread i None (Install_assembled c None h (mgr s)) s)"
  using safe_handlers(8) [OF run_invD(1) [OF assms(1)]] Install_assembled_files [of c None h "mgr s"] assms(3)
  by (intro thread_step_inv [OF assms(1,2)]) auto

lemma inv_delta_unusable:
  assumes "run_inv c s" "thr s i = Some (TAssemble job)" "fullArtifactOf (the_manifest (ij_release job)) = Some full"
  shows "run_inv c (with_thread i (Some (TRefetch job full)) (mgr s) s)"
  using run_invD(1) [OF assms(1)] run_invD(5) [OF assms(1,2)] fullArtifactOf_Some [OF assms(3)]
  by (intro thread_step_inv [OF assms(1,2)]) (auto intro: authentic_listed)

lemma inv_refetch_ok:
  assumes "run_inv c s" "thr s i = Some (TRefetch job full)" "fresh_path p s"
  shows "run_inv c (with_thread i (Some (TReverify job full p)) (mgr (store_file p b s)) (store_file p b s))"
  using run_invD(1) [OF assms(1)] run_invD(5) [OF assms(1,2)]
  by (intro fresh_step_inv [OF assms(1,3,2)]) auto

lemma inv_reverify_ok:
  assumes "run_inv c s" "thr s i = Some (TReverify job full p)" "verifyStaged c p full (mgr s) = (m', True)"
  shows "run_inv c (with_thread i (Some (TReassemble job)) (Install_fallback p full m') s)"
  using run_invD(1) [OF assms(1)] run_invD(5) [OF assms(1,2)] verifyStaged_files [OF assms(3)]
  by (intro thread_step_inv [OF assms(1,2)]) (auto simp: safe_def Install_fallback_def file_matches_def)

lemma inv_reverify_fail:
  assumes "run_inv c s" "thr s i = Some (TReverify job full p)" "verifyStaged c p full (mgr s) = (m', False)"
  shows "run_inv c (with_thread i None (Install_assembled c None h m') s)"
proof (rule thread_step_inv [OF assms(1,2)])
  note v = verifyStaged_files [OF assms(3)]
  note f = Install_assembled_files [of c None h m']
  show "safe c (Install_assembled c None h m')"
    using safe_handlers(4) [OF run_invD(1) [OF assms(1)], of p full] assms(3) by (simp add: safe_handlers(8))
  show "q \<in> tpaths (TReverify job full p) \<or> q = m_staged (mgr s)"
    if "m_disk (Install_assembled c None h m') q \<noteq> m_disk (mgr s) q" for q
    using f v that by simp metis
  show "m_staged (Install_assembled c None h m') = [] \<or>
      m_staged (Install_assembled c None h m') = m_staged (mgr s) \<and>
      m_disk (Install_assembled c None h m') (m_staged (Install_assembled c None h m')) =
      m_disk (mgr s) (m_staged (Install_assembled c None h m')) \<or>
      m_staged (Install_assembled c None h m') \<in> tpaths (TReverify job full p) \<and>
      (\<exists>a. listed c a \<and> file_matches c (Install_assembled c None h m') (m_staged (Install_assembled c None h m')) a)"
    using f v own_path_not_staged [OF assms(1,2), of p] by auto
qed simp

lemma inv_activated:
  assumes "run_inv c s" "thr s i = Some TActivate"
  shows "run_inv c (with_thread i None (Install_activated c r (mgr s)) s)"
  using safe_handlers(9) [OF run_invD(1) [OF assms(1)]]
  by (intro thread_step_inv [OF assms]) (simp_all add: quiet_files)

lemma inv_quiet:
  assumes "run_inv c s"
  shows "run_inv c (s\<lparr>mgr := on_progress c dn tot speed (mgr s)\<rparr>)" "run_inv c (s\<lparr>mgr := onUpdaterExit c err (mgr s)\<rparr>)"
    "run_inv c (s\<lparr>mgr := Cancel c (mgr s)\<rparr>)" "run_inv c (s\<lparr>mgr := Dismiss c (mgr s)\<rparr>)"
  using safe_handlers(6,10-12) [OF run_invD(1) [OF assms]]
  by (auto intro!: run_inv_mgr [OF assms] simp: quiet_files)

lemma ustep_inv: "ustep c prov s s' \<Longrightarrow> run_inv c s \<Longrightarrow> run_inv c s'"
proof (induction rule: ustep.induct)
  case (assembled s i job d h)
  then show ?case by (elim disjE) (auto intro!: inv_assembled simp: after_assembly_def split: if_splits)
next
  case (assemble_fail s i job h)
  then show ?case by (elim disjE) (auto intro!: inv_assemble_fail)
qed (simp_all add: inv_check_start inv_check_skip inv_check_done inv_download_start inv_fetch_fail inv_fetch_ok
  inv_verify inv_verified inv_quiet inv_install_start inv_delta_unusable inv_refetch_ok inv_reverify_ok inv_reverify_fail
  inv_activated inv_assemble_fail)

lemma run_inv_boot: "run_inv c (boot_sys c cache fs)"
proof -
  have "m_staged (announce_boot c sd m) = []" for sd m by (simp add: announce_boot_def Let_def)
  moreover have "m_staged (fresh_manager cache b) = []" for b by (simp add: fresh_manager_def)
  ultimately have "m_staged (fst (Init c cache fs)) = []"
    by (auto simp: Init_def Let_def split: prod.splits option.splits)
  then show ?thesis using safe_boot [of c cache fs] by (simp add: run_inv_def boot_sys_def staged_ok_def)
qed

lemma ureach_inv: "ureach c prov s \<Longrightarrow> run_inv c s"
  by (induction rule: ureach.induct) (auto intro: run_inv_boot ustep_inv)

section \<open>No state is a dead end\<close>

text \<open>\<open>Installing\<close> is passed through under the mutex, so no call ever finds the manager in it.\<close>

lemma state_RunCheck: "m_state m \<noteq> Installing \<Longrightarrow> m_state (RunCheck c now r m) \<noteq> Installing"
  by (auto simp: RunCheck_def set_state_state Let_def split: if_splits sum.splits)

lemma state_handlers:
  assumes "m_state m \<noteq> Installing"
  shows "m_state (fst (StartCheck c now manual m)) \<noteq> Installing"
    and "m_state (fst (Download_start c op m)) \<noteq> Installing" and "m_state (fst (Download_fetched c op r m)) \<noteq> Installing"
    and "m_state (fst (verifyStaged c p a m)) \<noteq> Installing" and "m_state (Download_verified c p a ok m) \<noteq> Installing"
    and "m_state (on_progress c dn tot speed m) \<noteq> Installing" and "m_state (fst (Install_start c op m)) \<noteq> Installing"
    and "m_state (Install_assembled c tree h m) \<noteq> Installing" and "m_state (Install_activated c ro m) \<noteq> Installing"
    and "m_state (onUpdaterExit c err m) \<noteq> Installing" and "m_state (Cancel c m) \<noteq> Installing" and "m_state (Dismiss c m) \<noteq> Installing"
    and "m_state (Install_fallback p a m) \<noteq> Installing"
  using assms by (auto simp: handler_defs set_state_state split: handler_splits)

lemma ustep_state: "ustep c prov s s' \<Longrightarrow> m_state (mgr s) \<noteq> Installing \<Longrightarrow> m_state (mgr s') \<noteq> Installing"
proof (induction rule: ustep.induct)
  case (check_start now manual s m' q)
  then show ?case using state_handlers(1) [of "mgr s" c now manual] by (simp add: new_thread_def)
next
  case (check_skip now manual s m')
  then show ?case using state_handlers(1) [of "mgr s" c now manual] by simp
next
  case (download_start s m' a)
  then show ?case using state_handlers(2) [of "mgr s" c "next_op s"] by (simp add: new_thread_def)
next
  case (fetch_fail s i a m')
  then show ?case using state_handlers(3) [of "mgr s" c i None] by (simp add: with_thread_def)
next
  case (fetch_ok s i a p s1 b m' r)
  then show ?case using state_handlers(3) [of "mgr s1" c i "Some p"] by (simp add: with_thread_def)
next
  case (verify s i a p m' ok)
  then show ?case using state_handlers(4) [of "mgr s" c p a] by (simp add: with_thread_def)
next
  case (install_start s m' job)
  then show ?case using state_handlers(7) [of "mgr s" c "next_op s"] by (simp add: new_thread_def)
next
  case (reverify_ok s i job full p m')
  then show ?case using state_handlers(4) [of "mgr s" c p full] state_handlers(13) [of m' p full] by (simp add: with_thread_def)
next
  case (reverify_fail s i job full p m' h)
  then show ?case using state_handlers(4) [of "mgr s" c p full] state_handlers(8) [of m' c None h] by (simp add: with_thread_def)
qed (simp_all add: with_thread_def state_RunCheck state_handlers(5,6,8-12))

lemma ureach_state: "ureach c prov s \<Longrightarrow> m_state (mgr s) \<noteq> Installing"
proof (induction rule: ureach.induct)
  case (boot cache fs)
  have "m_state (announce_boot c sd m) \<noteq> Installing" if "m_state m = Idle" for sd m
    using that by (auto simp: announce_boot_def Let_def set_state_state)
  moreover have "m_state (fresh_manager cache b) = Idle" for b by (simp add: fresh_manager_def)
  ultimately show ?case by (auto simp: boot_sys_def Init_def Let_def split: prod.splits option.splits)
qed (use ustep_state in blast)

lemma Cancel_idles: "m_state m \<noteq> Installing \<Longrightarrow> m_state (Cancel c m) \<in> set idle_states"
  by (cases "m_state m") (simp_all add: Cancel_def Let_def set_state_state idle_states_def split: option.splits)

lemma StartCheck_idle:
  "m_state m \<in> set idle_states \<Longrightarrow> m_state (fst (StartCheck c now True m)) = Checking \<and> snd (StartCheck c now True m) \<noteq> None"
  by (auto simp: StartCheck_def Let_def set_state_state idle_states_def)

end
