(* ===== verification/Manager_Safety.thy ===== *)
theory Manager_Safety
  imports Manager_Run
begin

text \<open>
  What every run of the update manager guarantees, and what it does not. Concrete runs are computed by
  \<open>act\<close>, an executable scheduler whose moves are steps of the relation of \<open>Manager_Run\<close>.
\<close>

section \<open>Concrete runs\<close>

datatype action =
    Start
  | Answer nat release
  | Get
  | Arrive nat string string
  | GiveUp nat
  | Hash nat
  | Settle nat
  | Abort

fun act :: "'k cfg \<Rightarrow> action \<Rightarrow> sys \<Rightarrow> sys option" where
  "act c Start s = (case StartCheck c 0 True (mgr s) of (m', Some q) \<Rightarrow> Some (new_thread (TCheck q) m' s) | _ \<Rightarrow> None)"
| "act c (Answer i rel) s =
     (case thr s i of Some (TCheck q) \<Rightarrow> Some (with_thread i None (RunCheck c 0 (Inr rel) (mgr s)) s) | _ \<Rightarrow> None)"
| "act c Get s =
     (case Download_start c (next_op s) (mgr s) of (m', Some a) \<Rightarrow> Some (new_thread (TFetch a) m' s) | _ \<Rightarrow> None)"
| "act c (Arrive i p b) s =
     (case thr s i of
        Some (TFetch a) \<Rightarrow>
          if fresh_path p s then
            (case Download_fetched c i (Some p) (mgr (store_file p b s)) of
               (m', r) \<Rightarrow> Some (with_thread i (map_option (TVerify a) r) m' (store_file p b s)))
          else None
      | _ \<Rightarrow> None)"
| "act c (GiveUp i) s =
     (case thr s i of
        Some (TFetch a) \<Rightarrow> (case Download_fetched c i None (mgr s) of (m', None) \<Rightarrow> Some (with_thread i None m' s) | _ \<Rightarrow> None)
      | _ \<Rightarrow> None)"
| "act c (Hash i) s =
     (case thr s i of
        Some (TVerify a p) \<Rightarrow> (case verifyStaged c p a (mgr s) of (m', ok) \<Rightarrow> Some (with_thread i (Some (TVerified a p ok)) m' s))
      | _ \<Rightarrow> None)"
| "act c (Settle i) s =
     (case thr s i of
        Some (TVerified a p ok) \<Rightarrow> Some (with_thread i None (Download_verified c p a ok (mgr s)) s)
      | _ \<Rightarrow> None)"
| "act c Abort s = Some (s\<lparr>mgr := Cancel c (mgr s)\<rparr>)"

fun runs :: "'k cfg \<Rightarrow> action list \<Rightarrow> sys \<Rightarrow> sys option" where
  "runs c [] s = Some s"
| "runs c (a # as) s = (case act c a s of None \<Rightarrow> None | Some s' \<Rightarrow> runs c as s')"

definition answers :: "action list \<Rightarrow> release set" where
  "answers as = {rel. \<exists>i. Answer i rel \<in> set as}"

lemma act_ustep:
  "act c a s = Some s' \<Longrightarrow> (\<And>i rel q. a = Answer i rel \<Longrightarrow> prov q (Inr rel)) \<Longrightarrow> ustep c prov s s'"
  by (cases a) (auto intro: ustep.intros split: option.splits prod.splits thread.splits if_splits)

lemma runs_ureach:
  "ureach c prov s \<Longrightarrow> runs c as s = Some s' \<Longrightarrow> (\<And>rel q. rel \<in> answers as \<Longrightarrow> prov q (Inr rel)) \<Longrightarrow> ureach c prov s'"
proof (induction as arbitrary: s)
  case (Cons a as)
  from Cons.prems(2) obtain t where t: "act c a s = Some t" "runs c as t = Some s'" by (auto split: option.splits)
  have "ustep c prov s t" using t(1) Cons.prems(3) by (intro act_ustep) (auto simp: answers_def)
  with Cons.prems(1) have "ureach c prov t" by (rule ureach.step)
  then show ?case using t(2) Cons.prems(3) by (rule Cons.IH) (auto simp: answers_def)
qed simp

text \<open>A configuration that trusts one key and hashes by the identity, and two releases it accepts.\<close>

definition demo_cfg :: "unit cfg" where
  "demo_cfg = \<lparr>ed_verify = \<lambda>_ _ _. True, canon = \<lambda>_. [], keys = [(''k'', ())], sha = id, err_text = \<lambda>_. [],
     set_channel = ''stable'', cur_version = ''1.0.0'', goos_windows = False, goarch_arm64 = False, test_apply = False\<rparr>"

definition demo_release :: "string \<Rightarrow> release" where
  "demo_release v =
     \<lparr>rel_manifest = \<lparr>sm_manifest = \<lparr>schema = 1, mversion = v, channel = ''stable'', release_date = [], release_notes = [],
        min_version = [], platform = ''linux'', arch = ''x86_64'',
        artifacts = [\<lparr>atype = ''full'', filename = ''f'', asize = 1, sha256 = v, url = ''u'', from_version = []\<rparr>]\<rparr>,
        signature = ''00'', key_id = ''k''\<rparr>, rel_source = []\<rparr>"

definition demo_cache :: check_cache where
  "demo_cache = \<lparr>last_check = 0, last_success = 0, last_seen = [], cc_channel = [], dismissed = [], fail_count = 0\<rparr>"

definition demo_boot :: sys where
  "demo_boot = boot_sys demo_cfg demo_cache \<lparr>hf_pending = Absent, hf_result = Absent\<rparr>"

definition demo_prov :: "query \<Rightarrow> (check_error, release) res \<Rightarrow> bool" where
  "demo_prov q r \<longleftrightarrow> (\<exists>v. r = Inr (demo_release v))"

text \<open>A plain update, downloaded and verified.\<close>

definition plain_actions :: "action list" where
  "plain_actions = [Start, Answer 0 (demo_release ''1.1.0''), Get, Arrive 1 ''p'' ''1.1.0'', Hash 1, Settle 1]"

text \<open>
  A download that has its bytes when the user cancels it, and takes the mutex again only after a new check
  has found another release and its download has begun.
\<close>

definition stale_actions :: "action list" where
  "stale_actions = [Start, Answer 0 (demo_release ''1.1.0''), Get, Abort, Start, Answer 2 (demo_release ''1.2.0''), Get,
     Arrive 1 ''p'' ''1.1.0'', Hash 1, Settle 1]"

text \<open>The same, but the cancelled download ends with its context's error.\<close>

definition failing_actions :: "action list" where
  "failing_actions = [Start, Answer 0 (demo_release ''1.1.0''), Get, Abort, Start, Answer 2 (demo_release ''1.2.0''), Get, GiveUp 1]"

definition outcome :: "sys option \<Rightarrow> (upd_state \<times> string \<times> string option \<times> string option \<times> nat option) option" where
  "outcome r = map_option (\<lambda>s. (m_state (mgr s), m_staged (mgr s), m_disk (mgr s) (m_staged (mgr s)),
     map_option sha256 (m_artifact (mgr s)), m_cancel (mgr s))) r"

lemma plain_outcome: "outcome (runs demo_cfg plain_actions demo_boot) = Some (UpdateAvailable, ''p'', Some ''1.1.0'', Some ''1.1.0'', None)"
  by code_simp

lemma stale_outcome: "outcome (runs demo_cfg stale_actions demo_boot) = Some (UpdateAvailable, ''p'', Some ''1.1.0'', Some ''1.2.0'', None)"
  by code_simp

lemma failing_outcome: "outcome (runs demo_cfg failing_actions demo_boot) = Some (CancelledState, [], None, Some ''1.2.0'', None)"
  by code_simp

lemma failing_before:
  "outcome (runs demo_cfg (butlast failing_actions) demo_boot) = Some (Downloading, [], None, Some ''1.2.0'', Some 3)"
  by code_simp

lemma demo_ureach:
  assumes "runs demo_cfg as demo_boot = Some s" "\<And>rel. rel \<in> answers as \<Longrightarrow> \<exists>v. rel = demo_release v"
  shows "ureach demo_cfg demo_prov s"
proof (rule runs_ureach [OF _ assms(1)])
  show "ureach demo_cfg demo_prov demo_boot" unfolding demo_boot_def by (rule ureach.boot)
qed (use assms(2) in \<open>auto simp: demo_prov_def\<close>)

lemma demo_outcome:
  assumes "outcome (runs demo_cfg as demo_boot) = Some (st, p, b, h, op)" "\<And>rel. rel \<in> answers as \<Longrightarrow> \<exists>v. rel = demo_release v"
  obtains s where "ureach demo_cfg demo_prov s" "m_state (mgr s) = st" "m_staged (mgr s) = p"
    "m_disk (mgr s) p = b" "map_option sha256 (m_artifact (mgr s)) = h" "m_cancel (mgr s) = op"
  using assms demo_ureach [of as] by (auto simp: outcome_def)

lemma demo_answers:
  "rel \<in> answers plain_actions \<Longrightarrow> \<exists>v. rel = demo_release v" "rel \<in> answers stale_actions \<Longrightarrow> \<exists>v. rel = demo_release v"
  "rel \<in> answers failing_actions \<Longrightarrow> \<exists>v. rel = demo_release v"
  "rel \<in> answers (butlast failing_actions) \<Longrightarrow> \<exists>v. rel = demo_release v"
  by (auto simp: answers_def plain_actions_def stale_actions_def failing_actions_def)

section \<open>Properties\<close>

text \<open>
  C1. Whatever the network delivers and however calls, cancellations and new checks interleave: a manager
  that offers, downloads, verifies or installs an update holds a release whose manifest carries a signature
  by one of the trusted keys, and a staged file has the SHA-256 digest of an artifact that such a manifest lists.
\<close>

theorem updates_are_trusted:
  assumes "ureach c prov s"
  shows "(m_state (mgr s) \<in> {UpdateAvailable, Downloading, Verifying, Staging, Installing, Restarting} \<longrightarrow>
      (\<exists>rel. m_pending (mgr s) = Some rel \<and>
        VerifyManifest (ed_verify c) (canon c) (keys c) (rel_manifest rel) = Inr ())) \<and>
    (m_staged (mgr s) \<noteq> [] \<longrightarrow>
      (\<exists>rel a. VerifyManifest (ed_verify c) (canon c) (keys c) (rel_manifest rel) = Inr () \<and>
        a \<in> set (artifacts (the_manifest rel)) \<and>
        VerifySHA256 (sha c) (m_disk (mgr s) (m_staged (mgr s))) (sha256 a)))"
  using run_invD(1,2) [OF ureach_inv [OF assms]]
  by (auto simp: safe_def staged_ok_def authentic_def listed_def file_matches_def engaged_def is_ok_iff)

theorem updates_are_trusted_witness:
  "\<exists>s. ureach demo_cfg demo_prov s \<and> m_staged (mgr s) = ''p'' \<and> m_disk (mgr s) ''p'' = Some ''1.1.0'' \<and>
     (\<exists>rel. m_pending (mgr s) = Some rel \<and>
        VerifyManifest (ed_verify demo_cfg) (canon demo_cfg) (keys demo_cfg) (rel_manifest rel) = Inr ())"
proof (rule demo_outcome [OF plain_outcome demo_answers(1)])
  fix s assume s: "ureach demo_cfg demo_prov s" "m_state (mgr s) = UpdateAvailable" "m_staged (mgr s) = ''p''"
    "m_disk (mgr s) ''p'' = Some ''1.1.0''"
  with updates_are_trusted [OF s(1)] show ?thesis by auto
qed

text \<open>
  C2. No state of the update manager is a dead end: from any reachable state of any run, cancelling and then
  asking for a check by hand puts the manager into \<open>Checking\<close> and issues a query.
\<close>

theorem check_always_possible:
  assumes "ureach c prov s"
  shows "\<exists>m q. StartCheck c now True (Cancel c (mgr s)) = (m, Some q) \<and> m_state m = Checking \<and> q_current q = cur_version c"
proof -
  note check = StartCheck_idle [OF Cancel_idles [OF ureach_state [OF assms]], of c now c]
  obtain m r where mr: "StartCheck c now True (Cancel c (mgr s)) = (m, r)" by fastforce
  with check obtain q where "r = Some q" "m_state m = Checking" by auto
  moreover have "q_current q = cur_version c"
    using mr \<open>r = Some q\<close> by (auto simp: StartCheck_def Let_def split: if_splits)
  ultimately show ?thesis using mr by blast
qed

theorem check_always_possible_witness:
  "\<exists>s. ureach demo_cfg demo_prov s \<and> m_state (mgr s) = Downloading \<and>
     (\<exists>m q. StartCheck demo_cfg 0 True (Cancel demo_cfg (mgr s)) = (m, Some q) \<and> m_state m = Checking \<and> q_current q = cur_version demo_cfg)"
proof (rule demo_outcome [OF failing_before demo_answers(4)])
  fix s assume s: "ureach demo_cfg demo_prov s" "m_state (mgr s) = Downloading"
  with check_always_possible [OF s(1)] show ?thesis by blast
qed

text \<open>
  A download that was cancelled after its bytes had arrived is taken for the download of the next
  release: there is a run that ends in \<open>UpdateAvailable\<close> with the old release's file staged while the
  manager's artifact, which \<open>Install\<close> reads the kind and the base version of, is the new release's.
\<close>

theorem stale_download_is_staged:
  "\<exists>s a. ureach demo_cfg demo_prov s \<and> m_state (mgr s) = UpdateAvailable \<and> m_artifact (mgr s) = Some a \<and>
     m_staged (mgr s) \<noteq> [] \<and> \<not> VerifySHA256 (sha demo_cfg) (m_disk (mgr s) (m_staged (mgr s))) (sha256 a)"
proof (rule demo_outcome [OF stale_outcome demo_answers(2)])
  fix s assume s: "ureach demo_cfg demo_prov s" "m_state (mgr s) = UpdateAvailable" "m_staged (mgr s) = ''p''"
    "m_disk (mgr s) ''p'' = Some ''1.1.0''" "map_option sha256 (m_artifact (mgr s)) = Some ''1.2.0''"
  moreover have "\<not> VerifySHA256 (sha demo_cfg) (Some ''1.1.0'') ''1.2.0''" by code_simp
  ultimately show ?thesis by auto
qed

text \<open>
  The failure of a cancelled download cancels the download that has replaced it: there is a reachable
  state in which the second download runs under its own cancel function, and one step of the first one's
  call, whose fetch has ended with the cancelled context's error, puts the manager into \<open>Cancelled\<close> and
  drops that cancel function.
\<close>

theorem cancelled_download_cancels_next:
  "\<exists>s s'. ureach demo_cfg demo_prov s \<and> m_state (mgr s) = Downloading \<and> m_cancel (mgr s) = Some 3 \<and> thr s 3 \<noteq> None \<and>
     ustep demo_cfg demo_prov s s' \<and> m_state (mgr s') = CancelledState \<and> m_cancel (mgr s') = None \<and> thr s' 3 = thr s 3"
proof -
  define r where "r = runs demo_cfg (butlast failing_actions) demo_boot"
  have facts: "map_option (\<lambda>s. (m_state (mgr s), m_cancel (mgr s), thr s 3 = None,
      map_option (\<lambda>s'. (m_state (mgr s'), m_cancel (mgr s'), thr s' 3 = thr s 3)) (act demo_cfg (GiveUp 1) s))) r =
      Some (Downloading, Some 3, False, Some (CancelledState, None, True))"
    unfolding r_def by code_simp
  then obtain s s' where s: "r = Some s" "m_state (mgr s) = Downloading" "m_cancel (mgr s) = Some 3" "thr s 3 \<noteq> None"
    and s': "act demo_cfg (GiveUp 1) s = Some s'" "m_state (mgr s') = CancelledState" "m_cancel (mgr s') = None" "thr s' 3 = thr s 3"
    by auto
  have "ureach demo_cfg demo_prov s" using s(1) unfolding r_def by (rule demo_ureach) (rule demo_answers)
  moreover have "ustep demo_cfg demo_prov s s'" by (rule act_ustep [OF s'(1)]) simp
  ultimately show ?thesis using s s' by blast
qed

end
