(* ===== verification/Archive.thy ===== *)
theory Archive
  imports Path "HOL-Library.AList" "HOL-Library.List_Lexorder" "HOL-Library.Char_ord"
begin

text \<open>
  Extraction of artifacts (\<open>update/delta.go\<close> and the unzip part of \<open>install.go\<close>). A file system is an
  association list from the elements of a cleaned absolute path to a directory or a file; the trees
  touched here hold no symbolic links (extraction and copying create none). Members of a zip are what
  \<open>archive/zip\<close> presents: a name, mode bits, the header's size and the data read, perhaps with an error at
  its end. Every operation returns the file system it leaves behind, also when it fails.
\<close>

section \<open>File systems\<close>

datatype node = Dir | File (fperm: nat) (content: string)

type_synonym key = "string list"
type_synonym fs = "(key \<times> node) list"

fun mkdir_from :: "fs \<Rightarrow> key \<Rightarrow> key \<Rightarrow> fs option" where
  "mkdir_from fs up [] = Some fs"
| "mkdir_from fs up (c # cs) =
     (case map_of fs (up @ [c]) of
        None \<Rightarrow> mkdir_from (AList.update (up @ [c]) Dir fs) (up @ [c]) cs
      | Some Dir \<Rightarrow> mkdir_from fs (up @ [c]) cs
      | Some (File _ _) \<Rightarrow> None)"

definition mkdir_all :: "fs \<Rightarrow> key \<Rightarrow> fs option" where
  "mkdir_all fs k = mkdir_from fs [] k"

text \<open>\<open>os.OpenFile\<close> with \<open>O_CREATE|O_TRUNC\<close> and a write: an existing file keeps its mode.\<close>

definition write_file :: "fs \<Rightarrow> key \<Rightarrow> nat \<Rightarrow> string \<Rightarrow> fs option" where
  "write_file fs k perm d =
     (if k = [] \<or> butlast k \<noteq> [] \<and> map_of fs (butlast k) \<noteq> Some Dir then None
      else case map_of fs k of
        Some Dir \<Rightarrow> None
      | Some (File p _) \<Rightarrow> Some (AList.update k (File p d) fs)
      | None \<Rightarrow> Some (AList.update k (File perm d) fs))"

text \<open>\<open>filepath.Walk\<close>: the root and everything below it, parents first, names in order.\<close>

definition walk :: "fs \<Rightarrow> key \<Rightarrow> key list" where
  "walk fs root = sort (remdups (filter (prefix root) (map fst fs)))"

definition key_of :: "string \<Rightarrow> key" where
  "key_of p = comps (clean p)"

definition rel_path :: "key \<Rightarrow> key \<Rightarrow> string" where
  "rel_path root k = unparse False (drop (length root) k)"

section \<open>Members\<close>

record zmember =
  z_name :: string
  z_dirbit :: bool
  z_perm :: nat
  z_size :: int
  z_data :: "string option"
  z_corrupt :: bool

record budget =
  remaining :: int
  nfiles :: int

definition maxUnzipTotalBytes :: int where "maxUnzipTotalBytes = 1073741824"
definition maxUnzipFiles :: int where "maxUnzipFiles = 10000"
definition listingLimit :: int where "listingLimit = 8388608"

definition newUnzipBudget :: budget where
  "newUnzipBudget = \<lparr>remaining = maxUnzipTotalBytes, nfiles = 0\<rparr>"

definition DeltaListingName :: string where "DeltaListingName = ''.connective-delta-files''"

datatype arch_error =
    UnsafePath string
  | TooManyFiles
  | TooBig
  | FsError
  | ReadError
  | OutsideTop string
  | ListingTooLarge
  | BadArchive
  | ArchCancelled

definition z_is_dir :: "zmember \<Rightarrow> bool" where
  "z_is_dir z \<longleftrightarrow> z_dirbit z \<or> has_suffix (z_name z) ''/''"

text \<open>438 is octal 666, 493 octal 755.\<close>

definition filePerm :: "zmember \<Rightarrow> nat" where
  "filePerm z = (if z_perm z = 0 \<or> z_perm z = 438 then 493 else z_perm z)"

section \<open>Extraction\<close>

type_synonym 'a outcome = "(arch_error, 'a) res \<times> fs"

definition unzip_file :: "key \<Rightarrow> zmember \<Rightarrow> budget \<Rightarrow> fs \<Rightarrow> budget outcome" where
  "unzip_file target z b fs =
     (if z_size z > remaining b then (Inl TooBig, fs)
      else case mkdir_all fs (butlast target) of
        None \<Rightarrow> (Inl FsError, fs)
      | Some fs1 \<Rightarrow>
          (case z_data z of
             None \<Rightarrow> (Inl ReadError, fs1)
           | Some d \<Rightarrow>
               (case write_file fs1 target (filePerm z) (read_limited (remaining b + 1) d) of
                  None \<Rightarrow> (Inl FsError, fs1)
                | Some fs2 \<Rightarrow>
                    if z_corrupt z \<and> int (length d) \<le> remaining b then (Inl ReadError, fs2)
                    else if int (length d) > remaining b then (Inl TooBig, AList.delete target fs2)
                    else (Inr (b\<lparr>remaining := remaining b - int (length d)\<rparr>), fs2))))"

definition unzipOneBudgeted :: "string \<Rightarrow> zmember \<Rightarrow> budget \<Rightarrow> fs \<Rightarrow> budget outcome" where
  "unzipOneBudgeted out z b fs =
     (let rel = clean (z_name z)
      in if is_abs (z_name z) then (Inl (UnsafePath (z_name z)), fs)
         else if rel = dot \<or> escapes rel then (Inl (UnsafePath (z_name z)), fs)
         else
           (let target = key_of (path_join [out, rel]);
                b1 = b\<lparr>nfiles := nfiles b + 1\<rparr>
            in if nfiles b1 > maxUnzipFiles then (Inl TooManyFiles, fs)
               else if z_is_dir z then
                 (case mkdir_all fs target of None \<Rightarrow> (Inl FsError, fs) | Some fs' \<Rightarrow> (Inr b1, fs'))
               else unzip_file target z b1 fs))"

definition unzipOneStripBudgeted :: "string \<Rightarrow> string \<Rightarrow> zmember \<Rightarrow> budget \<Rightarrow> fs \<Rightarrow> budget outcome" where
  "unzipOneStripBudgeted out strip z b fs =
     (if strip = [] then unzipOneBudgeted out z b fs
      else if z_name z \<noteq> strip \<and> \<not> has_prefix (z_name z) (strip @ ''/'') then (Inl (OutsideTop (z_name z)), fs)
      else
        (let name = trim_prefix (z_name z) (strip @ ''/'')
         in if name = [] \<or> name = ''/'' then (Inr b, fs)
            else unzipOneBudgeted out (z\<lparr>z_name := name\<rparr>) b fs))"

fun zip_top :: "string \<Rightarrow> zmember list \<Rightarrow> string" where
  "zip_top seg [] = seg"
| "zip_top seg (z # zs) =
     (let name = trim_suffix (z_name z) ''/''
      in if name = [] then zip_top seg zs
         else case str_index name ''/'' of
           Some i \<Rightarrow>
             if seg = [] then zip_top (take i name) zs
             else if seg \<noteq> take i name then []
             else zip_top seg zs
         | None \<Rightarrow>
             if z_is_dir z then
               (if seg = [] then zip_top name zs else if seg \<noteq> name then [] else zip_top seg zs)
             else [])"

definition zipTopPrefix :: "zmember list \<Rightarrow> string" where
  "zipTopPrefix zs = zip_top [] zs"

text \<open>The loop over the members; the context is asked before each (\<open>cancelled i\<close>).\<close>

fun members :: "(zmember \<Rightarrow> budget \<Rightarrow> fs \<Rightarrow> budget outcome) \<Rightarrow> (nat \<Rightarrow> bool) \<Rightarrow> nat \<Rightarrow> zmember list \<Rightarrow> budget \<Rightarrow> fs \<Rightarrow> budget outcome" where
  "members one cancelled i [] b fs = (Inr b, fs)"
| "members one cancelled i (z # zs) b fs =
     (if cancelled i then (Inl ArchCancelled, fs)
      else case one z b fs of
        (Inl e, fs') \<Rightarrow> (Inl e, fs')
      | (Inr b', fs') \<Rightarrow> members one cancelled (Suc i) zs b' fs')"

definition unzipAll :: "(nat \<Rightarrow> bool) \<Rightarrow> zmember list option \<Rightarrow> string \<Rightarrow> fs \<Rightarrow> unit outcome" where
  "unzipAll cancelled ar out fs =
     (case mkdir_all fs (key_of out) of
        None \<Rightarrow> (Inl FsError, fs)
      | Some fs1 \<Rightarrow>
          (case ar of
             None \<Rightarrow> (Inl BadArchive, fs1)
           | Some zs \<Rightarrow>
               (case members (unzipOneStripBudgeted out (zipTopPrefix zs)) cancelled 0 zs newUnzipBudget fs1 of
                  (Inl e, fs2) \<Rightarrow> (Inl e, fs2)
                | (Inr _, fs2) \<Rightarrow> (Inr (), fs2))))"

section \<open>Deltas\<close>

fun copy_walk :: "key \<Rightarrow> key \<Rightarrow> key list \<Rightarrow> fs \<Rightarrow> unit outcome" where
  "copy_walk src dst [] fs = (Inr (), fs)"
| "copy_walk src dst (k # ks) fs =
     (let target = dst @ drop (length src) k
      in case map_of fs k of
           None \<Rightarrow> (Inl FsError, fs)
         | Some Dir \<Rightarrow> (case mkdir_all fs target of None \<Rightarrow> (Inl FsError, fs) | Some fs' \<Rightarrow> copy_walk src dst ks fs')
         | Some (File p d) \<Rightarrow>
             (case write_file fs target p d of None \<Rightarrow> (Inl FsError, fs) | Some fs' \<Rightarrow> copy_walk src dst ks fs'))"

definition CopyTree :: "string \<Rightarrow> string \<Rightarrow> fs \<Rightarrow> unit outcome" where
  "CopyTree src dst fs =
     (if map_of fs (key_of src) = None then (Inl FsError, fs)
      else copy_walk (key_of src) (key_of dst) (walk fs (key_of src)) fs)"

fun listing_lines :: "string list \<Rightarrow> string list \<Rightarrow> (arch_error, string list) res" where
  "listing_lines out [] = Inr out"
| "listing_lines out (l # ls) =
     (let line = trim_space l; c = clean line
      in if line = [] then listing_lines out ls
         else if is_abs c \<or> escapes c then Inl (UnsafePath line)
         else if int (length (out @ [c])) > maxUnzipFiles then Inl TooManyFiles
         else listing_lines (out @ [c]) ls)"

definition readDeltaListing :: "zmember \<Rightarrow> (arch_error, string list) res" where
  "readDeltaListing z =
     (if z_size z > listingLimit then Inl ListingTooLarge
      else case z_data z of
        None \<Rightarrow> Inl ReadError
      | Some d \<Rightarrow>
          if z_corrupt z \<and> int (length d) \<le> listingLimit then Inl ReadError
          else if int (length (read_limited (listingLimit + 1) d)) > listingLimit then Inl ListingTooLarge
          else listing_lines [] (split_on (CHR 0x0A) d))"

definition remove_dir :: "fs \<Rightarrow> key \<Rightarrow> fs" where
  "remove_dir fs d = (if \<exists>k \<in> set (map fst fs). strict_prefix d k then fs else AList.delete d fs)"

definition dropMissing :: "string \<Rightarrow> string list \<Rightarrow> fs \<Rightarrow> fs" where
  "dropMissing out listing fs =
     (let root = key_of out;
          keep = map clean listing;
          seen = filter (\<lambda>k. k \<noteq> root) (walk fs root);
          dirs = filter (\<lambda>k. map_of fs k = Some Dir) seen;
          doomed = filter (\<lambda>k. map_of fs k \<noteq> Some Dir \<and> rel_path root k \<notin> set keep) seen
      in foldl remove_dir (foldl (\<lambda>f k. AList.delete k f) fs doomed) (rev dirs))"

definition Apply :: "bool \<Rightarrow> (nat \<Rightarrow> bool) \<Rightarrow> string \<Rightarrow> zmember list option \<Rightarrow> string \<Rightarrow> fs \<Rightarrow> unit outcome" where
  "Apply ctx_done cancelled cur ar out fs =
     (if ctx_done then (Inl ArchCancelled, fs)
      else case CopyTree cur out fs of
        (Inl e, fs1) \<Rightarrow> (Inl e, fs1)
      | (Inr _, fs1) \<Rightarrow>
          (case ar of
             None \<Rightarrow> (Inl BadArchive, fs1)
           | Some zs \<Rightarrow>
               (case (case find (\<lambda>z. z_name z = DeltaListingName) zs of
                        None \<Rightarrow> Inr []
                      | Some z \<Rightarrow> readDeltaListing z) of
                  Inl e \<Rightarrow> (Inl e, fs1)
                | Inr listing \<Rightarrow>
                    (case members (\<lambda>z b f. if z_name z = DeltaListingName then (Inr b, f) else unzipOneBudgeted out z b f)
                        cancelled 0 zs newUnzipBudget fs1 of
                       (Inl e, fs2) \<Rightarrow> (Inl e, fs2)
                     | (Inr _, fs2) \<Rightarrow>
                         (Inr (), if listing \<noteq> [] then dropMissing out listing fs2 else fs2)))))"

section \<open>What an extraction can change\<close>

text \<open>
  \<open>confined root fs fs'\<close>: below \<open>root\<close> anything may differ; elsewhere the only difference is that
  \<open>root\<close> and the directories above it may have been created.
\<close>

definition confined :: "key \<Rightarrow> fs \<Rightarrow> fs \<Rightarrow> bool" where
  "confined root fs fs' \<longleftrightarrow>
     (\<forall>k. map_of fs' k \<noteq> map_of fs k \<longrightarrow>
        strict_prefix root k \<or> prefix k root \<and> map_of fs k = None \<and> map_of fs' k = Some Dir)"

lemma confined_refl [simp]: "confined root fs fs"
  by (simp add: confined_def)

lemma confined_trans: "confined root fs fs' \<Longrightarrow> confined root fs' fs'' \<Longrightarrow> confined root fs fs''"
  unfolding confined_def by (metis option.distinct(1))

lemma confined_update: "strict_prefix root k \<Longrightarrow> confined root fs (AList.update k n fs)"
  by (auto simp: confined_def update_conv')

lemma confined_delete: "strict_prefix root k \<Longrightarrow> confined root fs (AList.delete k fs)"
  by (auto simp: confined_def delete_conv')

lemma mkdir_from_ok:
  "mkdir_from fs up cs = Some fs' \<Longrightarrow>
     (\<forall>k. map_of fs' k \<noteq> map_of fs k \<longrightarrow> prefix k (up @ cs) \<and> map_of fs k = None \<and> map_of fs' k = Some Dir) \<and>
     (\<forall>i. 0 < i \<and> i \<le> length cs \<longrightarrow> map_of fs' (up @ take i cs) = Some Dir)"
proof (induction fs up cs rule: mkdir_from.induct)
  case (2 fs up c cs)
  show ?case
  proof (cases "map_of fs (up @ [c])")
    case None
    with "2.prems" have r: "mkdir_from (AList.update (up @ [c]) Dir fs) (up @ [c]) cs = Some fs'" by simp
    note IH = "2.IH"(1) [OF None r]
    have up: "map_of fs' (up @ [c]) = Some Dir"
      using IH by (metis (no_types) fun_upd_same option.distinct(1) update_conv')
    show ?thesis
    proof (intro conjI allI impI)
      fix k assume k: "map_of fs' k \<noteq> map_of fs k"
      have other: "k \<noteq> up @ [c] \<Longrightarrow> prefix k ((up @ [c]) @ cs) \<and> map_of fs k = None \<and> map_of fs' k = Some Dir"
        using conjunct1 [OF IH, rule_format, of k] k by (simp add: update_conv')
      show "prefix k (up @ c # cs)" using other by (cases "k = up @ [c]") simp_all
      show "map_of fs k = None" "map_of fs' k = Some Dir" using other up None by (cases "k = up @ [c]"; simp)+
    next
      fix i assume "0 < i \<and> i \<le> length (c # cs)"
      then obtain j where j: "i = Suc j" "j \<le> length cs" by (cases i) auto
      have "0 < j \<Longrightarrow> map_of fs' ((up @ [c]) @ take j cs) = Some Dir" using conjunct2 [OF IH] j(2) by blast
      then show "map_of fs' (up @ take i (c # cs)) = Some Dir" using up j by (cases "j = 0") simp_all
    qed
  next
    case (Some n)
    with "2.prems" have n: "n = Dir" and r: "mkdir_from fs (up @ [c]) cs = Some fs'" by (auto split: node.splits)
    note IH = "2.IH"(2) [OF Some n r]
    have up: "map_of fs' (up @ [c]) = Some Dir" using IH Some n by (metis option.distinct(1))
    show ?thesis
    proof (intro conjI allI impI)
      fix i assume "0 < i \<and> i \<le> length (c # cs)"
      then obtain j where j: "i = Suc j" "j \<le> length cs" by (cases i) auto
      have "0 < j \<Longrightarrow> map_of fs' ((up @ [c]) @ take j cs) = Some Dir" using conjunct2 [OF IH] j(2) by blast
      then show "map_of fs' (up @ take i (c # cs)) = Some Dir" using up j by (cases "j = 0") simp_all
    qed (use conjunct1 [OF IH] in \<open>simp_all\<close>)
  qed
qed simp

lemma mkdir_all_confined:
  "mkdir_all fs (root @ rel) = Some fs' \<Longrightarrow> confined root fs fs'"
  using mkdir_from_ok [of fs "[]" "root @ rel" fs'] unfolding mkdir_all_def confined_def
  by (metis append_Nil prefix_append prefix_order.le_less prefix_order.less_le_not_le prefix_same_cases)

lemma write_file_cases:
  assumes "write_file fs k perm d = Some fs'"
  obtains p where "fs' = AList.update k (File p d) fs" "k \<noteq> []"
  using assms by (auto simp: write_file_def split: if_splits option.splits node.splits)

lemma target_below:
  assumes "is_abs out" "\<not> is_abs name" "clean name \<noteq> dot" "\<not> escapes (clean name)"
  obtains cs where "key_of (path_join [out, clean name]) = key_of out @ cs" "cs \<noteq> []"
proof -
  have up: "dotdot \<notin> set (comps (clean name))" using assms(2,4) by (rule confined_comps)
  have ne: "out \<noteq> []" using assms(1) by (auto simp: is_abs_def has_prefix_def)
  have "dotdot \<notin> set (key_of out)"
    using updirs_clean [of True "comps out"] assms(1) by (auto simp: key_of_def updirs_def)
  with path_join_below [OF ne up] up have "key_of (path_join [out, clean name]) = key_of out @ comps (clean name)"
    using assms(1) clean_comps_append [of "comps (clean out) @ comps (clean name)" True "[]"]
    by (simp add: key_of_def clean_comps_def)
  moreover have "comps (clean name) \<noteq> []"
  proof
    assume "comps (clean name) = []"
    with comps_clean [of name] assms(2) have "clean_comps False (comps name) = []" by simp
    with assms(2) have "clean name = dot" by (simp add: clean_def unparse_def)
    with assms(3) show False by simp
  qed
  ultimately show thesis using that by blast
qed

lemma unzip_file_confined: "confined root fs (snd (unzip_file (root @ cs) z b fs))" if "cs \<noteq> []"
proof -
  have below: "strict_prefix root (root @ cs)" using that by (simp add: strict_prefix_def)
  have bl: "butlast (root @ cs) = root @ butlast cs" using that by (simp add: butlast_append)
  show ?thesis
  proof (cases "mkdir_all fs (root @ butlast cs)")
    case (Some fs1)
    then have c1: "confined root fs fs1" by (rule mkdir_all_confined)
    have c2: "confined root fs1 fs2" if "write_file fs1 (root @ cs) p d = Some fs2" for p d fs2
      using that below by (elim write_file_cases) (simp add: confined_update)
    have c3: "confined root fs fs2" "confined root fs (AList.delete (root @ cs) fs2)"
      if "write_file fs1 (root @ cs) p d = Some fs2" for p d fs2
      using confined_trans [OF c1 c2 [OF that]] confined_trans [OF _ confined_delete [OF below]] by blast+
    show ?thesis using Some c1 c3 by (auto simp: unzip_file_def bl split: option.splits)
  qed (simp add: unzip_file_def bl)
qed

lemma unzipOne_confined:
  assumes "is_abs out"
  shows "confined (key_of out) fs (snd (unzipOneBudgeted out z b fs))"
proof (cases "is_abs (z_name z) \<or> clean (z_name z) = dot \<or> escapes (clean (z_name z))")
  case True
  then show ?thesis by (auto simp: unzipOneBudgeted_def Let_def)
next
  case False
  with assms obtain cs where cs: "key_of (path_join [out, clean (z_name z)]) = key_of out @ cs" "cs \<noteq> []"
    by (metis target_below)
  from unzip_file_confined [OF cs(2)] False show ?thesis
    by (auto simp: unzipOneBudgeted_def Let_def cs intro: mkdir_all_confined split: option.splits)
qed

lemma unzipStrip_confined: "is_abs out \<Longrightarrow> confined (key_of out) fs (snd (unzipOneStripBudgeted out strip z b fs))"
  by (auto simp: unzipOneStripBudgeted_def Let_def unzipOne_confined)

lemma members_confined:
  "(\<And>z b f. confined root f (snd (one z b f))) \<Longrightarrow> confined root fs (snd (members one cancelled i zs b fs))"
proof (induction zs arbitrary: i b fs)
  case (Cons z zs)
  obtain r fs' where one: "one z b fs = (r, fs')" by fastforce
  with Cons.prems [of fs z b] have c: "confined root fs fs'" by simp
  then show ?case using one Cons.IH [OF Cons.prems]
    by (auto intro: confined_trans split: sum.splits)
qed simp

lemma unzipAll_confined:
  assumes "is_abs out"
  shows "confined (key_of out) fs (snd (unzipAll cancelled ar out fs))"
proof (cases "mkdir_all fs (key_of out)")
  case (Some fs1)
  then have c1: "confined (key_of out) fs fs1" using mkdir_all_confined [of fs "key_of out" "[]"] by simp
  have "confined (key_of out) fs1 (snd (members (unzipOneStripBudgeted out strip) cancelled i zs b fs1))" for strip i zs b
    using assms by (intro members_confined unzipStrip_confined)
  with c1 have "confined (key_of out) fs (snd (members (unzipOneStripBudgeted out strip) cancelled i zs b fs1))" for strip i zs b
    by (rule confined_trans)
  note m = this
  show ?thesis
  proof (cases ar)
    case zs: (Some zs)
    obtain r fs2 where "members (unzipOneStripBudgeted out (zipTopPrefix zs)) cancelled 0 zs newUnzipBudget fs1 = (r, fs2)" by fastforce
    with m [of "zipTopPrefix zs" 0 zs newUnzipBudget] show ?thesis by (cases r) (simp_all add: unzipAll_def Some zs)
  qed (simp add: unzipAll_def Some c1)
qed (simp add: unzipAll_def)

lemma confined_keeps_dir: "confined root fs fs' \<Longrightarrow> map_of fs k = Some Dir \<Longrightarrow> \<not> strict_prefix root k \<Longrightarrow> map_of fs' k = Some Dir"
  unfolding confined_def by (metis option.distinct(1))

lemma copy_walk_confined:
  assumes "\<not> prefix dst src"
  shows "map_of fs src = Some Dir \<Longrightarrow> \<forall>k \<in> set ks. prefix src k \<Longrightarrow> confined dst fs (snd (copy_walk src dst ks fs))"
proof (induction ks arbitrary: fs)
  case (Cons k ks)
  have nb: "\<not> strict_prefix dst src" using assms by (simp add: strict_prefix_def)
  show ?case
  proof (cases "map_of fs k")
    case (Some n)
    show ?thesis
    proof (cases n)
      case Dir
      show ?thesis
      proof (cases "mkdir_all fs (dst @ drop (length src) k)")
        case (Some fs')
        then have c: "confined dst fs fs'" by (rule mkdir_all_confined)
        have "map_of fs' src = Some Dir" by (rule confined_keeps_dir [OF c Cons.prems(1) nb])
        then have "confined dst fs' (snd (copy_walk src dst ks fs'))" using Cons.prems(2) by (intro Cons.IH) simp_all
        with c have "confined dst fs (snd (copy_walk src dst ks fs'))" by (rule confined_trans)
        then show ?thesis using \<open>map_of fs k = Some n\<close> Dir Some by (simp add: Let_def)
      qed (simp add: \<open>map_of fs k = Some n\<close> Dir)
    next
      case (File p d)
      have "k \<noteq> src" using Some File Cons.prems(1) by auto
      with Cons.prems(2) have "drop (length src) k \<noteq> []" by (auto simp: prefix_def)
      then have below: "strict_prefix dst (dst @ drop (length src) k)" by (simp add: strict_prefix_def)
      show ?thesis
      proof (cases "write_file fs (dst @ drop (length src) k) p d")
        case (Some fs')
        then have c: "confined dst fs fs'" using below by (elim write_file_cases) (simp add: confined_update)
        have "map_of fs' src = Some Dir" by (rule confined_keeps_dir [OF c Cons.prems(1) nb])
        then have "confined dst fs' (snd (copy_walk src dst ks fs'))" using Cons.prems(2) by (intro Cons.IH) simp_all
        with c have "confined dst fs (snd (copy_walk src dst ks fs'))" by (rule confined_trans)
        then show ?thesis using \<open>map_of fs k = Some n\<close> File Some by (simp add: Let_def)
      qed (simp add: \<open>map_of fs k = Some n\<close> File)
    qed
  qed simp
qed simp

lemma delete_all: "map_of (foldl (\<lambda>f k. AList.delete k f) fs ks) k = (if k \<in> set ks then None else map_of fs k)"
  by (induction ks arbitrary: fs) (auto simp: delete_conv')

lemma remove_dirs:
  "map_of (foldl remove_dir fs ds) k = map_of fs k \<or> k \<in> set ds \<and> map_of (foldl remove_dir fs ds) k = None"
proof (induction ds arbitrary: fs)
  case (Cons d ds)
  have "map_of (remove_dir fs d) k = map_of fs k \<or> k = d \<and> map_of (remove_dir fs d) k = None"
    by (auto simp: remove_dir_def delete_conv')
  with Cons.IH [of "remove_dir fs d"] show ?case by auto
qed simp

lemma set_walk: "set (walk fs root) = {k. map_of fs k \<noteq> None \<and> prefix root k}"
  by (auto simp: walk_def map_of_eq_None_iff)

lemma dropMissing_split:
  obtains doomed dirs where
    "dropMissing out listing fs = foldl remove_dir (foldl (\<lambda>f k. AList.delete k f) fs doomed) dirs"
    "\<And>k. k \<in> set doomed \<longleftrightarrow> map_of fs k \<noteq> None \<and> map_of fs k \<noteq> Some Dir \<and> strict_prefix (key_of out) k \<and>
       rel_path (key_of out) k \<notin> clean ` set listing"
    "\<And>k. k \<in> set dirs \<longleftrightarrow> map_of fs k = Some Dir \<and> strict_prefix (key_of out) k"
  by (rule that [OF dropMissing_def [unfolded Let_def]]) (auto simp: set_walk strict_prefix_def)

lemma dropMissing_below:
  assumes "map_of (dropMissing out listing fs) k \<noteq> map_of fs k"
  shows "strict_prefix (key_of out) k \<and> map_of (dropMissing out listing fs) k = None \<and>
    (map_of fs k = Some Dir \<or> rel_path (key_of out) k \<notin> clean ` set listing)"
proof (rule dropMissing_split [of out listing fs])
  fix doomed dirs
  assume d: "dropMissing out listing fs = foldl remove_dir (foldl (\<lambda>f k. AList.delete k f) fs doomed) dirs"
    "\<And>k. k \<in> set doomed \<longleftrightarrow> map_of fs k \<noteq> None \<and> map_of fs k \<noteq> Some Dir \<and> strict_prefix (key_of out) k \<and>
       rel_path (key_of out) k \<notin> clean ` set listing"
    "\<And>k. k \<in> set dirs \<longleftrightarrow> map_of fs k = Some Dir \<and> strict_prefix (key_of out) k"
  show ?thesis
    using assms remove_dirs [of "foldl (\<lambda>f k. AList.delete k f) fs doomed" dirs k] d(2,3) [of k]
    unfolding d(1) delete_all by (metis (full_types))
qed

lemma dropMissing_files:
  assumes "map_of fs k = Some (File p d)"
  shows "map_of (dropMissing out listing fs) k =
    (if strict_prefix (key_of out) k \<and> rel_path (key_of out) k \<notin> clean ` set listing then None else Some (File p d))"
proof (rule dropMissing_split [of out listing fs])
  fix doomed dirs
  assume d: "dropMissing out listing fs = foldl remove_dir (foldl (\<lambda>f k. AList.delete k f) fs doomed) dirs"
    "\<And>k. k \<in> set doomed \<longleftrightarrow> map_of fs k \<noteq> None \<and> map_of fs k \<noteq> Some Dir \<and> strict_prefix (key_of out) k \<and>
       rel_path (key_of out) k \<notin> clean ` set listing"
    "\<And>k. k \<in> set dirs \<longleftrightarrow> map_of fs k = Some Dir \<and> strict_prefix (key_of out) k"
  show ?thesis
    using assms remove_dirs [of "foldl (\<lambda>f k. AList.delete k f) fs doomed" dirs k] d(2,3) [of k]
    unfolding d(1) delete_all by auto
qed

lemma Apply_confined:
  assumes "is_abs out" "map_of fs (key_of cur) = Some Dir" "\<not> prefix (key_of out) (key_of cur)"
  shows "confined (key_of out) fs (snd (Apply d cancelled cur ar out fs))"
proof -
  obtain r1 fs1 where copy: "CopyTree cur out fs = (r1, fs1)" by fastforce
  then have c1: "confined (key_of out) fs fs1"
    using copy_walk_confined [OF assms(3,2), of "walk fs (key_of cur)"] by (auto simp: CopyTree_def set_walk split: if_splits)
  have "confined (key_of out) fs1 (snd (members (\<lambda>z b f. if z_name z = DeltaListingName then (Inr b, f) else unzipOneBudgeted out z b f)
      cancelled 0 zs newUnzipBudget fs1))" for zs
    by (rule members_confined) (simp add: unzipOne_confined [OF assms(1)])
  note m = confined_trans [OF c1 this]
  have drop: "confined (key_of out) fs fs2 \<Longrightarrow> confined (key_of out) fs (dropMissing out listing fs2)" for listing fs2
    using dropMissing_below by (rule_tac confined_trans) (auto simp: confined_def)
  show ?thesis
  proof (cases "d \<or> ar = None \<or> \<not> is_ok r1")
    case True
    then show ?thesis using copy c1 by (cases r1) (auto simp: Apply_def split: option.splits)
  next
    case False
    then obtain zs where zs: "ar = Some zs" "\<not> d" and r1: "r1 = Inr ()" by (cases r1) auto
    obtain r2 fs2 where mem: "members (\<lambda>z b f. if z_name z = DeltaListingName then (Inr b, f) else unzipOneBudgeted out z b f)
        cancelled 0 zs newUnzipBudget fs1 = (r2, fs2)" by fastforce
    with m [of zs] have c2: "confined (key_of out) fs fs2" by simp
    obtain ls where ls: "(case find (\<lambda>z. z_name z = DeltaListingName) zs of None \<Rightarrow> Inr [] | Some z \<Rightarrow> readDeltaListing z) = ls" by blast
    show ?thesis unfolding Apply_def ls zs(1) option.case copy r1 prod.case sum.case mem using zs(2) c1 c2 drop [OF c2]
      by (cases ls; cases r2) simp_all
  qed
qed

section \<open>What an extraction can cost\<close>

fun node_bytes :: "node \<Rightarrow> int" where
  "node_bytes Dir = 0"
| "node_bytes (File p d) = int (length d)"

definition fs_bytes :: "fs \<Rightarrow> int" where
  "fs_bytes fs = sum_list (map (node_bytes \<circ> snd) fs)"

lemma node_bytes_nonneg: "0 \<le> node_bytes n"
  by (cases n) simp_all

lemma bytes_update: "fs_bytes (AList.update k n fs) \<le> fs_bytes fs + node_bytes n"
proof (induction fs)
  case (Cons p fs)
  then show ?case using node_bytes_nonneg [of "snd p"] by (auto simp: fs_bytes_def)
qed (simp add: fs_bytes_def)

lemma bytes_delete: "fs_bytes (AList.delete k fs) \<le> fs_bytes fs"
proof (induction fs)
  case (Cons p fs)
  then show ?case using node_bytes_nonneg [of "snd p"] by (auto simp: fs_bytes_def AList.delete_eq)
qed (simp add: fs_bytes_def)

lemma bytes_delete_update: "fs_bytes (AList.delete k (AList.update k n fs)) \<le> fs_bytes fs"
proof -
  have "AList.delete k (AList.update k n fs) = AList.delete k fs" by (induction fs) (auto simp: AList.delete_eq)
  then show ?thesis using bytes_delete [of k fs] by simp
qed

lemma bytes_mkdir: "mkdir_from fs up cs = Some fs' \<Longrightarrow> fs_bytes fs' \<le> fs_bytes fs"
proof (induction fs up cs rule: mkdir_from.induct)
  case (2 fs up c cs)
  then show ?case using bytes_update [of "up @ [c]" Dir fs] by (auto split: option.splits node.splits)
qed simp

lemma bytes_write:
  assumes "write_file fs k p d = Some fs'"
  shows "fs_bytes fs' \<le> fs_bytes fs + int (length d)" "fs_bytes (AList.delete k fs') \<le> fs_bytes fs"
  using assms by (auto elim!: write_file_cases intro: bytes_update [THEN order_trans] bytes_delete_update)

text \<open>Whatever a member claims and holds, the budget pays for the bytes it leaves behind.\<close>

lemma unzip_file_bytes:
  assumes "0 \<le> remaining b" "unzip_file target z b fs = (r, fs')"
  shows "fs_bytes fs' \<le> fs_bytes fs + remaining b \<and>
    (\<forall>b'. r = Inr b' \<longrightarrow> 0 \<le> remaining b' \<and> nfiles b' = nfiles b \<and> fs_bytes fs' \<le> fs_bytes fs + (remaining b - remaining b'))"
proof (cases "z_size z > remaining b \<or> mkdir_all fs (butlast target) = None \<or> z_data z = None")
  case True
  then show ?thesis using assms bytes_mkdir [of fs "[]" "butlast target"]
    by (fastforce simp: unzip_file_def mkdir_all_def split: if_splits option.splits)
next
  case False
  then obtain fs1 d where fs1: "mkdir_all fs (butlast target) = Some fs1" and d: "z_data z = Some d" by auto
  have b1: "fs_bytes fs1 \<le> fs_bytes fs" using fs1 by (simp add: mkdir_all_def bytes_mkdir)
  show ?thesis
  proof (cases "write_file fs1 target (filePerm z) (read_limited (remaining b + 1) d)")
    case None
    then show ?thesis using assms False fs1 d b1 by (auto simp: unzip_file_def)
  next
    case (Some fs2)
    note w = bytes_write [OF Some]
    have lim: "int (length d) \<le> remaining b \<Longrightarrow> read_limited (remaining b + 1) d = d" by (simp add: read_limited_def)
    show ?thesis using assms False fs1 d b1 Some w lim
      by (auto simp: unzip_file_def split: if_splits)
  qed
qed

lemma unzipOne_bytes:
  assumes "0 \<le> remaining b" "unzipOneBudgeted out z b fs = (r, fs')"
  shows "fs_bytes fs' \<le> fs_bytes fs + remaining b \<and>
    (\<forall>b'. r = Inr b' \<longrightarrow> 0 \<le> remaining b' \<and> nfiles b' = nfiles b + 1 \<and> nfiles b' \<le> maxUnzipFiles \<and>
       fs_bytes fs' \<le> fs_bytes fs + (remaining b - remaining b'))"
proof (cases "is_abs (z_name z) \<or> clean (z_name z) = dot \<or> escapes (clean (z_name z)) \<or> nfiles b + 1 > maxUnzipFiles")
  case True
  then have "r \<noteq> Inr b'" "fs' = fs" for b' using assms(2) by (auto simp: unzipOneBudgeted_def Let_def split: if_splits)
  then show ?thesis using assms(1) by simp
next
  case False
  let ?t = "key_of (path_join [out, clean (z_name z)])" and ?b = "b\<lparr>nfiles := nfiles b + 1\<rparr>"
  show ?thesis
  proof (cases "z_is_dir z")
    case True
    then show ?thesis using False assms bytes_mkdir [of fs "[]" ?t]
      by (auto simp: unzipOneBudgeted_def Let_def mkdir_all_def split: option.splits)
  next
    case dir: False
    then have "unzip_file ?t z ?b fs = (r, fs')" using False assms(2) by (simp add: unzipOneBudgeted_def Let_def)
    from unzip_file_bytes [OF _ this] assms(1) False show ?thesis by auto
  qed
qed

lemma unzipStrip_bytes:
  assumes "0 \<le> remaining b" "unzipOneStripBudgeted out strip z b fs = (r, fs')"
  shows "fs_bytes fs' \<le> fs_bytes fs + remaining b \<and>
    (\<forall>b'. r = Inr b' \<longrightarrow> 0 \<le> remaining b' \<and> nfiles b' \<le> max (nfiles b) maxUnzipFiles \<and>
       fs_bytes fs' \<le> fs_bytes fs + (remaining b - remaining b'))"
proof (cases "\<exists>z'. unzipOneBudgeted out z' b fs = (r, fs')")
  case True
  then obtain z' where "unzipOneBudgeted out z' b fs = (r, fs')" by blast
  from unzipOne_bytes [OF assms(1) this] show ?thesis by auto
next
  case False
  then have "fs' = fs" "r = Inr b \<or> (\<exists>e. r = Inl e)"
    using assms(2) by (auto simp: unzipOneStripBudgeted_def Let_def split: if_splits)
  then show ?thesis using assms(1) by auto
qed

lemma members_bytes:
  assumes one: "\<And>z b f r f'. 0 \<le> remaining b \<Longrightarrow> one z b f = (r, f') \<Longrightarrow> fs_bytes f' \<le> fs_bytes f + remaining b \<and>
      (\<forall>b'. r = Inr b' \<longrightarrow> 0 \<le> remaining b' \<and> fs_bytes f' \<le> fs_bytes f + (remaining b - remaining b'))"
  shows "0 \<le> remaining b \<Longrightarrow> fs_bytes (snd (members one cancelled i zs b fs)) \<le> fs_bytes fs + remaining b"
proof (induction zs arbitrary: i b fs)
  case (Cons z zs)
  obtain r fs' where o: "one z b fs = (r, fs')" by fastforce
  note b = one [OF Cons.prems o]
  show ?case
  proof (cases r)
    case (Inr b')
    with b Cons.IH [of b' "Suc i" fs'] have "fs_bytes (snd (members one cancelled (Suc i) zs b' fs')) \<le> fs_bytes fs + remaining b" by auto
    then show ?thesis using o Inr Cons.prems by simp
  qed (use o b Cons.prems in simp)
qed simp

section \<open>Properties\<close>

text \<open>
  C13. Extraction stays inside: unpacking any archive into an absolute directory changes nothing outside it,
  whatever the names, sizes and contents of the members and wherever it fails. The one exception is the
  directory itself and missing directories above it, which are created. The same holds of applying a delta.
\<close>

theorem extraction_confined:
  assumes "is_abs out"
  shows "(map_of (snd (unzipAll cancelled ar out fs)) k \<noteq> map_of fs k \<longrightarrow>
      strict_prefix (key_of out) k \<or>
      prefix k (key_of out) \<and> map_of fs k = None \<and> map_of (snd (unzipAll cancelled ar out fs)) k = Some Dir) \<and>
    (map_of fs (key_of cur) = Some Dir \<and> \<not> prefix (key_of out) (key_of cur) \<and>
      map_of (snd (Apply d cancelled cur ar out fs)) k \<noteq> map_of fs k \<longrightarrow>
      strict_prefix (key_of out) k \<or>
      prefix k (key_of out) \<and> map_of fs k = None \<and> map_of (snd (Apply d cancelled cur ar out fs)) k = Some Dir)"
proof -
  have "confined (key_of out) fs (snd (Apply d cancelled cur ar out fs))"
    if "map_of fs (key_of cur) = Some Dir" "\<not> prefix (key_of out) (key_of cur)"
    using assms that by (rule Apply_confined)
  then show ?thesis using unzipAll_confined [OF assms] unfolding confined_def by blast
qed

theorem extraction_confined_witness:
  "let fs = [([''root''], Dir), ([''etc''], Dir)];
       ar = Some [\<lparr>z_name = ''../etc/passwd'', z_dirbit = False, z_perm = 420, z_size = 1, z_data = Some ''x'', z_corrupt = False\<rparr>]
   in map_of (snd (unzipAll (\<lambda>_. False) ar ''/root/out'' fs)) [''etc'', ''passwd''] = None"
  using extraction_confined [of "''/root/out''" "\<lambda>_. False"
      "Some [\<lparr>z_name = ''../etc/passwd'', z_dirbit = False, z_perm = 420, z_size = 1, z_data = Some ''x'', z_corrupt = False\<rparr>]"
      "[([''root''], Dir), ([''etc''], Dir)]" "[''etc'', ''passwd'']"]
  by (auto simp: Let_def key_of_def strict_prefix_def is_abs_def has_prefix_def clean_def comps_def clean_comps_def clean_step_def
    unparse_def dot_def dotdot_def)

text \<open>
  C25. Extraction is bounded: whatever the headers claim, unpacking an archive adds at most one gibibyte of
  file contents, counting everything left behind by a failed extraction too.
\<close>

theorem extraction_bounded:
  "fs_bytes (snd (unzipAll cancelled ar out fs)) \<le> fs_bytes fs + 1073741824"
proof (cases "mkdir_all fs (key_of out)")
  case (Some fs1)
  then have b1: "fs_bytes fs1 \<le> fs_bytes fs" by (simp add: mkdir_all_def bytes_mkdir)
  show ?thesis
  proof (cases ar)
    case zs: (Some zs)
    have b: "fs_bytes (snd (members (unzipOneStripBudgeted out (zipTopPrefix zs)) cancelled 0 zs newUnzipBudget fs1)) \<le>
        fs_bytes fs1 + remaining newUnzipBudget"
      by (rule members_bytes) (use unzipStrip_bytes in \<open>blast, simp add: newUnzipBudget_def maxUnzipTotalBytes_def\<close>)
    obtain r fs2 where "members (unzipOneStripBudgeted out (zipTopPrefix zs)) cancelled 0 zs newUnzipBudget fs1 = (r, fs2)" by fastforce
    with b b1 show ?thesis by (cases r) (simp_all add: unzipAll_def Some zs newUnzipBudget_def maxUnzipTotalBytes_def)
  qed (use Some b1 in \<open>simp add: unzipAll_def\<close>)
qed (simp add: unzipAll_def)

text \<open>
  Pruning after a delta: a file below the output directory survives exactly when the listing names it, with
  its content and mode unchanged; nothing outside the directory is touched and no file appears.
\<close>

theorem prune_exact:
  "(map_of fs k = Some (File p d) \<longrightarrow>
     map_of (dropMissing out listing fs) k =
       (if strict_prefix (key_of out) k \<and> rel_path (key_of out) k \<notin> clean ` set listing then None else Some (File p d))) \<and>
   (map_of (dropMissing out listing fs) k \<noteq> map_of fs k \<longrightarrow>
     strict_prefix (key_of out) k \<and> map_of (dropMissing out listing fs) k = None)"
  using dropMissing_files [of fs k p d out listing] dropMissing_below [of out listing fs k] by blast

theorem prune_exact_witness:
  "map_of (dropMissing ''/o'' [''a/b''] [([''o''], Dir), ([''o'', ''a''], Dir), ([''o'', ''a'', ''b''], File 420 ''x''), ([''o'', ''c''], File 420 ''y'')])
     [''o'', ''a'', ''b''] = Some (File 420 ''x'')"
  using prune_exact [of "[([''o''], Dir), ([''o'', ''a''], Dir), ([''o'', ''a'', ''b''], File 420 ''x''), ([''o'', ''c''], File 420 ''y'')]"
      "[''o'', ''a'', ''b'']" 420 "''x''" "''/o''" "[''a/b'']"]
  by (simp add: rel_path_def key_of_def is_abs_def has_prefix_def clean_def comps_def clean_comps_def clean_step_def
    unparse_def dot_def dotdot_def)

text \<open>
  The listing is used to delete, never to check: a delta whose listing names a file that neither the
  installed tree nor the delta provides is applied without an error, and the tree it yields lacks the file.
\<close>

theorem incomplete_delta_applies:
  "\<exists>fs ar. fst (Apply False (\<lambda>_. False) ''/cur'' ar ''/out'' fs) = Inr () \<and>
     (\<exists>zs z. ar = Some zs \<and> z \<in> set zs \<and> z_name z = DeltaListingName \<and> readDeltaListing z = Inr [''bin/app'']) \<and>
     map_of (snd (Apply False (\<lambda>_. False) ''/cur'' ar ''/out'' fs)) [''out'', ''bin'', ''app''] = None"
proof -
  define z where "z = \<lparr>z_name = DeltaListingName, z_dirbit = False, z_perm = 420, z_size = 7, z_data = Some ''bin/app'', z_corrupt = False\<rparr>"
  have "fst (Apply False (\<lambda>_. False) ''/cur'' (Some [z]) ''/out'' [([''cur''], Dir)]) = Inr ()"
    "map_of (snd (Apply False (\<lambda>_. False) ''/cur'' (Some [z]) ''/out'' [([''cur''], Dir)])) [''out'', ''bin'', ''app''] = None"
    "readDeltaListing z = Inr [''bin/app'']" unfolding z_def by code_simp+
  moreover have "z_name z = DeltaListingName" by (simp add: z_def)
  ultimately show ?thesis by (metis list.set_intros(1))
qed

end
