(* ===== verification/Installer.thy ===== *)
theory Installer
  imports Archive Version
begin

text \<open>
  The versioned layout of \<open>update/install.go\<close>. Assembling and promoting a tree are operations on the file
  system of \<open>Archive\<close>; activating and rolling back move the links \<open>current\<close> and \<open>previous\<close> and are given
  as the sequence of system calls they make, any of which may fail (\<open>fault\<close>), with every state on the way
  recorded. Names chosen by \<open>os.MkdirTemp\<close> are parameters.
\<close>

datatype install_error =
    BadTarget version_error
  | UnsafeVersion string
  | UnknownKind string
  | NoCurrent
  | WrongBase string string
  | Extract arch_error
  | InstallFs
  | InstallCancelled
  | NotAssembled string
  | AnchorFailed
  | LinkFailed
  | SwitchFailed
  | NothingToRollBack
  | StagedMissing
  | Unhealthy

section \<open>Trees\<close>

definition versionsDir :: "string \<Rightarrow> string" where
  "versionsDir root = path_join [root, ''versions'']"

definition VersionDir :: "string \<Rightarrow> string \<Rightarrow> (install_error, string) res" where
  "VersionDir root v =
     (case ParseVersion v of
        Inl e \<Rightarrow> Inl (BadTarget e)
      | Inr _ \<Rightarrow>
          if contains_any v [CHR ''/'', CHR 0x5C] then Inl (UnsafeVersion v)
          else Inr (path_join [versionsDir root, v]))"

definition remove_all :: "key \<Rightarrow> fs \<Rightarrow> fs" where
  "remove_all k fs = filter (\<lambda>(j, _). \<not> prefix k j) fs"

definition rename_tree :: "key \<Rightarrow> key \<Rightarrow> fs \<Rightarrow> fs" where
  "rename_tree src dst fs = map (\<lambda>(k, n). (if prefix src k then dst @ drop (length src) k else k, n)) fs"

record job =
  j_root :: string
  j_delta_base :: string
  j_delta_from :: string
  j_target :: string
  j_kind :: string

text \<open>
  The body of \<open>Assemble\<close> up to the finished tree in \<open>build\<close>: \<open>ar\<close> is the staged artifact as a zip,
  \<open>link\<close> the target of the base root's \<open>current\<close> link. \<open>cancelled\<close> answers before each member, \<open>ctx_end\<close> after the extraction.
\<close>

definition build_tree :: "job \<Rightarrow> string option \<Rightarrow> (nat \<Rightarrow> bool) \<Rightarrow> bool \<Rightarrow> zmember list option \<Rightarrow> string \<Rightarrow> fs \<Rightarrow> (install_error, unit) res \<times> fs" where
  "build_tree j link cancelled ctx_start ar build fs =
     (if j_kind j = ''full'' then
        (case unzipAll cancelled ar build fs of (r, fs') \<Rightarrow> (map_sum Extract id r, fs'))
      else if j_kind j = ''delta'' then
        (let baseRoot = (if j_delta_base j \<noteq> [] then j_delta_base j else j_root j)
         in case link of
              None \<Rightarrow> (Inl NoCurrent, fs)
            | Some cur \<Rightarrow>
                (let curTree = (if is_abs cur then cur else path_join [baseRoot, cur])
                 in if j_delta_from j \<noteq> [] \<and> base (clean curTree) \<noteq> j_delta_from j
                    then (Inl (WrongBase (j_delta_from j) (base (clean curTree))), fs)
                    else case Apply ctx_start cancelled curTree ar build fs of (r, fs') \<Rightarrow> (map_sum Extract id r, fs')))
      else (Inl (UnknownKind (j_kind j)), fs))"

definition Assemble ::
  "job \<Rightarrow> string option \<Rightarrow> (nat \<Rightarrow> bool) \<Rightarrow> bool \<Rightarrow> bool \<Rightarrow> zmember list option \<Rightarrow> string \<Rightarrow> fs \<Rightarrow> (install_error, string) res \<times> fs" where
  "Assemble j link cancelled ctx_start ctx_end ar tmp fs =
     (case VersionDir (j_root j) (j_target j) of
        Inl e \<Rightarrow> (Inl e, fs)
      | Inr vdir \<Rightarrow>
          if map_of fs (key_of vdir) \<noteq> None then (Inr vdir, fs)
          else case mkdir_all fs (key_of tmp) of
            None \<Rightarrow> (Inl InstallFs, fs)
          | Some fs1 \<Rightarrow>
              (let build = path_join [tmp, ''tree'']
               in case build_tree j link cancelled ctx_start ar build fs1 of
                    (Inl e, fs2) \<Rightarrow> (Inl e, remove_all (key_of tmp) fs2)
                  | (Inr _, fs2) \<Rightarrow>
                      if ctx_end then (Inl InstallCancelled, remove_all (key_of tmp) fs2)
                      else case mkdir_all fs2 (key_of (versionsDir (j_root j))) of
                        None \<Rightarrow> (Inl InstallFs, remove_all (key_of tmp) fs2)
                      | Some fs3 \<Rightarrow>
                          (Inr vdir, remove_all (key_of tmp) (rename_tree (key_of build) (key_of vdir) fs3))))"

text \<open>\<open>PromoteStaged\<close>: a copy of an assembled tree into the install root, renamed into place when complete.\<close>

definition PromoteStaged :: "string \<Rightarrow> string \<Rightarrow> string \<Rightarrow> string \<Rightarrow> fs \<Rightarrow> (install_error, unit) res \<times> fs" where
  "PromoteStaged staged root ver tmp fs =
     (case VersionDir root ver of
        Inl e \<Rightarrow> (Inl e, fs)
      | Inr dest \<Rightarrow>
          if map_of fs (key_of staged) \<noteq> Some Dir then (Inl StagedMissing, fs)
          else if clean staged = clean dest then (Inr (), fs)
          else if map_of fs (key_of dest) \<noteq> None then (Inr (), fs)
          else case mkdir_all fs (key_of (versionsDir root)) of
            None \<Rightarrow> (Inl InstallFs, fs)
          | Some fs1 \<Rightarrow>
              (case mkdir_all fs1 (key_of tmp) of
                 None \<Rightarrow> (Inl InstallFs, fs1)
               | Some fs2 \<Rightarrow>
                   (let build = path_join [tmp, ''tree'']
                    in case CopyTree staged build fs2 of
                         (Inl e, fs3) \<Rightarrow> (Inl (Extract e), remove_all (key_of tmp) fs3)
                       | (Inr _, fs3) \<Rightarrow>
                           (Inr (), remove_all (key_of tmp) (rename_tree (key_of build) (key_of dest) fs3)))))"

section \<open>Links\<close>

record links =
  l_trees :: "string set"
  l_current :: "string option"
  l_previous :: "string option"
  l_tmp :: "string option"

datatype link_op = RemovePrev | LinkPrev string | RemoveTmp | LinkTmp string | RemoveCurrent | RenameTmp

text \<open>A system call: \<open>symlink\<close> refuses an existing name, \<open>rename\<close> needs its source and replaces its target.\<close>

fun link_call :: "link_op \<Rightarrow> links \<Rightarrow> links option" where
  "link_call RemovePrev s = Some (s\<lparr>l_previous := None\<rparr>)"
| "link_call (LinkPrev t) s = (if l_previous s = None then Some (s\<lparr>l_previous := Some t\<rparr>) else None)"
| "link_call RemoveTmp s = Some (s\<lparr>l_tmp := None\<rparr>)"
| "link_call (LinkTmp t) s = (if l_tmp s = None then Some (s\<lparr>l_tmp := Some t\<rparr>) else None)"
| "link_call RemoveCurrent s = Some (s\<lparr>l_current := None\<rparr>)"
| "link_call RenameTmp s =
     (case l_tmp s of None \<Rightarrow> None | Some t \<Rightarrow> Some (s\<lparr>l_current := Some t, l_tmp := None\<rparr>))"

text \<open>The states passed through, the latest first.\<close>

type_synonym trail = "links list"

definition attempt_call :: "(link_op \<Rightarrow> bool) \<Rightarrow> link_op \<Rightarrow> trail \<Rightarrow> bool \<times> trail" where
  "attempt_call fault c h =
     (if fault c then (False, h)
      else case link_call c (hd h) of None \<Rightarrow> (False, h) | Some s \<Rightarrow> (True, s # h))"

definition replaceLink :: "bool \<Rightarrow> (link_op \<Rightarrow> bool) \<Rightarrow> trail \<Rightarrow> bool \<times> trail" where
  "replaceLink windows fault h =
     attempt_call fault RenameTmp (if windows then snd (attempt_call fault RemoveCurrent h) else h)"

definition switch_to :: "bool \<Rightarrow> (link_op \<Rightarrow> bool) \<Rightarrow> string \<Rightarrow> 'a \<Rightarrow> trail \<Rightarrow> (install_error, 'a) res \<times> trail" where
  "switch_to windows fault target a h =
     (case attempt_call fault (LinkTmp target) (snd (attempt_call fault RemoveTmp h)) of
        (False, h1) \<Rightarrow> (Inl LinkFailed, h1)
      | (True, h1) \<Rightarrow>
          (case replaceLink windows fault h1 of
             (False, h2) \<Rightarrow> (Inl SwitchFailed, snd (attempt_call fault RemoveTmp h2))
           | (True, h2) \<Rightarrow> (Inr a, h2)))"

definition Activate :: "bool \<Rightarrow> (link_op \<Rightarrow> bool) \<Rightarrow> string \<Rightarrow> string \<Rightarrow> trail \<Rightarrow> (install_error, string) res \<times> trail" where
  "Activate windows fault root target h =
     (case VersionDir root target of
        Inl e \<Rightarrow> (Inl e, h)
      | Inr _ \<Rightarrow>
          if target \<notin> l_trees (hd h) then (Inl (NotAssembled target), h)
          else case l_current (hd h) of
            None \<Rightarrow> switch_to windows fault (path_join [''versions'', target]) [] h
          | Some cur \<Rightarrow>
              (case attempt_call fault (LinkPrev cur) (snd (attempt_call fault RemovePrev h)) of
                 (False, h1) \<Rightarrow> (Inl AnchorFailed, h1)
               | (True, h1) \<Rightarrow> switch_to windows fault (path_join [''versions'', target]) (base cur) h1))"

definition Rollback :: "bool \<Rightarrow> (link_op \<Rightarrow> bool) \<Rightarrow> trail \<Rightarrow> (install_error, string) res \<times> trail" where
  "Rollback windows fault h =
     (case l_previous (hd h) of
        None \<Rightarrow> (Inl NothingToRollBack, h)
      | Some prev \<Rightarrow> switch_to windows fault prev (base prev) h)"

definition Current :: "links \<Rightarrow> string" where
  "Current s = (case l_current s of None \<Rightarrow> [] | Some cur \<Rightarrow> base cur)"

text \<open>
  \<open>AwaitHealthy\<close>: the polls in order; \<open>ready i\<close>, \<open>ctx i\<close> and \<open>late i\<close> are the answers of poll \<open>i\<close>. With a
  deadline \<open>n\<close> polls away the loop returns.
\<close>

fun await_healthy :: "(nat \<Rightarrow> bool) \<Rightarrow> (nat \<Rightarrow> bool) \<Rightarrow> (nat \<Rightarrow> bool) \<Rightarrow> nat \<Rightarrow> nat \<Rightarrow> (install_error, unit) res option" where
  "await_healthy ready ctx late i 0 = None"
| "await_healthy ready ctx late i (Suc n) =
     (if ready i then Some (Inr ())
      else if ctx i then Some (Inl InstallCancelled)
      else if late i then Some (Inl Unhealthy)
      else await_healthy ready ctx late (Suc i) n)"

section \<open>Names\<close>

lemma VersionDir_ok:
  assumes "VersionDir root v = Inr d"
  shows "elem_ok v" "v \<noteq> dotdot" "d = path_join [versionsDir root, v]"
proof -
  from assms have p: "is_ok (ParseVersion v)" and slash: "CHR ''/'' \<notin> set v" and d: "d = path_join [versionsDir root, v]"
    by (auto simp: VersionDir_def contains_any_iff split: sum.splits if_splits)
  have "\<not> is_ok (ParseVersion [])" "\<not> is_ok (ParseVersion ''.'')" "\<not> is_ok (ParseVersion ''..'')" by code_simp+
  with p have "v \<noteq> []" "v \<noteq> dot" "v \<noteq> dotdot" unfolding dot_def dotdot_def by metis+
  with slash d show "elem_ok v" "v \<noteq> dotdot" "d = path_join [versionsDir root, v]" by (simp_all add: elem_ok_def)
qed

lemma join_elem:
  assumes "is_abs out" "elem_ok v" "v \<noteq> dotdot"
  shows "is_abs (path_join [out, v])" "key_of (path_join [out, v]) = key_of out @ [v]"
proof -
  have ne: "out \<noteq> []" using assms(1) by (auto simp: is_abs_def has_prefix_def)
  have v: "dotdot \<notin> set (comps v)" using assms by (simp add: comps_single)
  note j = path_join_below [OF ne v]
  show "is_abs (path_join [out, v])" using j assms by simp
  have "dotdot \<notin> set (key_of out)"
    using updirs_clean [of True "comps out"] assms(1) by (auto simp: key_of_def updirs_def)
  then show "key_of (path_join [out, v]) = key_of out @ [v]"
    using j assms clean_comps_append [of "comps (clean out) @ [v]" True "[]"]
    by (simp add: key_of_def clean_comps_def comps_single)
qed

lemma versions_elem: "elem_ok ''versions''" "''versions'' \<noteq> dotdot" "elem_ok ''tree''" "''tree'' \<noteq> dotdot"
  by (simp_all add: elem_ok_def dot_def dotdot_def)

lemma version_key:
  assumes "is_abs root" "VersionDir root v = Inr d"
  shows "is_abs d" "key_of d = key_of root @ [''versions'', v]" "key_of (versionsDir root) = key_of root @ [''versions'']"
  using join_elem [OF assms(1) versions_elem(1,2)] join_elem [of "versionsDir root" v] VersionDir_ok [OF assms(2)]
  by (simp_all add: versionsDir_def)

lemma link_name:
  assumes "elem_ok v" "v \<noteq> dotdot"
  shows "path_join [''versions'', v] = ''versions/'' @ v" "base (''versions/'' @ v) = v"
proof -
  have v: "v \<noteq> []" "CHR ''/'' \<notin> set v" "comps v = [v]" using assms by (simp_all add: elem_ok_def comps_single)
  have "comps (''versions/'' @ v) = [''versions'', v]"
    using comps_append [of "''versions''" v] comps_single [OF versions_elem(1)] v by simp
  then show "path_join [''versions'', v] = ''versions/'' @ v"
    using assms versions_elem(2)
    by (simp add: path_join_def clean_def is_abs_def has_prefix_def clean_comps_def clean_step_def unparse_def)
  have l: "last v \<noteq> CHR ''/''" using v by (metis last_in_set)
  then have "dropWhile (\<lambda>c. c = CHR ''/'') (rev v @ rev ''versions/'') = rev v @ rev ''versions/''"
    using v(1) by (cases v rule: rev_cases) simp_all
  moreover have "takeWhile (\<lambda>c. c \<noteq> CHR ''/'') (rev v @ rev ''versions/'') = rev v"
    using v(2) by (subst takeWhile_append2) auto
  ultimately show "base (''versions/'' @ v) = v" by (simp add: base_def Let_def)
qed

section \<open>Moving trees\<close>

lemma map_of_remove_all: "map_of (remove_all t fs) k = (if prefix t k then None else map_of fs k)"
  by (induction fs) (auto simp: remove_all_def)

lemma map_of_rename_other: "\<not> prefix src k \<Longrightarrow> \<not> prefix dst k \<Longrightarrow> map_of (rename_tree src dst fs) k = map_of fs k"
  by (induction fs) (auto simp: rename_tree_def)

lemma map_of_rename_moved:
  "(\<And>k. prefix dst k \<Longrightarrow> map_of fs k = None) \<Longrightarrow> map_of (rename_tree src dst fs) (dst @ rel) = map_of fs (src @ rel)"
proof (induction fs)
  case (Cons p fs)
  obtain k n where p: "p = (k, n)" by (cases p)
  have k: "\<not> prefix dst k" using Cons.prems [of k] p by auto
  have "map_of fs j = None" if "prefix dst j" for j using Cons.prems [OF that] p by (auto split: if_splits)
  then have IH: "map_of (rename_tree src dst fs) (dst @ rel) = map_of fs (src @ rel)" by (rule Cons.IH)
  show ?case
  proof (cases "prefix src k")
    case True
    then obtain r where "k = src @ r" by (auto simp: prefix_def)
    then show ?thesis using IH by (simp add: rename_tree_def p)
  next
    case False
    then show ?thesis using IH k by (auto simp: rename_tree_def p)
  qed
qed (simp add: rename_tree_def)

definition wf_fs :: "fs \<Rightarrow> bool" where
  "wf_fs fs \<longleftrightarrow> (\<forall>k c. map_of fs (k @ [c]) \<noteq> None \<longrightarrow> k = [] \<or> map_of fs k = Some Dir)"

lemma wf_absent:
  assumes "wf_fs fs" "d \<noteq> []" "map_of fs d = None"
  shows "prefix d k \<Longrightarrow> map_of fs k = None"
proof (induction k rule: rev_induct)
  case (snoc c k)
  then show ?case using assms unfolding wf_fs_def
    by (metis append_is_Nil_conv option.distinct(1) prefix_snoc prefix_Nil)
qed (use assms in simp)

text \<open>A completed tree under \<open>src\<close>, outside \<open>vs\<close>, becomes the new version; every other version is as before.\<close>

lemma install_tree:
  assumes conf: "confined src fs fs2" and apart: "\<not> prefix vs src" "\<not> prefix src vs" "\<not> prefix t vs" "\<not> prefix vs t" "prefix t src"
    and new: "\<And>k. prefix (vs @ [v]) k \<Longrightarrow> map_of fs k = None" and mk: "mkdir_all fs2 vs = Some fs3"
  defines "fs' \<equiv> remove_all t (rename_tree src (vs @ [v]) fs3)"
  shows "strict_prefix vs k \<Longrightarrow> \<not> prefix (vs @ [v]) k \<Longrightarrow> map_of fs' k = map_of fs k"
    and "map_of fs' (vs @ [v] @ rel) = map_of fs2 (src @ rel)"
proof -
  have mkc: "map_of fs3 j = map_of fs2 j" if "\<not> prefix j vs" for j
    using mkdir_from_ok [of fs2 "[]" vs fs3] mk that by (auto simp: mkdir_all_def)
  have c: "map_of fs2 j = map_of fs j" if "\<not> prefix src j" "\<not> prefix j src" for j
    using conf that unfolding confined_def by (metis strict_prefix_def)
  have sep: "\<not> prefix src j \<and> \<not> prefix j src \<and> \<not> prefix t j" if "prefix vs j" for j
    using apart that by (metis prefix_order.trans prefix_same_cases)
  have below: "\<not> prefix j vs" if "strict_prefix vs j" for j using that by auto
  show "strict_prefix vs k \<Longrightarrow> \<not> prefix (vs @ [v]) k \<Longrightarrow> map_of fs' k = map_of fs k"
    using sep [of k] below [of k] mkc [of k] c [of k]
    by (auto simp: fs'_def map_of_remove_all map_of_rename_other strict_prefix_def)
  have "map_of fs3 k = None" if "prefix (vs @ [v]) k" for k
  proof -
    have "prefix vs k" "\<not> prefix k vs" using that by (auto simp: prefix_def)
    then show ?thesis using mkc [of k] c [of k] sep [of k] new [OF that] by simp
  qed
  then have "map_of (rename_tree src (vs @ [v]) fs3) ((vs @ [v]) @ rel) = map_of fs3 (src @ rel)" by (rule map_of_rename_moved)
  moreover have "\<not> prefix (src @ rel) vs" using apart(2) by (meson append_prefixD)
  ultimately show "map_of fs' (vs @ [v] @ rel) = map_of fs2 (src @ rel)"
    using sep [of "vs @ [v] @ rel"] mkc [of "src @ rel"] by (simp add: fs'_def map_of_remove_all)
qed

definition delta_base :: "job \<Rightarrow> string \<Rightarrow> string" where
  "delta_base j cur = (if is_abs cur then cur else path_join [if j_delta_base j \<noteq> [] then j_delta_base j else j_root j, cur])"

lemma build_tree_confined:
  assumes "is_abs build"
    and base: "\<And>cur. j_kind j = ''delta'' \<Longrightarrow> link = Some cur \<Longrightarrow>
      map_of fs (key_of (delta_base j cur)) = Some Dir \<and> \<not> prefix (key_of build) (key_of (delta_base j cur))"
  shows "confined (key_of build) fs (snd (build_tree j link cancelled ctx_start ar build fs))"
proof (cases "j_kind j = ''full''")
  case True
  then show ?thesis using unzipAll_confined [OF assms(1), of fs cancelled ar]
    by (cases "unzipAll cancelled ar build fs") (simp add: build_tree_def)
next
  case False
  show ?thesis
  proof (cases "j_kind j = ''delta'' \<and> link \<noteq> None")
    case True
    then obtain cur where cur: "link = Some cur" by auto
    have "confined (key_of build) fs (snd (Apply ctx_start cancelled (delta_base j cur) ar build fs))"
      using base [OF _ cur] True by (intro Apply_confined [OF assms(1)]) simp_all
    then show ?thesis using False True cur
      by (cases "Apply ctx_start cancelled (delta_base j cur) ar build fs") (simp add: build_tree_def Let_def delta_base_def)
  qed (use False in \<open>auto simp: build_tree_def Let_def split: option.splits\<close>)
qed

lemma scratch_confined:
  assumes "is_abs tmp" "mkdir_all fs (key_of tmp) = Some fs1"
    and "build_tree j link cancelled ctx_start ar (path_join [tmp, ''tree'']) fs1 = (r, fs2)"
    and dbase: "\<And>cur. j_kind j = ''delta'' \<Longrightarrow> link = Some cur \<Longrightarrow>
      map_of fs (key_of (delta_base j cur)) = Some Dir \<and> \<not> prefix (key_of tmp) (key_of (delta_base j cur))"
  shows "confined (key_of tmp @ [''tree'']) fs fs2"
proof -
  note b = join_elem [OF assms(1) versions_elem(3,4)]
  have mk: "\<forall>k. map_of fs1 k \<noteq> map_of fs k \<longrightarrow> prefix k (key_of tmp) \<and> map_of fs k = None \<and> map_of fs1 k = Some Dir"
    using mkdir_from_ok [of fs "[]" "key_of tmp" fs1] assms(2) by (simp add: mkdir_all_def)
  then have c1: "confined (key_of tmp @ [''tree'']) fs fs1" unfolding confined_def by (metis prefix_snoc)
  have "confined (key_of tmp @ [''tree'']) fs1 (snd (build_tree j link cancelled ctx_start ar (path_join [tmp, ''tree'']) fs1))"
  proof (unfold b(2) [symmetric], rule build_tree_confined [OF b(1)])
    fix cur assume "j_kind j = ''delta''" "link = Some cur"
    from dbase [OF this] show "map_of fs1 (key_of (delta_base j cur)) = Some Dir \<and>
        \<not> prefix (key_of (path_join [tmp, ''tree''])) (key_of (delta_base j cur))"
      using mk unfolding b(2) by (metis append_prefixD option.distinct(1))
  qed
  with c1 show ?thesis unfolding assms(3) by (auto intro: confined_trans)
qed

section \<open>Switching links\<close>

lemma attempt_cases:
  assumes "attempt_call fault c h = (b, h')"
  obtains "\<not> b" "h' = h" | s where "b" "link_call c (hd h) = Some s" "h' = s # h" "\<not> fault c"
  using assms by (auto simp: attempt_call_def split: if_splits option.splits)

lemma call_effect:
  assumes "link_call c x = Some y"
  shows "l_trees y = l_trees x"
    and "c \<noteq> RemoveCurrent \<Longrightarrow> c \<noteq> RenameTmp \<Longrightarrow> l_current y = l_current x"
    and "c = RenameTmp \<Longrightarrow> l_current y = l_tmp x"
    and "c \<noteq> RemovePrev \<Longrightarrow> (\<And>t. c \<noteq> LinkPrev t) \<Longrightarrow> l_previous y = l_previous x"
    and "c = LinkPrev t \<Longrightarrow> l_previous y = Some t"
    and "c = LinkTmp t \<Longrightarrow> l_tmp y = Some t"
    and "c = RemoveCurrent \<Longrightarrow> l_tmp y = l_tmp x"
  using assms by (cases c; auto split: if_splits option.splits)+

lemma attempt_effect:
  assumes "attempt_call fault c h = (b, h')" "h \<noteq> []"
  shows "h' \<noteq> []" "l_trees (hd h') = l_trees (hd h)"
    and "c \<noteq> RemoveCurrent \<Longrightarrow> c \<noteq> RenameTmp \<Longrightarrow> l_current (hd h') = l_current (hd h)"
    and "b \<Longrightarrow> c = RenameTmp \<Longrightarrow> l_current (hd h') = l_tmp (hd h)"
    and "c \<noteq> RemovePrev \<Longrightarrow> (\<And>t. c \<noteq> LinkPrev t) \<Longrightarrow> l_previous (hd h') = l_previous (hd h)"
    and "b \<Longrightarrow> c = LinkPrev t \<Longrightarrow> l_previous (hd h') = Some t"
    and "b \<Longrightarrow> c = LinkTmp t \<Longrightarrow> l_tmp (hd h') = Some t"
    and "c = RemoveCurrent \<Longrightarrow> l_tmp (hd h') = l_tmp (hd h)"
    and "\<not> b \<Longrightarrow> h' = h"
proof -
  consider "\<not> b" "h' = h" | y where b "link_call c (hd h) = Some y" "h' = y # h"
    using assms(1) by (cases rule: attempt_cases) blast+
  note c = this
  show "h' \<noteq> []" "l_trees (hd h') = l_trees (hd h)" "\<not> b \<Longrightarrow> h' = h"
    using c assms(2) call_effect(1) by (cases; simp)+
  show "c \<noteq> RemoveCurrent \<Longrightarrow> c \<noteq> RenameTmp \<Longrightarrow> l_current (hd h') = l_current (hd h)"
    by (rule c; simp add: call_effect(2))
  show "b \<Longrightarrow> c = RenameTmp \<Longrightarrow> l_current (hd h') = l_tmp (hd h)" using c call_effect(3) by (metis list.sel(1))
  show "c \<noteq> RemovePrev \<Longrightarrow> (\<And>t. c \<noteq> LinkPrev t) \<Longrightarrow> l_previous (hd h') = l_previous (hd h)"
    by (rule c; simp add: call_effect(4))
  show "b \<Longrightarrow> c = LinkPrev t \<Longrightarrow> l_previous (hd h') = Some t" using c call_effect(5) by (metis list.sel(1))
  show "b \<Longrightarrow> c = LinkTmp t \<Longrightarrow> l_tmp (hd h') = Some t" using c call_effect(6) by (metis list.sel(1))
  show "c = RemoveCurrent \<Longrightarrow> l_tmp (hd h') = l_tmp (hd h)" using c call_effect(7) by (metis list.sel(1))
qed

text \<open>On Unix every state of a switch shows the old target or the new one.\<close>

definition on_the_way :: "links \<Rightarrow> string \<Rightarrow> trail \<Rightarrow> bool" where
  "on_the_way s t h \<longleftrightarrow> h \<noteq> [] \<and> (\<forall>x \<in> set h. l_trees x = l_trees s \<and> (l_current x = l_current s \<or> l_current x = Some t))"

lemma on_the_way_call:
  assumes way: "on_the_way s t h" and c: "c \<noteq> RemoveCurrent" "c = RenameTmp \<Longrightarrow> l_tmp (hd h) = Some t"
    and a: "attempt_call fault c h = (b, h')"
  shows "on_the_way s t h'"
  using a
proof (cases rule: attempt_cases)
  case (2 x)
  have "hd h \<in> set h" using way by (simp add: on_the_way_def)
  then have h: "l_trees (hd h) = l_trees s \<and> (l_current (hd h) = l_current s \<or> l_current (hd h) = Some t)"
    using way by (auto simp: on_the_way_def)
  have "l_trees x = l_trees s" using call_effect(1) [OF 2(2)] h by simp
  moreover have "l_current x = l_current s \<or> l_current x = Some t"
    using call_effect(2,3) [OF 2(2)] h c by (cases "c = RenameTmp") auto
  ultimately show ?thesis using way 2 by (auto simp: on_the_way_def)
qed (use way in simp)

lemma switch_result:
  assumes "switch_to windows fault t a h = (r, h')" "h \<noteq> []"
  shows "(\<forall>v. r = Inr v \<longrightarrow> v = a \<and> l_current (hd h') = Some t \<and> l_previous (hd h') = l_previous (hd h) \<and> l_trees (hd h') = l_trees (hd h))"
    and "\<not> windows \<Longrightarrow> (\<forall>e. r = Inl e \<longrightarrow> l_current (hd h') = l_current (hd h))"
    and "\<not> windows \<Longrightarrow> on_the_way s t h \<Longrightarrow> on_the_way s t h'" and "h' \<noteq> []"
proof -
  obtain b0 h0 where 0: "attempt_call fault RemoveTmp h = (b0, h0)" by fastforce
  obtain b1 h1 where 1: "attempt_call fault (LinkTmp t) h0 = (b1, h1)" by fastforce
  note e0 = attempt_effect [OF 0 assms(2)]
  note e1 = attempt_effect [OF 1 e0(1)]
  obtain bw hw where w: "(if windows then attempt_call fault RemoveCurrent h1 else (True, h1)) = (bw, hw)" by fastforce
  have ew: "hw \<noteq> []" "l_trees (hd hw) = l_trees (hd h1)" "l_previous (hd hw) = l_previous (hd h1)" "l_tmp (hd hw) = l_tmp (hd h1)"
    "\<not> windows \<Longrightarrow> hw = h1"
  proof -
    show "\<not> windows \<Longrightarrow> hw = h1" using w by simp
    have "hw \<noteq> [] \<and> l_trees (hd hw) = l_trees (hd h1) \<and> l_previous (hd hw) = l_previous (hd h1) \<and> l_tmp (hd hw) = l_tmp (hd h1)"
    proof (cases windows)
      case True
      with w have a: "attempt_call fault RemoveCurrent h1 = (bw, hw)" by simp
      show ?thesis using attempt_effect(1,2,5,8) [OF a e1(1)] by simp
    qed (use w e1(1) in simp)
    then show "hw \<noteq> []" "l_trees (hd hw) = l_trees (hd h1)" "l_previous (hd hw) = l_previous (hd h1)" "l_tmp (hd hw) = l_tmp (hd h1)"
      by blast+
  qed
  obtain b2 h2 where 2: "attempt_call fault RenameTmp hw = (b2, h2)" by fastforce
  note e2 = attempt_effect [OF 2 ew(1)]
  obtain b3 h3 where 3: "attempt_call fault RemoveTmp h2 = (b3, h3)" by fastforce
  note e3 = attempt_effect [OF 3 e2(1)]
  have rep: "replaceLink windows fault h1 = (b2, h2)" using w 2 by (auto simp: replaceLink_def split: if_splits)
  consider (nolink) "\<not> b1" "r = Inl LinkFailed" "h' = h1" | (noswitch) b1 "\<not> b2" "r = Inl SwitchFailed" "h' = h3"
    | (switched) b1 b2 "r = Inr a" "h' = h2"
  proof -
    have "switch_to windows fault t a h = (if \<not> b1 then (Inl LinkFailed, h1) else if \<not> b2 then (Inl SwitchFailed, h3) else (Inr a, h2))"
      by (simp add: switch_to_def 0 1 rep 3)
    with assms(1) that show thesis by (cases b1; cases b2) simp_all
  qed
  note cs = this
  show "\<forall>v. r = Inr v \<longrightarrow> v = a \<and> l_current (hd h') = Some t \<and> l_previous (hd h') = l_previous (hd h) \<and> l_trees (hd h') = l_trees (hd h)"
    by (rule cs) (simp_all add: e2(2,4,5) ew(2-4) e1(2,5,7) e0(2,5))
  show "h' \<noteq> []" by (rule cs) (simp_all add: e1(1) e2(1) e3(1))
  assume nw: "\<not> windows"
  show "\<forall>e. r = Inl e \<longrightarrow> l_current (hd h') = l_current (hd h)"
    by (rule cs) (simp_all add: e3(3) e2(9) ew(5) [OF nw] e1(3) e0(3))
  assume way: "on_the_way s t h"
  have w0: "on_the_way s t h0" by (rule on_the_way_call [OF way _ _ 0]) simp_all
  have w1: "on_the_way s t h1" by (rule on_the_way_call [OF w0 _ _ 1]) simp_all
  have w2: "on_the_way s t h2" if b1
    using on_the_way_call [OF _ _ _ 2, of s t] w1 ew(5) [OF nw] e1(7) that by simp
  have w3: "on_the_way s t h3" if b1 by (rule on_the_way_call [OF w2 [OF that] _ _ 3]) simp_all
  show "on_the_way s t h'" by (rule cs) (simp_all add: w1 w2 w3)
qed

lemma anchor_result:
  assumes "attempt_call fault (LinkPrev cur) (snd (attempt_call fault RemovePrev h)) = (b, h1)" "h \<noteq> []"
  shows "h1 \<noteq> []" "l_current (hd h1) = l_current (hd h)" "l_trees (hd h1) = l_trees (hd h)"
    "b \<Longrightarrow> l_previous (hd h1) = Some cur" "on_the_way s t h \<Longrightarrow> on_the_way s t h1"
proof -
  obtain b0 h0 where 0: "attempt_call fault RemovePrev h = (b0, h0)" by fastforce
  note e0 = attempt_effect [OF 0 assms(2)]
  have 1: "attempt_call fault (LinkPrev cur) h0 = (b, h1)" using assms(1) 0 by simp
  note e1 = attempt_effect [OF 1 e0(1)]
  show "h1 \<noteq> []" "l_current (hd h1) = l_current (hd h)" "l_trees (hd h1) = l_trees (hd h)" "b \<Longrightarrow> l_previous (hd h1) = Some cur"
    using e1 e0 by simp_all
  show "on_the_way s t h \<Longrightarrow> on_the_way s t h1"
    using on_the_way_call [OF _ _ _ 0, of s t] on_the_way_call [OF _ _ _ 1, of s t] by simp
qed

lemma Activate_cases:
  assumes "Activate windows fault root target h = (r, h')" "h \<noteq> []"
  obtains (refused) e where "r = Inl e" "h' = h"
  | (anchor) h1 where "r = Inl AnchorFailed" "h1 = h'" "l_current (hd h') = l_current (hd h)" "l_trees (hd h') = l_trees (hd h)"
      "\<And>s t. on_the_way s t h \<Longrightarrow> on_the_way s t h'"
  | (switch) h1 a where "target \<in> l_trees (hd h)" "elem_ok target" "target \<noteq> dotdot" "h1 \<noteq> []"
      "switch_to windows fault (''versions/'' @ target) a h1 = (r, h')"
      "l_current (hd h1) = l_current (hd h)" "l_trees (hd h1) = l_trees (hd h)"
      "l_previous (hd h1) = (case l_current (hd h) of None \<Rightarrow> l_previous (hd h) | Some c \<Rightarrow> Some c)"
      "a = Current (hd h)" "\<And>s t. on_the_way s t h \<Longrightarrow> on_the_way s t h1"
proof (cases "is_ok (VersionDir root target) \<and> target \<in> l_trees (hd h)")
  case False
  then have "\<exists>e. Activate windows fault root target h = (Inl e, h)" by (cases "VersionDir root target") (auto simp: Activate_def)
  with assms(1) refused show thesis by auto
next
  case True
  then obtain d where d: "VersionDir root target = Inr d" by (auto simp: is_ok_iff)
  note v = VersionDir_ok [OF d] link_name [OF VersionDir_ok(1,2) [OF d]]
  show thesis
  proof (cases "l_current (hd h)")
    case None
    then show thesis using assms True d v by (intro switch [of h "[]"]) (simp_all add: Activate_def Current_def)
  next
    case (Some cur)
    obtain b h1 where a: "attempt_call fault (LinkPrev cur) (snd (attempt_call fault RemovePrev h)) = (b, h1)" by fastforce
    note an = anchor_result [OF a assms(2)]
    show thesis
    proof (cases b)
      case False
      then show thesis using assms True d a an Some by (intro anchor [of h1]) (simp_all add: Activate_def)
    next
      case b: True
      then show thesis using assms True d a an Some v by (intro switch [of h1 "base cur"]) (simp_all add: Activate_def Current_def)
    qed
  qed
qed

section \<open>Properties\<close>

text \<open>
  C15. Activation on Unix is atomic whatever system call fails and wherever the updater is killed: in every
  state it passes through, \<open>current\<close> is the old link or the new version's, the installed trees are untouched.
  Success means that the target is the current version, was assembled, and that the old link is anchored in
  \<open>previous\<close>; failure leaves \<open>current\<close> as it was.
\<close>

theorem activation_atomic:
  assumes "Activate False fault root target [s] = (r, h)"
  shows "(\<forall>x \<in> set h. l_trees x = l_trees s \<and> (l_current x = l_current s \<or> l_current x = Some (''versions/'' @ target))) \<and>
    (\<forall>v. r = Inr v \<longrightarrow> v = Current s \<and> Current (hd h) = target \<and> target \<in> l_trees s \<and>
       l_previous (hd h) = (case l_current s of None \<Rightarrow> l_previous s | Some c \<Rightarrow> Some c)) \<and>
    (\<forall>e. r = Inl e \<longrightarrow> l_current (hd h) = l_current s)"
proof -
  have way: "on_the_way s t [s]" for t by (simp add: on_the_way_def)
  have ne: "[s] \<noteq> []" by simp
  from assms ne show ?thesis
  proof (cases rule: Activate_cases)
    case (refused e)
    then show ?thesis using way by simp
  next
    case (anchor h1)
    from anchor(5) [OF way, of "''versions/'' @ target"] anchor show ?thesis by (simp add: on_the_way_def)
  next
    case (switch h1 a)
    note res = switch_result [OF switch(5,4)]
    have way: "on_the_way s (''versions/'' @ target) h" by (rule res(3) [OF _ switch(10) [OF way]]) simp
    have name: "base (''versions/'' @ target) = target" by (rule link_name(2) [OF switch(2,3)])
    have "v = Current s \<and> Current (hd h) = target \<and> target \<in> l_trees s \<and>
        l_previous (hd h) = (case l_current s of None \<Rightarrow> l_previous s | Some c \<Rightarrow> Some c)" if "r = Inr v" for v
      using res(1) [rule_format, OF that] switch(1,8,9) name by (simp add: Current_def split: option.splits)
    moreover have "l_current (hd h) = l_current s" if "r = Inl e" for e
      using res(2) [rule_format, OF _ that] switch(6) by simp
    ultimately show ?thesis using way by (simp add: on_the_way_def)
  qed
qed

theorem activation_atomic_witness:
  "let s = \<lparr>l_trees = {''1.0.0'', ''1.1.0''}, l_current = Some ''versions/1.0.0'', l_previous = None, l_tmp = Some ''stale''\<rparr>
   in fst (Activate False (\<lambda>_. False) ''/opt'' ''1.1.0'' [s]) = Inr ''1.0.0'' \<and>
      Current (hd (snd (Activate False (\<lambda>_. False) ''/opt'' ''1.1.0'' [s]))) = ''1.1.0''"
proof -
  let ?s = "\<lparr>l_trees = {''1.0.0'', ''1.1.0''}, l_current = Some ''versions/1.0.0'', l_previous = None, l_tmp = Some ''stale''\<rparr>"
  have f: "fst (Activate False (\<lambda>_. False) ''/opt'' ''1.1.0'' [?s]) = Inr ''1.0.0''" by code_simp
  obtain r h where a: "Activate False (\<lambda>_. False) ''/opt'' ''1.1.0'' [?s] = (r, h)" by fastforce
  with f activation_atomic [OF a] show ?thesis by (simp add: Let_def)
qed

lemma switch_succeeds:
  assumes "h \<noteq> []"
  shows "\<exists>h'. switch_to windows (\<lambda>_. False) t a h = (Inr a, h') \<and> h' \<noteq> [] \<and> l_current (hd h') = Some t"
  using assms by (cases h) (auto simp: switch_to_def replaceLink_def attempt_call_def)

text \<open>
  C21. Rolling back undoes an activation: after any successful activation over an installed version, on either
  platform and whatever failed harmlessly on the way, a rollback whose system calls succeed points
  \<open>current\<close> at the old version again.
\<close>

theorem rollback_restores:
  assumes "Activate windows fault root target [s] = (Inr v, h)" and "l_current s = Some cur"
  shows "\<exists>h'. Rollback windows (\<lambda>_. False) h = (Inr v, h') \<and> l_current (hd h') = Some cur \<and> Current (hd h') = Current s"
proof -
  have ne: "[s] \<noteq> []" by simp
  from assms(1) ne obtain h1 a where h1: "h1 \<noteq> []" and sw: "switch_to windows fault (''versions/'' @ target) a h1 = (Inr v, h)"
    and p: "l_previous (hd h1) = (case l_current (hd [s]) of None \<Rightarrow> l_previous (hd [s]) | Some c \<Rightarrow> Some c)" and a: "a = Current (hd [s])"
    by (cases rule: Activate_cases) auto
  have v: "v = Current s" and prev: "l_previous (hd h) = Some cur"
    using switch_result(1) [OF sw h1] p a assms(2) by simp_all
  have "h \<noteq> []" by (rule switch_result(4) [OF sw h1])
  from switch_succeeds [OF this, of windows cur "base cur"] obtain h' where
    "switch_to windows (\<lambda>_. False) cur (base cur) h = (Inr (base cur), h')" "l_current (hd h') = Some cur" by blast
  then show ?thesis using prev v assms(2) by (simp add: Rollback_def Current_def)
qed

theorem rollback_restores_witness:
  "let s = \<lparr>l_trees = {''1.0.0'', ''1.1.0''}, l_current = Some ''versions/1.0.0'', l_previous = None, l_tmp = None\<rparr>
   in \<exists>h h'. Activate True (\<lambda>c. c = RemovePrev) ''/opt'' ''1.1.0'' [s] = (Inr ''1.0.0'', h) \<and>
      Rollback True (\<lambda>_. False) h = (Inr ''1.0.0'', h') \<and> Current (hd h') = ''1.0.0''"
proof -
  let ?s = "\<lparr>l_trees = {''1.0.0'', ''1.1.0''}, l_current = Some ''versions/1.0.0'', l_previous = None, l_tmp = None\<rparr>"
  have f: "fst (Activate True (\<lambda>c. c = RemovePrev) ''/opt'' ''1.1.0'' [?s]) = Inr ''1.0.0''" by code_simp
  have c: "Current ?s = ''1.0.0''" by code_simp
  obtain h where a: "Activate True (\<lambda>c. c = RemovePrev) ''/opt'' ''1.1.0'' [?s] = (Inr ''1.0.0'', h)"
    using f by (metis prod.collapse)
  with rollback_restores [OF a, of "''versions/1.0.0''"] c show ?thesis by (auto simp: Let_def)
qed

text \<open>
  Activating the active version a second time loses the rollback anchor: after it, \<open>previous\<close> is the
  active version itself, and a rollback that reports success leaves that version current.
\<close>

theorem double_activation_loses_anchor:
  "\<exists>s h1 h2 h3. Activate False (\<lambda>_. False) ''/opt'' ''1.1.0'' [s] = (Inr ''1.0.0'', h1) \<and>
     Activate False (\<lambda>_. False) ''/opt'' ''1.1.0'' h1 = (Inr ''1.1.0'', h2) \<and>
     Rollback False (\<lambda>_. False) h2 = (Inr ''1.1.0'', h3) \<and> Current (hd h3) = ''1.1.0''"
proof -
  let ?s = "\<lparr>l_trees = {''1.0.0'', ''1.1.0''}, l_current = Some ''versions/1.0.0'', l_previous = None, l_tmp = None\<rparr>"
  let ?a = "Activate False (\<lambda>_. False) ''/opt'' ''1.1.0''"
  have "fst (?a [?s]) = Inr ''1.0.0''" "fst (?a (snd (?a [?s]))) = Inr ''1.1.0''"
    "fst (Rollback False (\<lambda>_. False) (snd (?a (snd (?a [?s]))))) = Inr ''1.1.0''"
    "Current (hd (snd (Rollback False (\<lambda>_. False) (snd (?a (snd (?a [?s]))))))) = ''1.1.0''" by code_simp+
  then show ?thesis by (metis prod.collapse)
qed

text \<open>
  On Windows a switch whose rename fails leaves the installation without a current version: the old link
  is removed first and not put back. (The anchor is still there, so a rollback can repair it.)
\<close>

theorem windows_failed_switch_unsets_current:
  "\<exists>s h. Activate True (\<lambda>c. c = RenameTmp) ''/opt'' ''1.1.0'' [s] = (Inl SwitchFailed, h) \<and>
     Current s = ''1.0.0'' \<and> l_current (hd h) = None \<and> l_previous (hd h) = Some ''versions/1.0.0''"
proof -
  let ?s = "\<lparr>l_trees = {''1.0.0'', ''1.1.0''}, l_current = Some ''versions/1.0.0'', l_previous = None, l_tmp = None\<rparr>"
  let ?a = "Activate True (\<lambda>c. c = RenameTmp) ''/opt'' ''1.1.0'' [?s]"
  have "fst ?a = Inl SwitchFailed" "Current ?s = ''1.0.0''" "l_current (hd (snd ?a)) = None"
    "l_previous (hd (snd ?a)) = Some ''versions/1.0.0''" by code_simp+
  then show ?thesis by (metis prod.collapse)
qed

text \<open>The three ways an assembly can end.\<close>

lemma Assemble_cases:
  assumes asm: "Assemble j link cancelled ctx_start ctx_end ar tmp fs = (r, fs')"
    and abs: "is_abs (j_root j)" "is_abs tmp"
  obtains (same) "fs' = fs"
      "is_ok r \<Longrightarrow> map_of fs ((key_of (j_root j) @ [''versions'']) @ [j_target j]) \<noteq> None"
    | (failed) fs1 r2 fs2 where "\<not> is_ok r" "mkdir_all fs (key_of tmp) = Some fs1"
        "build_tree j link cancelled ctx_start ar (path_join [tmp, ''tree'']) fs1 = (r2, fs2)" "fs' = remove_all (key_of tmp) fs2"
    | (built) d fs1 fs2 fs3 where "r = Inr d" "map_of fs ((key_of (j_root j) @ [''versions'']) @ [j_target j]) = None"
        "mkdir_all fs (key_of tmp) = Some fs1" "build_tree j link cancelled ctx_start ar (path_join [tmp, ''tree'']) fs1 = (Inr (), fs2)"
        "mkdir_all fs2 (key_of (j_root j) @ [''versions'']) = Some fs3" "fs' = remove_all (key_of tmp) (rename_tree (key_of tmp @ [''tree'']) ((key_of (j_root j) @ [''versions'']) @ [j_target j]) fs3)"
proof (cases "VersionDir (j_root j) (j_target j)")
  case (Inl e)
  then have "r = Inl e" "fs' = fs" using asm by (simp_all add: Assemble_def)
  then show thesis using that(1) by simp
next
  case (Inr d)
  note key = version_key [OF abs(1) Inr]
  show thesis
  proof (cases "map_of fs (key_of d) = None \<and> mkdir_all fs (key_of tmp) \<noteq> None")
    case False
    then have "fs' = fs" "is_ok r \<Longrightarrow> map_of fs ((key_of (j_root j) @ [''versions'']) @ [j_target j]) \<noteq> None"
      using asm Inr key by (auto simp: Assemble_def split: option.splits if_splits)
    then show thesis using that(1) by blast
  next
    case True
    then obtain fs1 where fs1: "mkdir_all fs (key_of tmp) = Some fs1" by auto
    obtain r2 fs2 where bt: "build_tree j link cancelled ctx_start ar (path_join [tmp, ''tree'']) fs1 = (r2, fs2)" by fastforce
    show thesis
    proof (cases "is_ok r2 \<and> \<not> ctx_end \<and> mkdir_all fs2 (key_of (j_root j) @ [''versions'']) \<noteq> None")
      case False
      then have "\<not> is_ok r \<and> fs' = remove_all (key_of tmp) fs2"
        using asm Inr True fs1 bt key by (cases r2) (auto simp: Assemble_def Let_def split: option.splits if_splits)
      then show thesis using that(2) fs1 bt by blast
    next
      case ok: True
      then obtain fs3 where "mkdir_all fs2 (key_of (j_root j) @ [''versions'']) = Some fs3" "r2 = Inr ()" by (cases r2) auto
      then show thesis using asm Inr True fs1 bt key join_elem [OF abs(2) versions_elem(3,4)] ok by (intro that(3) [of d fs1 fs2 fs3]) (simp_all add: Assemble_def Let_def)
    qed
  qed
qed



end
