(* ===== verification/Apps.thy ===== *)
theory Apps
  imports Path "HOL-Library.List_Lexorder" "HOL-Library.Char_ord"
begin

text \<open>
  Application identities for split tunnelling (\<open>apps/apps.go\<close>, \<open>apps/tasklist.go\<close>): the canonical id, the
  capped list of ids, the process table readers and the picker's list. Strings are UTF-8 bytes. The lower-case
  mapping spells out the two non-ASCII letters whose lower case is ASCII (the Kelvin sign and the dotted
  capital I); all other non-ASCII input keeps a byte outside the allowed characters and is refused either way.
\<close>

fun lower_runes :: "string \<Rightarrow> string" where
  "lower_runes [] = []"
| "lower_runes (c # s) =
     (if has_prefix (c # s) [CHR 0xE2, CHR 0x84, CHR 0xAA] then CHR ''k'' # lower_runes (drop 2 s)
      else if has_prefix (c # s) [CHR 0xC4, CHR 0xB0] then CHR ''i'' # lower_runes (drop 1 s)
      else if 65 \<le> byte c \<and> byte c \<le> 90 then char_of (byte c + 32) # lower_runes s
      else c # lower_runes s)"

definition app_char :: "char \<Rightarrow> bool" where
  "app_char c \<longleftrightarrow> 97 \<le> byte c \<and> byte c \<le> 122 \<or> is_digit c \<or> c \<in> {CHR ''.'', CHR ''_'', CHR ''-'', CHR ''+''}"

definition exe_suffix :: string where "exe_suffix = ''.exe''"

definition NormalizeAppID :: "string \<Rightarrow> string" where
  "NormalizeAppID s0 =
     (let s1 = trim_space s0
      in if s1 = [] then []
         else
           (let s = trim_space (base (map (\<lambda>c. if c = CHR 0x5C then CHR ''/'' else c) s1))
            in if s = [] \<or> s = ''.'' \<or> s = ''/'' then []
               else
                 (let lower = trim_suffix (lower_runes s) exe_suffix
                  in if lower = [] \<or> length lower > 128 \<or> \<not> list_all app_char lower then [] else lower)))"

text \<open>The loop of \<open>NormalizeList\<close>, with the ids kept so far.\<close>

fun collect_ids :: "int \<Rightarrow> string list \<Rightarrow> string list \<Rightarrow> string list" where
  "collect_ids mx out [] = out"
| "collect_ids mx out (s # ss) =
     (let appid = NormalizeAppID s
      in if appid = [] \<or> appid \<in> set out then collect_ids mx out ss
         else if int (length (out @ [appid])) \<ge> mx then out @ [appid]
         else collect_ids mx (out @ [appid]) ss)"

definition NormalizeList :: "string list \<Rightarrow> int \<Rightarrow> string list" where
  "NormalizeList ss mx = collect_ids (if mx \<le> 0 then 200 else mx) [] ss"

section \<open>The process table\<close>

record proc_entry =
  pe_name :: string
  pe_dir :: bool
  pe_exe :: "string option"
  pe_cmdline :: "string option"
  pe_comm :: "string option"

definition usable_base :: "string \<Rightarrow> string option" where
  "usable_base p = (let b = base (trim_space p) in if b \<noteq> [] \<and> b \<noteq> ''.'' \<and> b \<noteq> ''/'' then Some b else None)"

definition process_name :: "proc_entry \<Rightarrow> string option" where
  "process_name e =
     (case Option.bind (pe_exe e) usable_base of
        Some b \<Rightarrow> Some b
      | None \<Rightarrow>
          (case (case pe_cmdline e of
                   None \<Rightarrow> None
                 | Some raw \<Rightarrow> if raw = [] then None else usable_base (takeWhile (\<lambda>c. c \<noteq> CHR 0x00) raw)) of
             Some b \<Rightarrow> Some b
           | None \<Rightarrow>
               (case pe_comm e of
                  None \<Rightarrow> None
                | Some raw \<Rightarrow> if trim_space raw \<noteq> [] then Some (trim_space raw) else None)))"

definition linuxProcesses :: "proc_entry list option \<Rightarrow> string list" where
  "linuxProcesses table =
     (case table of
        None \<Rightarrow> []
      | Some es \<Rightarrow> List.map_filter process_name (filter (\<lambda>e. pe_dir e \<and> list_all is_digit (pe_name e)) es))"

definition parseTasklistLine :: "string \<Rightarrow> string" where
  "parseTasklistLine line0 =
     (let line = trim_space line0
      in case line of
           [] \<Rightarrow> []
         | q # rest \<Rightarrow>
             if q \<noteq> CHR 0x22 then []
             else case str_index rest [CHR 0x22] of
               None \<Rightarrow> []
             | Some e \<Rightarrow> if e = 0 then [] else trim_space (take e rest))"

definition windowsProcesses :: "string option \<Rightarrow> string list" where
  "windowsProcesses out =
     (case out of None \<Rightarrow> [] | Some t \<Rightarrow> filter (\<lambda>n. n \<noteq> []) (map parseTasklistLine (split_on (CHR 0x0A) t)))"

section \<open>The picker's list\<close>

record app =
  app_id :: string
  app_name :: string
  app_count :: nat

definition MaxApps :: nat where "MaxApps = 500"

fun add_app :: "string \<Rightarrow> app list \<Rightarrow> app list" where
  "add_app name [] = [\<lparr>app_id = NormalizeAppID name, app_name = trim_suffix name exe_suffix, app_count = 1\<rparr>]"
| "add_app name (a # as) =
     (if app_id a = NormalizeAppID name then a\<lparr>app_count := app_count a + 1\<rparr> # as else a # add_app name as)"

definition app_before :: "app \<Rightarrow> app \<Rightarrow> bool" where
  "app_before a b \<longleftrightarrow> (if app_count a \<noteq> app_count b then app_count a > app_count b else app_name a \<le> app_name b)"

fun insert_app :: "app \<Rightarrow> app list \<Rightarrow> app list" where
  "insert_app a [] = [a]"
| "insert_app a (b # bs) = (if app_before a b then a # b # bs else b # insert_app a bs)"

text \<open>\<open>List\<close>; apps that the order does not tell apart come in some order in the code, as the map yields them.\<close>

definition list_apps :: "string list \<Rightarrow> app list" where
  "list_apps raw =
     (let counted = fold (\<lambda>n as. if NormalizeAppID n = [] then as else add_app n as) raw []
      in take MaxApps (foldr insert_app counted []))"

section \<open>Lemmas\<close>

lemma NormalizeAppID_cases:
  "NormalizeAppID s = [] \<or> length (NormalizeAppID s) \<le> 128 \<and> list_all app_char (NormalizeAppID s)"
  by (auto simp: NormalizeAppID_def Let_def)

definition app_id_ok :: "string \<Rightarrow> bool" where
  "app_id_ok x \<longleftrightarrow> x \<noteq> [] \<and> length x \<le> 128 \<and> list_all app_char x"

lemma NormalizeAppID_ok: "NormalizeAppID s \<noteq> [] \<Longrightarrow> app_id_ok (NormalizeAppID s)"
  using NormalizeAppID_cases [of s] by (simp add: app_id_ok_def)

lemma collect_ids_ok:
  "distinct out \<Longrightarrow> list_all app_id_ok out \<Longrightarrow> int (length out) < mx \<Longrightarrow>
     distinct (collect_ids mx out ss) \<and> list_all app_id_ok (collect_ids mx out ss) \<and> int (length (collect_ids mx out ss)) \<le> mx"
proof (induction ss arbitrary: out)
  case (Cons s ss)
  show ?case
  proof (cases "NormalizeAppID s = [] \<or> NormalizeAppID s \<in> set out")
    case True
    then show ?thesis using Cons by (simp add: Let_def)
  next
    case False
    then have "distinct (out @ [NormalizeAppID s])" "list_all app_id_ok (out @ [NormalizeAppID s])"
      using Cons.prems NormalizeAppID_ok by simp_all
    with False Cons.prems(3) Cons.IH [of "out @ [NormalizeAppID s]"] show ?thesis by (simp add: Let_def)
  qed
qed simp

lemma NormalizeList_ok:
  "distinct (NormalizeList ss mx) \<and> list_all app_id_ok (NormalizeList ss mx) \<and>
   int (length (NormalizeList ss mx)) \<le> (if mx \<le> 0 then 200 else mx)"
  using collect_ids_ok [of "[]" "if mx \<le> 0 then 200 else mx" ss] by (simp add: NormalizeList_def)

lemma app_char_plain: "app_char c \<Longrightarrow> solid_first c \<and> solid_last c \<and> c \<noteq> CHR ''/'' \<and> c \<noteq> CHR 0x5C \<and>
    \<not> (65 \<le> byte c \<and> byte c \<le> 90) \<and> c \<noteq> CHR 0xE2 \<and> c \<noteq> CHR 0xC4"
  by (auto simp: app_char_def is_digit_def solid_first_def solid_last_def space_seqs_def)

lemma lower_app: "list_all app_char s \<Longrightarrow> lower_runes s = s"
proof (induction s)
  case (Cons c s)
  then show ?case using app_char_plain [of c] by (auto simp: has_prefix_def)
qed simp

lemma base_plain: "s \<noteq> [] \<Longrightarrow> CHR ''/'' \<notin> set s \<Longrightarrow> base s = s"
proof -
  assume s: "s \<noteq> []" "CHR ''/'' \<notin> set s"
  then have "hd (rev s) \<noteq> CHR ''/''" by (metis hd_in_set rev_is_Nil_conv set_rev)
  with s have "dropWhile (\<lambda>c. c = CHR ''/'') (rev s) = rev s" by (cases "rev s") auto
  moreover have "takeWhile (\<lambda>c. c \<noteq> CHR ''/'') (rev s) = rev s" using s(2) by (subst takeWhile_eq_all_conv) auto
  ultimately show ?thesis using s(1) by (simp only: base_def Let_def rev_is_Nil_conv if_False rev_rev_ident)
qed

lemma normalize_canonical:
  assumes "list_all app_char s" "s \<noteq> []" "s \<noteq> ''.''" "length s \<le> 128" "\<not> has_suffix s exe_suffix"
  shows "NormalizeAppID s = s"
proof -
  have p: "solid_first c" "solid_last c" "c \<noteq> CHR ''/''" "c \<noteq> CHR 0x5C" if "c \<in> set s" for c
    using app_char_plain [of c] assms(1) that by (auto simp: list_all_iff)
  have t: "trim_space s = s" using assms(2) p by (intro trim_space_solid) auto
  have m: "map (\<lambda>c. if c = CHR 0x5C then CHR ''/'' else c) s = s" using p(4) by (intro map_idI) auto
  have b: "base s = s" using assms(2) p(3) by (intro base_plain) auto
  have "s \<noteq> ''/''" using p(3) by auto
  moreover have "trim_suffix s exe_suffix = s" using assms(5) by (simp add: trim_suffix_def)
  ultimately show ?thesis using assms by (simp add: NormalizeAppID_def t m b lower_app)
qed

lemma collect_stable:
  "distinct (out @ ss) \<Longrightarrow> (\<forall>x \<in> set ss. x \<noteq> [] \<and> NormalizeAppID x = x) \<Longrightarrow> int (length (out @ ss)) \<le> mx \<Longrightarrow>
     collect_ids mx out ss = out @ ss"
proof (induction ss arbitrary: out)
  case (Cons s ss)
  then have s: "NormalizeAppID s = s" "s \<noteq> []" "s \<notin> set out" by auto
  show ?case
  proof (cases "ss = []")
    case True
    then show ?thesis using s by (simp add: Let_def)
  next
    case False
    then have "1 \<le> int (length ss)" by (cases ss) auto
    then have "\<not> int (length (out @ [s])) \<ge> mx" using Cons.prems(3) by simp
    then show ?thesis using s Cons.IH [of "out @ [s]"] Cons.prems by (simp add: Let_def)
  qed
qed simp

end
