(* ===== verification/Settings.thy ===== *)
theory Settings
  imports Apps
begin

text \<open>
  The configuration record, its defaults, the conflict check and the repair of out-of-range values
  (\<open>settings/settings.go\<close>). Integers are the code's \<open>int\<close>; no arithmetic is done on them.
\<close>

record settings =
  AutoConnect :: bool
  AutoMode :: bool
  RoutingMode :: string
  DNSMode :: string
  TunEnabled :: bool
  KillSwitch :: bool
  MixedPort :: int
  TestTimeoutMs :: int
  UpdateOnStart :: bool
  Theme :: string
  URLTestIntervalMin :: int
  ConnectionTestURL :: string
  ClashAPIPort :: int
  CorePath :: string
  HelperPath :: string
  MTU :: int
  TestConcurrency :: int
  HealthIntervalSec :: int
  UpdateChannel :: string
  UpdateAutoCheck :: bool
  SplitMode :: string
  SplitApps :: "string list"

definition SplitOff :: string where "SplitOff = ''off''"
definition SplitBypass :: string where "SplitBypass = ''bypass''"
definition SplitOnly :: string where "SplitOnly = ''only''"
definition MaxSplitApps :: int where "MaxSplitApps = 200"

definition default_test_url :: string where
  "default_test_url = ''http://connectivitycheck.gstatic.com/generate_204''"

definition Defaults :: settings where
  "Defaults =
     \<lparr>AutoConnect = False, AutoMode = True, RoutingMode = ''global'', DNSMode = ''proxy-aware'', TunEnabled = True,
      KillSwitch = False, MixedPort = 10808, TestTimeoutMs = 5000, UpdateOnStart = True, Theme = ''dark'',
      URLTestIntervalMin = 10, ConnectionTestURL = default_test_url, ClashAPIPort = 16756, CorePath = [],
      HelperPath = [], MTU = 9000, TestConcurrency = 5, HealthIntervalSec = 30, UpdateChannel = ''stable'',
      UpdateAutoCheck = True, SplitMode = SplitOff, SplitApps = []\<rparr>"

definition Conflict :: "settings \<Rightarrow> bool" where
  "Conflict s \<longleftrightarrow> KillSwitch s \<and> SplitMode s \<noteq> [] \<and> SplitMode s \<noteq> SplitOff"

definition within :: "int \<Rightarrow> int \<Rightarrow> int \<Rightarrow> int \<Rightarrow> int" where
  "within lo hi d v = (if v < lo \<or> v > hi then d else v)"

definition one_of :: "string list \<Rightarrow> string \<Rightarrow> string \<Rightarrow> string" where
  "one_of allowed d v = (if v \<in> set allowed then v else d)"

definition Validate :: "settings \<Rightarrow> settings" where
  "Validate s =
     (let mode = one_of [SplitOff, SplitBypass, SplitOnly] SplitOff (SplitMode s)
      in s\<lparr>MixedPort := within 0 65535 10808 (MixedPort s),
           TestTimeoutMs := within 500 60000 5000 (TestTimeoutMs s),
           RoutingMode := one_of [''global'', ''rules''] ''global'' (RoutingMode s),
           DNSMode := one_of [''system'', ''custom'', ''proxy-aware''] ''proxy-aware'' (DNSMode s),
           URLTestIntervalMin := within 0 (24 * 60) 10 (URLTestIntervalMin s),
           ConnectionTestURL := (if ConnectionTestURL s = [] then default_test_url else ConnectionTestURL s),
           ClashAPIPort := within 0 65535 16756 (ClashAPIPort s),
           MTU := within 1280 9000 9000 (MTU s),
           TestConcurrency := within 1 50 5 (TestConcurrency s),
           HealthIntervalSec := within 5 600 30 (HealthIntervalSec s),
           UpdateChannel := one_of [''stable'', ''beta'', ''dev''] ''stable'' (UpdateChannel s),
           SplitMode := (if KillSwitch s \<and> mode \<noteq> SplitOff then SplitOff else mode),
           SplitApps := NormalizeList (SplitApps s) MaxSplitApps\<rparr>)"

section \<open>Lemmas\<close>

lemma within_bounds [simp]: "lo \<le> d \<Longrightarrow> d \<le> hi \<Longrightarrow> lo \<le> within lo hi d v \<and> within lo hi d v \<le> hi"
  by (simp add: within_def)

lemma within_idem [simp]: "within lo hi d (within lo hi d v) = within lo hi d v"
  by (simp add: within_def)

lemma one_of_mem [simp]: "d \<in> set as \<Longrightarrow> one_of as d v \<in> set as"
  by (simp add: one_of_def)

lemma one_of_idem [simp]: "one_of as d (one_of as d v) = one_of as d v"
  by (simp add: one_of_def)

lemma split_modes: "distinct [SplitOff, SplitBypass, SplitOnly]" "default_test_url \<noteq> []"
  by (simp_all add: SplitOff_def SplitBypass_def SplitOnly_def default_test_url_def)

lemma valid_numbers:
  "0 \<le> MixedPort (Validate s) \<and> MixedPort (Validate s) \<le> 65535"
  "500 \<le> TestTimeoutMs (Validate s) \<and> TestTimeoutMs (Validate s) \<le> 60000"
  "0 \<le> URLTestIntervalMin (Validate s) \<and> URLTestIntervalMin (Validate s) \<le> 1440"
  "0 \<le> ClashAPIPort (Validate s) \<and> ClashAPIPort (Validate s) \<le> 65535"
  "1280 \<le> MTU (Validate s) \<and> MTU (Validate s) \<le> 9000"
  "1 \<le> TestConcurrency (Validate s) \<and> TestConcurrency (Validate s) \<le> 50"
  "5 \<le> HealthIntervalSec (Validate s) \<and> HealthIntervalSec (Validate s) \<le> 600"
  by (simp_all add: Validate_def Let_def)

lemma valid_choices:
  "ConnectionTestURL (Validate s) \<noteq> []" "RoutingMode (Validate s) \<in> {''global'', ''rules''}"
  "DNSMode (Validate s) \<in> {''system'', ''custom'', ''proxy-aware''}" "UpdateChannel (Validate s) \<in> {''stable'', ''beta'', ''dev''}"
  "SplitMode (Validate s) \<in> {''off'', ''bypass'', ''only''}" "\<not> Conflict (Validate s)"
  using split_modes(2)
  by (simp_all add: Validate_def Let_def one_of_def Conflict_def SplitOff_def SplitBypass_def SplitOnly_def)

lemma valid_apps:
  "distinct (SplitApps (Validate s))" "length (SplitApps (Validate s)) \<le> 200"
  "list_all (\<lambda>a. a \<noteq> [] \<and> length a \<le> 128 \<and> list_all app_char a) (SplitApps (Validate s))"
  using NormalizeList_ok [of "SplitApps s" MaxSplitApps]
  by (simp_all add: Validate_def Let_def MaxSplitApps_def list_all_iff app_id_ok_def)

section \<open>Properties\<close>

text \<open>
  Whatever document is loaded, the validated settings are in range: ports, time-outs, intervals, MTU and
  concurrency within their bounds, modes and channel from their lists, at most 200 distinct well-formed
  application ids, and no combination of the kill switch with split tunnelling.
\<close>

theorem settings_in_range:
  "let t = Validate s in
     0 \<le> MixedPort t \<and> MixedPort t \<le> 65535 \<and> 500 \<le> TestTimeoutMs t \<and> TestTimeoutMs t \<le> 60000 \<and>
     0 \<le> URLTestIntervalMin t \<and> URLTestIntervalMin t \<le> 1440 \<and> 0 \<le> ClashAPIPort t \<and> ClashAPIPort t \<le> 65535 \<and>
     1280 \<le> MTU t \<and> MTU t \<le> 9000 \<and> 1 \<le> TestConcurrency t \<and> TestConcurrency t \<le> 50 \<and>
     5 \<le> HealthIntervalSec t \<and> HealthIntervalSec t \<le> 600 \<and> ConnectionTestURL t \<noteq> [] \<and>
     RoutingMode t \<in> {''global'', ''rules''} \<and> DNSMode t \<in> {''system'', ''custom'', ''proxy-aware''} \<and>
     UpdateChannel t \<in> {''stable'', ''beta'', ''dev''} \<and> SplitMode t \<in> {''off'', ''bypass'', ''only''} \<and> \<not> Conflict t \<and>
     distinct (SplitApps t) \<and> length (SplitApps t) \<le> 200 \<and>
     list_all (\<lambda>a. a \<noteq> [] \<and> length a \<le> 128 \<and> list_all app_char a) (SplitApps t)"
  unfolding Let_def using valid_numbers [of s] valid_choices [of s] valid_apps [of s] by simp

lemma NormalizeList_stable:
  assumes "list_all (\<lambda>a. a \<noteq> ''.'' \<and> \<not> has_suffix a exe_suffix) (NormalizeList ss MaxSplitApps)"
  shows "NormalizeList (NormalizeList ss MaxSplitApps) MaxSplitApps = NormalizeList ss MaxSplitApps"
proof -
  note ok = NormalizeList_ok [of ss MaxSplitApps]
  have "NormalizeAppID x = x" if "x \<in> set (NormalizeList ss MaxSplitApps)" for x
    using ok assms that by (intro normalize_canonical) (auto simp: app_id_ok_def list_all_iff)
  moreover have "x \<noteq> []" if "x \<in> set (NormalizeList ss MaxSplitApps)" for x
    using ok that by (auto simp: app_id_ok_def list_all_iff)
  moreover have "collect_ids MaxSplitApps [] ys = NormalizeList ys MaxSplitApps" for ys
    by (simp add: NormalizeList_def MaxSplitApps_def)
  ultimately show ?thesis using collect_stable [of "[]" "NormalizeList ss MaxSplitApps" MaxSplitApps] ok
    by (simp add: MaxSplitApps_def)
qed

text \<open>
  Validation settles: validating a validated configuration changes nothing, provided none of its
  application ids still ends in \<open>.exe\<close> or is a single dot; and the defaults are already valid.
\<close>

theorem settings_validate_idempotent:
  "(list_all (\<lambda>a. a \<noteq> ''.'' \<and> \<not> has_suffix a ''.exe'') (SplitApps (Validate s)) \<longrightarrow> Validate (Validate s) = Validate s) \<and>
   Validate Defaults = Defaults"
proof
  show "Validate Defaults = Defaults" by code_simp
  have "SplitMode (Validate s) \<in> set [SplitOff, SplitBypass, SplitOnly]" "KillSwitch (Validate s) = KillSwitch s"
    "KillSwitch s \<Longrightarrow> SplitMode (Validate s) = SplitOff"
    by (auto simp: Validate_def Let_def one_of_def)
  then have mode: "SplitMode (Validate (Validate s)) = SplitMode (Validate s)"
    by (auto simp: Validate_def [of "Validate s"] Let_def one_of_def)
  show "list_all (\<lambda>a. a \<noteq> ''.'' \<and> \<not> has_suffix a ''.exe'') (SplitApps (Validate s)) \<longrightarrow> Validate (Validate s) = Validate s"
  proof
    assume "list_all (\<lambda>a. a \<noteq> ''.'' \<and> \<not> has_suffix a ''.exe'') (SplitApps (Validate s))"
    then have "SplitApps (Validate (Validate s)) = SplitApps (Validate s)"
      using NormalizeList_stable [of "SplitApps s"] by (simp add: Validate_def Let_def exe_suffix_def)
    with mode show "Validate (Validate s) = Validate s"
      by (intro settings.equality) (simp_all add: Validate_def Let_def)
  qed
qed

theorem settings_validate_idempotent_witness:
  "Validate (Validate (Defaults\<lparr>MTU := 3, SplitApps := [''Firefox.EXE'']\<rparr>)) = Validate (Defaults\<lparr>MTU := 3, SplitApps := [''Firefox.EXE'']\<rparr>) \<and>
   SplitApps (Validate (Defaults\<lparr>MTU := 3, SplitApps := [''Firefox.EXE'']\<rparr>)) = [''firefox'']"
proof -
  have "SplitApps (Validate (Defaults\<lparr>MTU := 3, SplitApps := [''Firefox.EXE'']\<rparr>)) = [''firefox'']" by code_simp
  with settings_validate_idempotent [of "Defaults\<lparr>MTU := 3, SplitApps := [''Firefox.EXE'']\<rparr>"] show ?thesis
    by (simp add: has_suffix_def has_prefix_def)
qed

text \<open>
  The identity of an application is not stable under validation: an id whose name carries \<open>.exe\<close> twice
  loses one of them each time the settings are loaded, and one that reduces to a dot disappears.
\<close>

theorem app_identity_drifts:
  "\<exists>s. SplitApps (Validate s) = [''tool.exe'', ''.''] \<and> SplitApps (Validate (Validate s)) = [''tool'']"
proof -
  have "SplitApps (Validate (Defaults\<lparr>SplitApps := [''Tool.exe.exe'', ''..exe'']\<rparr>)) = [''tool.exe'', ''.'']"
    "SplitApps (Validate (Validate (Defaults\<lparr>SplitApps := [''Tool.exe.exe'', ''..exe'']\<rparr>))) = [''tool'']" by code_simp+
  then show ?thesis by blast
qed

end
