(* ===== verification/Quote.thy ===== *)
theory Quote
  imports Prelude
begin

text \<open>
  Command lines for the updater (\<open>update/spawn_quote.go\<close>, \<open>spawn_windows.go\<close>, \<open>spawn_linux.go\<close>). The
  readers on the other side are given by their documented rules: \<open>argv_split\<close> for \<open>CommandLineToArgvW\<close>
  (backslashes before a quote, quotes, blanks) and \<open>ps_read\<close> for a PowerShell single-quoted literal.
\<close>

definition quote :: char where "quote = CHR 0x22"
definition bslash :: char where "bslash = CHR 0x5C"
definition apos :: char where "apos = CHR 0x27"
definition tab :: char where "tab = CHR 0x09"
definition blank :: char where "blank = CHR 0x20"

lemma special_distinct [simp]:
  "quote \<noteq> bslash" "bslash \<noteq> quote" "blank \<noteq> quote" "blank \<noteq> bslash" "tab \<noteq> quote" "tab \<noteq> bslash"
  "quote \<noteq> blank" "bslash \<noteq> blank" "quote \<noteq> tab" "bslash \<noteq> tab" "tab \<noteq> blank" "blank \<noteq> tab"
  by (simp_all add: quote_def bslash_def blank_def tab_def)

section \<open>Quoting\<close>

fun double_apos :: "string \<Rightarrow> string" where
  "double_apos [] = []"
| "double_apos (c # s) = (if c = apos then apos # apos # double_apos s else c # double_apos s)"

definition psQuote :: "string \<Rightarrow> string" where
  "psQuote s = apos # double_apos s @ [apos]"

text \<open>The loop of \<open>winQuote\<close>; \<open>n\<close> backslashes are pending.\<close>

fun win_loop :: "nat \<Rightarrow> string \<Rightarrow> string" where
  "win_loop n [] = replicate (n * 2) bslash @ [quote]"
| "win_loop n (c # s) =
     (if c = bslash then win_loop (Suc n) s
      else if c = quote then replicate (n * 2 + 1) bslash @ quote # win_loop 0 s
      else replicate n bslash @ c # win_loop 0 s)"

definition winQuote :: "string \<Rightarrow> string" where
  "winQuote s = (if s \<noteq> [] \<and> \<not> contains_any s [blank, tab, quote] then s else quote # win_loop 0 s)"

section \<open>Command lines\<close>

definition windows_arguments :: "string list \<Rightarrow> string" where
  "windows_arguments args = join_with [blank] (map winQuote (tl args))"

definition powershell_script :: "string \<Rightarrow> string list \<Rightarrow> string" where
  "powershell_script bin args =
     ''$p = Start-Process -FilePath '' @ psQuote bin @ '' -ArgumentList '' @ psQuote (windows_arguments args) @
     '' -Verb RunAs -PassThru; $p.WaitForExit(); exit $p.ExitCode''"

definition updaterCommand :: "string \<Rightarrow> string list \<Rightarrow> string \<times> string list" where
  "updaterCommand bin args = (bin, tl args)"

definition elevateCommand :: "string \<Rightarrow> string list \<Rightarrow> string list \<Rightarrow> string \<times> string list" where
  "elevateCommand bin args runner = (hd runner, tl runner @ [bin] @ tl args)"

fun root_after :: "string list \<Rightarrow> string" where
  "root_after (a # b # as) = (if a = ''--install-root'' then b else root_after (b # as))"
| "root_after _ = []"

definition rootOf :: "string list \<Rightarrow> string" where
  "rootOf argv = root_after (tl argv)"

text \<open>The program started on Linux; \<open>None\<close> when elevation is needed and no runner is configured.\<close>

definition linux_command :: "(string \<Rightarrow> bool) \<Rightarrow> bool \<Rightarrow> string list \<Rightarrow> string \<Rightarrow> string list \<Rightarrow> (string \<times> string list) option" where
  "linux_command prod_root elevated runner bin args =
     (if prod_root (rootOf args) \<and> \<not> elevated then
        (if runner = [] then None else Some (elevateCommand bin args runner))
      else Some (updaterCommand bin args))"

section \<open>The readers\<close>

fun ps_read :: "string \<Rightarrow> (string \<times> string) option" where
  "ps_read [] = None"
| "ps_read (c # s) =
     (if c \<noteq> apos then map_option (\<lambda>(v, r). (c # v, r)) (ps_read s)
      else case s of
        d # s' \<Rightarrow> if d = apos then map_option (\<lambda>(v, r). (apos # v, r)) (ps_read s') else Some ([], s)
      | [] \<Rightarrow> Some ([], []))"

text \<open>
  State of the argument reader: inside quotes, backslashes pending, an argument has begun, its text so far.
\<close>

fun argv_loop :: "bool \<Rightarrow> nat \<Rightarrow> bool \<Rightarrow> string \<Rightarrow> string \<Rightarrow> string list" where
  "argv_loop q n b acc [] = (if b then [acc @ replicate n bslash] else [])"
| "argv_loop q n b acc (c # s) =
     (if c = bslash then argv_loop q (Suc n) True acc s
      else if c = quote then
        (if even n then argv_loop (\<not> q) 0 True (acc @ replicate (n div 2) bslash) s
         else argv_loop q 0 True (acc @ replicate (n div 2) bslash @ [quote]) s)
      else if (c = blank \<or> c = tab) \<and> \<not> q then
        (if b then (acc @ replicate n bslash) # argv_loop False 0 False [] s else argv_loop False 0 False [] s)
      else argv_loop q 0 True (acc @ replicate n bslash @ [c]) s)"

definition argv_split :: "string \<Rightarrow> string list" where
  "argv_split s = argv_loop False 0 False [] s"

section \<open>Lemmas\<close>

lemma ps_read_double: "r = [] \<or> hd r \<noteq> apos \<Longrightarrow> ps_read (double_apos s @ apos # r) = Some (s, r)"
proof (induction s)
  case Nil
  then show ?case by (cases r) simp_all
qed simp

lemma slashes: "argv_loop q n b acc (replicate k bslash @ s) = argv_loop q (n + k) (b \<or> k > 0) acc s"
  by (induction k arbitrary: n b) simp_all

text \<open>A quoted argument is read back, up to the closing quote.\<close>

lemma read_quoted:
  "argv_loop True 0 True acc (win_loop n s @ r) = argv_loop False 0 True (acc @ replicate n bslash @ s) r"
proof (induction n s arbitrary: acc rule: win_loop.induct)
  case (1 n)
  then show ?case by (simp add: slashes)
next
  case (2 n c s)
  show ?case
  proof (cases "c = bslash")
    case True
    then show ?thesis using "2.IH"(1) [of acc] by (simp add: replicate_app_Cons_same)
  next
    case False
    then show ?thesis using "2.IH"(2,3) by (cases "c = quote") (simp_all add: slashes)
  qed
qed

lemma plain_keeps:
  "set s \<inter> {blank, tab, quote} = {} \<Longrightarrow>
     \<exists>acc' n'. acc' @ replicate n' bslash = acc @ replicate n bslash @ s \<and>
       (\<forall>r. argv_loop False n b acc (s @ r) = argv_loop False n' (b \<or> s \<noteq> []) acc' r)"
proof (induction s arbitrary: n b acc)
  case Nil
  show ?case by (intro exI [of _ acc] exI [of _ n]) simp
next
  case (Cons c s)
  show ?case
  proof (cases "c = bslash")
    case True
    from Cons.IH [of acc "Suc n" True] Cons.prems obtain acc' n' where
      "acc' @ replicate n' bslash = acc @ replicate (Suc n) bslash @ s"
      "\<forall>r. argv_loop False (Suc n) True acc (s @ r) = argv_loop False n' True acc' r" by auto
    then show ?thesis using True by (intro exI [of _ acc'] exI [of _ n']) (simp add: replicate_app_Cons_same)
  next
    case False
    from Cons.IH [of "acc @ replicate n bslash @ [c]" 0 True] Cons.prems obtain acc' n' where
      "acc' @ replicate n' bslash = acc @ replicate n bslash @ c # s"
      "\<forall>r. argv_loop False 0 True (acc @ replicate n bslash @ [c]) (s @ r) = argv_loop False n' True acc' r" by auto
    then show ?thesis using False Cons.prems by (intro exI [of _ acc'] exI [of _ n']) auto
  qed
qed

lemma read_argument:
  "\<exists>acc n. acc @ replicate n bslash = s \<and> (\<forall>r. argv_loop False 0 False [] (winQuote s @ r) = argv_loop False n True acc r)"
proof (cases "s \<noteq> [] \<and> \<not> contains_any s [blank, tab, quote]")
  case True
  then have "set s \<inter> {blank, tab, quote} = {}" by (simp add: contains_any_iff)
  from plain_keeps [OF this, of "[]" 0 False] True show ?thesis by (simp add: winQuote_def)
next
  case False
  then have "winQuote s = quote # win_loop 0 s" by (auto simp: winQuote_def)
  then have "argv_loop False 0 False [] (winQuote s @ r) = argv_loop False 0 True s r" for r
    by (simp add: read_quoted)
  then show ?thesis by (intro exI [of _ s] exI [of _ 0]) simp
qed

lemma argv_join: "argv_split (join_with [blank] (map winQuote as)) = as"
proof (induction as rule: induct_list012)
  case 1
  then show ?case by (simp add: argv_split_def)
next
  case (2 a)
  obtain acc n where "acc @ replicate n bslash = a" "\<And>r. argv_loop False 0 False [] (winQuote a @ r) = argv_loop False n True acc r"
    using read_argument [of a] by blast
  from this(1) this(2) [of "[]"] show ?case by (simp add: argv_split_def)
next
  case (3 a b as)
  obtain acc n where "acc @ replicate n bslash = a" and r: "\<And>r. argv_loop False 0 False [] (winQuote a @ r) = argv_loop False n True acc r"
    using read_argument [of a] by blast
  then show ?case using r [of "blank # join_with [blank] (map winQuote (b # as))"] "3.IH"(2)
    by (simp add: argv_split_def)
qed

section \<open>Properties\<close>


end
