(* ===== verification/Servers.thy ===== *)
theory Servers
  imports Manifest
begin

text \<open>
  The server record, its validation, its deduplication key and its defaults
  (\<open>servers/servers.go\<close>). Protocol, transport, security and health are strings in the code and stay
  strings here, because every value comes from untrusted input until \<open>server_validate\<close> has accepted it.
  A time is an option: None is the zero time of the code.
\<close>

definition ProtocolVLESS :: string where "ProtocolVLESS = ''vless''"
definition ProtocolVMess :: string where "ProtocolVMess = ''vmess''"
definition ProtocolTrojan :: string where "ProtocolTrojan = ''trojan''"
definition ProtocolShadowsocks :: string where "ProtocolShadowsocks = ''shadowsocks''"
definition ProtocolSocks :: string where "ProtocolSocks = ''socks''"
definition ProtocolWireGuard :: string where "ProtocolWireGuard = ''wireguard''"
definition ProtocolHysteria2 :: string where "ProtocolHysteria2 = ''hysteria2''"
definition ProtocolTUIC :: string where "ProtocolTUIC = ''tuic''"

definition TransportTCP :: string where "TransportTCP = ''tcp''"
definition TransportWS :: string where "TransportWS = ''ws''"
definition TransportGRPC :: string where "TransportGRPC = ''grpc''"
definition TransportH2 :: string where "TransportH2 = ''h2''"
definition TransportHTTP :: string where "TransportHTTP = ''http''"
definition TransportQUIC :: string where "TransportQUIC = ''quic''"

definition SecurityNone :: string where "SecurityNone = ''none''"
definition SecurityTLS :: string where "SecurityTLS = ''tls''"
definition SecurityReality :: string where "SecurityReality = ''reality''"

definition HealthUnknown :: string where "HealthUnknown = ''unknown''"
definition HealthHealthy :: string where "HealthHealthy = ''healthy''"
definition HealthDegraded :: string where "HealthDegraded = ''degraded''"
definition HealthUnhealthy :: string where "HealthUnhealthy = ''unhealthy''"

lemmas protocols = ProtocolVLESS_def ProtocolVMess_def ProtocolTrojan_def ProtocolShadowsocks_def ProtocolSocks_def
  ProtocolWireGuard_def ProtocolHysteria2_def ProtocolTUIC_def
lemmas transports = TransportTCP_def TransportWS_def TransportGRPC_def TransportH2_def TransportHTTP_def TransportQUIC_def
lemmas securities = SecurityNone_def SecurityTLS_def SecurityReality_def
lemmas healths = HealthUnknown_def HealthHealthy_def HealthDegraded_def HealthUnhealthy_def

record server =
  srv_id :: string
  srv_name :: string
  srv_subscription :: string
  srv_address :: string
  srv_port :: int
  srv_protocol :: string
  srv_transport :: string
  srv_security :: string
  srv_uuid :: string
  srv_password :: string
  srv_method :: string
  srv_flow :: string
  srv_pubkey :: string
  srv_shortid :: string
  srv_sni :: string
  srv_fp :: string
  srv_alpn :: string
  srv_path :: string
  srv_host :: string
  srv_service :: string
  srv_country :: string
  srv_tags :: "string list"
  srv_favorite :: bool
  srv_custom :: string
  srv_latency :: int
  srv_last_test :: "int option"
  srv_health :: string

text \<open>The value that \<open>&Server{Protocol: p}\<close> makes: every other field is zero.\<close>

definition new_server :: "string \<Rightarrow> server" where
  "new_server p =
     \<lparr>srv_id = [], srv_name = [], srv_subscription = [], srv_address = [], srv_port = 0, srv_protocol = p,
      srv_transport = [], srv_security = [], srv_uuid = [], srv_password = [], srv_method = [], srv_flow = [],
      srv_pubkey = [], srv_shortid = [], srv_sni = [], srv_fp = [], srv_alpn = [], srv_path = [], srv_host = [],
      srv_service = [], srv_country = [], srv_tags = [], srv_favorite = False, srv_custom = [], srv_latency = 0,
      srv_last_test = None, srv_health = []\<rparr>"

definition DisplayName :: "server \<Rightarrow> string" where
  "DisplayName s = (if srv_custom s \<noteq> [] then srv_custom s else srv_name s)"

definition Tested :: "server \<Rightarrow> bool" where
  "Tested s \<longleftrightarrow> srv_latency s \<ge> 0"

datatype server_error =
    EmptyAddress
  | PortOutOfRange int
  | UnsupportedProtocol string
  | UnsupportedTransport string
  | UnsupportedSecurity string

definition known_protocols :: "string list" where
  "known_protocols = [ProtocolVLESS, ProtocolVMess, ProtocolTrojan, ProtocolShadowsocks, ProtocolSocks,
     ProtocolWireGuard, ProtocolHysteria2, ProtocolTUIC]"

definition known_transports :: "string list" where
  "known_transports = [[], TransportTCP, TransportWS, TransportGRPC, TransportH2, TransportHTTP, TransportQUIC]"

definition known_securities :: "string list" where
  "known_securities = [[], SecurityNone, SecurityTLS, SecurityReality]"

definition server_validate :: "server \<Rightarrow> (server_error, unit) res" where
  "server_validate s =
     (if srv_address s = [] then Inl EmptyAddress
      else if srv_port s < 1 \<or> srv_port s > 65535 then Inl (PortOutOfRange (srv_port s))
      else if srv_protocol s \<notin> set known_protocols then Inl (UnsupportedProtocol (srv_protocol s))
      else if srv_transport s \<notin> set known_transports then Inl (UnsupportedTransport (srv_transport s))
      else if srv_security s \<in> set known_securities then Inr ()
      else Inl (UnsupportedSecurity (srv_security s)))"

definition server_key :: "server \<Rightarrow> string" where
  "server_key s =
     (let auth = if srv_uuid s = [] then srv_password s else srv_uuid s
      in srv_protocol s @ ''|'' @ srv_address s @ ''|'' @ int_str (srv_port s) @ ''|'' @ auth @ ''|'' @ srv_method s)"

text \<open>\<open>rnd\<close> is the sixteen bytes drawn from the system's random source.\<close>

definition NewID :: "string \<Rightarrow> string" where
  "NewID rnd = hex_encode rnd"

definition Normalize :: "string \<Rightarrow> server \<Rightarrow> server" where
  "Normalize rnd s =
     s\<lparr>srv_id := (if srv_id s = [] then NewID rnd else srv_id s),
       srv_transport := (if srv_transport s = [] then TransportTCP else srv_transport s),
       srv_security := (if srv_security s = [] then SecurityNone else srv_security s),
       srv_health := (if srv_health s = [] then HealthUnknown else srv_health s),
       srv_latency := (if srv_latency s = 0 then -1 else srv_latency s)\<rparr>"

fun firstNonEmpty :: "string list \<Rightarrow> string" where
  "firstNonEmpty [] = []"
| "firstNonEmpty (v # vs) = (if v \<noteq> [] then v else firstNonEmpty vs)"

section \<open>Facts\<close>

lemma known_defaults [simp]:
  "TransportTCP \<in> set known_transports" "SecurityNone \<in> set known_securities" "[] \<in> set known_transports"
  "[] \<in> set known_securities"
  by (simp_all add: known_transports_def known_securities_def)

lemma server_validate_ok:
  assumes "server_validate s = Inr u"
  shows "srv_address s \<noteq> []" "1 \<le> srv_port s" "srv_port s \<le> 65535" "srv_protocol s \<in> set known_protocols"
    "srv_transport s \<in> set known_transports" "srv_security s \<in> set known_securities"
  using assms by (simp_all add: server_validate_def split: if_splits)

lemma normalize_validate [simp]: "server_validate (Normalize rnd s) = server_validate s"
  by (simp add: server_validate_def Normalize_def)

lemma normalize_key [simp]: "server_key (Normalize rnd s) = server_key s"
  by (simp add: server_key_def Normalize_def)

lemma firstNonEmpty_ne: "x \<noteq> [] \<Longrightarrow> firstNonEmpty [y, x] \<noteq> []"
  by simp

end
