(* ===== verification/Base64.thy ===== *)
theory Base64
  imports Prelude
begin

text \<open>
  The two padded encodings of Go's \<open>encoding/base64\<close> that share links and subscriptions use. The decoder
  ignores line breaks, wants complete groups of four and nothing after the padding, and does not look at
  the unused bits of a last group (it is not the strict one). The flag is True for the URL alphabet.
\<close>

definition b64_value :: "bool \<Rightarrow> char \<Rightarrow> nat option" where
  "b64_value url c =
     (let n = byte c
      in if 65 \<le> n \<and> n \<le> 90 then Some (n - 65)
         else if 97 \<le> n \<and> n \<le> 122 then Some (n - 71)
         else if 48 \<le> n \<and> n \<le> 57 then Some (n + 4)
         else if c = (if url then CHR ''-'' else CHR ''+'') then Some 62
         else if c = (if url then CHR ''_'' else CHR ''/'') then Some 63
         else None)"

definition b64_char :: "bool \<Rightarrow> nat \<Rightarrow> char" where
  "b64_char url n =
     (if n < 26 then char_of (n + 65)
      else if n < 52 then char_of (n + 71)
      else if n < 62 then char_of (n - 4)
      else if n = 62 then (if url then CHR ''-'' else CHR ''+'')
      else (if url then CHR ''_'' else CHR ''/''))"

definition pad_char :: char where "pad_char = CHR ''=''"

fun b64_groups :: "bool \<Rightarrow> string \<Rightarrow> string option" where
  "b64_groups url [] = Some []"
| "b64_groups url (a # b # c # d # r) =
     (case (b64_value url a, b64_value url b) of
        (Some va, Some vb) \<Rightarrow>
          (case b64_value url c of
             Some vc \<Rightarrow>
               (case b64_value url d of
                  Some vd \<Rightarrow>
                    map_option (\<lambda>t. char_of (va * 4 + vb div 16) # char_of (vb mod 16 * 16 + vc div 4) #
                                     char_of (vc mod 4 * 64 + vd) # t) (b64_groups url r)
                | None \<Rightarrow>
                    if d = pad_char \<and> r = []
                    then Some [char_of (va * 4 + vb div 16), char_of (vb mod 16 * 16 + vc div 4)] else None)
           | None \<Rightarrow> if c = pad_char \<and> d = pad_char \<and> r = [] then Some [char_of (va * 4 + vb div 16)] else None)
      | _ \<Rightarrow> None)"
| "b64_groups url _ = None"

definition b64_decode :: "bool \<Rightarrow> string \<Rightarrow> string option" where
  "b64_decode url s = b64_groups url (filter (\<lambda>c. c \<noteq> CHR 0x0A \<and> c \<noteq> CHR 0x0D) s)"

fun b64_encode :: "bool \<Rightarrow> string \<Rightarrow> string" where
  "b64_encode url (a # b # c # r) =
     [b64_char url (byte a div 4), b64_char url (byte a mod 4 * 16 + byte b div 16),
      b64_char url (byte b mod 16 * 4 + byte c div 64), b64_char url (byte c mod 64)] @ b64_encode url r"
| "b64_encode url [a, b] =
     [b64_char url (byte a div 4), b64_char url (byte a mod 4 * 16 + byte b div 16),
      b64_char url (byte b mod 16 * 4), pad_char]"
| "b64_encode url [a] = [b64_char url (byte a div 4), b64_char url (byte a mod 4 * 16), pad_char, pad_char]"
| "b64_encode url [] = []"

section \<open>Round trip\<close>

lemma b64_value_char [simp]:
  assumes "n < 64" shows "b64_value url (b64_char url n) = Some n"
proof -
  consider "n < 26" | "26 \<le> n" "n < 52" | "52 \<le> n" "n < 62" | "n = 62" | "n = 63" using assms by linarith
  then show ?thesis by cases (simp_all add: b64_value_def b64_char_def Let_def, linarith?)
qed

lemma b64_pad [simp]: "b64_value url pad_char = None"
  by (simp add: b64_value_def pad_char_def)

lemma b64_value_breaks [simp]: "b64_value url (CHR 0x0A) = None" "b64_value url (CHR 0x0D) = None"
  by (simp_all add: b64_value_def)

lemma glue: "(m::nat) < n \<Longrightarrow> (k * n + m) div n = k" "(m::nat) < n \<Longrightarrow> (k * n + m) mod n = m"
  by simp_all

lemma byte_parts:
  "byte b div 16 < 16" "byte c div 64 < 4" "byte a div 4 < 64" "byte a mod 4 < 4" "byte b mod 16 < 16" "byte c mod 64 < 64"
  using byte_less_256 [of a] byte_less_256 [of b] byte_less_256 [of c] by (simp_all add: less_mult_imp_div_less)

lemma b64_small [simp]:
  "byte a div 4 < 64" "byte a mod 4 * 16 + byte b div 16 < 64" "byte b mod 16 * 4 + byte c div 64 < 64" "byte c mod 64 < 64"
  "byte a mod 4 * 16 < 64" "byte b mod 16 * 4 < 64"
  using byte_parts(1) [of b] byte_parts(2) [of c] byte_parts(3,4) [of a] byte_parts(5) [of b] byte_parts(6) [of c]
  by linarith+

lemma b64_recombine:
  "char_of (byte a div 4 * 4 + (byte a mod 4 * 16 + byte b div 16) div 16) = a"
  "char_of ((byte a mod 4 * 16 + byte b div 16) mod 16 * 16 + (byte b mod 16 * 4 + byte c div 64) div 4) = b"
  "char_of ((byte b mod 16 * 4 + byte c div 64) mod 4 * 64 + byte c mod 64) = c"
  "char_of (byte a div 4 * 4 + (byte a mod 4 * 16) div 16) = a"
  "char_of ((byte a mod 4 * 16 + byte b div 16) mod 16 * 16 + (byte b mod 16 * 4) div 4) = b"
  by (simp_all only: glue byte_parts div_mult_mod_eq char_of_nat nonzero_mult_div_cancel_right
      zero_neq_numeral not_False_eq_True char_of_char)

lemma b64_groups_encode: "b64_groups url (b64_encode url s) = Some s"
  by (induction url s rule: b64_encode.induct)
    (simp_all only: b64_encode.simps append.simps b64_groups.simps b64_value_char b64_small b64_recombine b64_pad
      option.case prod.case option.map simp_thms if_True)

lemma b64_encode_chars: "list_all (\<lambda>c. c = pad_char \<or> b64_value url c \<noteq> None) (b64_encode url s)"
  by (induction url s rule: b64_encode.induct)
    (simp_all only: b64_encode.simps append.simps list.pred_inject b64_value_char b64_small option.distinct simp_thms)

lemma b64_encode_no_break: "c \<in> set (b64_encode url s) \<Longrightarrow> c \<noteq> CHR 0x0A \<and> c \<noteq> CHR 0x0D"
  using b64_encode_chars [of url s] 
  by (fastforce simp: list_all_iff pad_char_def b64_value_breaks)

theorem b64_decode_encode [simp]: "b64_decode url (b64_encode url s) = Some s"
proof -
  have "filter (\<lambda>c. c \<noteq> CHR 0x0A \<and> c \<noteq> CHR 0x0D) (b64_encode url s) = b64_encode url s"
    by (rule filter_True) (use b64_encode_no_break in blast)
  then show ?thesis by (simp add: b64_decode_def b64_groups_encode)
qed

lemma b64_encode_length: "length (b64_encode url s) mod 4 = 0"
  by (induction url s rule: b64_encode.induct) simp_all

text \<open>The decoded length: three bytes for a group, less one for each padding character.\<close>

lemma b64_groups_length: "b64_groups url s = Some t \<Longrightarrow> 4 * (length t + count_list s pad_char) = 3 * length s"
proof (induction url s arbitrary: t rule: b64_groups.induct)
  case (2 url a b c d r)
  have plain: "b64_value url x = Some n \<Longrightarrow> x \<noteq> pad_char" for x n by auto
  show ?case
    using 2 plain by (auto split: option.splits if_splits)
qed simp_all

end
