(* ===== verification/Net_Url.thy ===== *)
theory Net_Url
  imports Manifest
begin

text \<open>
  What share links use of Go's \<open>net/url\<close> and \<open>net\<close>: percent escaping in its modes, the parser for links of the
  form \<open>scheme://authority/path?query#fragment\<close>, query values, and \<open>net.SplitHostPort\<close>. Strings are bytes.
  The one parameter is \<open>ip6\<close>, the standard library's test for an IPv6 address between brackets.
\<close>

datatype esc_mode = EncPath | EncPathSegment | EncHost | EncZone | EncUserPassword | EncQuery | EncFragment

definition is_letter :: "char \<Rightarrow> bool" where
  "is_letter c \<longleftrightarrow> 97 \<le> byte c \<and> byte c \<le> 122 \<or> 65 \<le> byte c \<and> byte c \<le> 90"

definition host_marks :: string where "host_marks = CHR 0x22 # CHR 0x27 # ''!$&()*+,;=:[]<>''"
definition free_marks :: string where "free_marks = ''-_.~''"
definition reserved_marks :: string where "reserved_marks = ''$&+,/:;=?@''"
definition fragment_marks :: string where "fragment_marks = ''!()*''"

fun reserved_escape :: "esc_mode \<Rightarrow> char \<Rightarrow> bool" where
  "reserved_escape EncPath c = (c = CHR ''?'')"
| "reserved_escape EncPathSegment c = (c \<in> set ''/;,?'')"
| "reserved_escape EncUserPassword c = (c \<in> set ''@/?:'')"
| "reserved_escape EncQuery c = True"
| "reserved_escape EncFragment c = False"
| "reserved_escape _ c = True"

definition should_escape :: "esc_mode \<Rightarrow> char \<Rightarrow> bool" where
  "should_escape m c =
     (if is_letter c \<or> is_digit c then False
      else if (m = EncHost \<or> m = EncZone) \<and> c \<in> set host_marks then False
      else if c \<in> set free_marks then False
      else if c \<in> set reserved_marks then reserved_escape m c
      else if m = EncFragment \<and> c \<in> set fragment_marks then False
      else True)"

definition upper_hex :: "nat \<Rightarrow> char" where
  "upper_hex d = (if d < 10 then char_of (48 + d) else char_of (55 + d))"

fun url_escape :: "esc_mode \<Rightarrow> string \<Rightarrow> string" where
  "url_escape m [] = []"
| "url_escape m (c # cs) =
     (if should_escape m c then
        (if c = CHR '' '' \<and> m = EncQuery then ''+''
         else [CHR 0x25, upper_hex (byte c div 16), upper_hex (byte c mod 16)])
      else [c]) @ url_escape m cs"

definition unhex :: "char \<Rightarrow> char \<Rightarrow> char" where
  "unhex a b = char_of (16 * hex_digit_value a + hex_digit_value b)"

definition percent_ok :: "esc_mode \<Rightarrow> char \<Rightarrow> char \<Rightarrow> bool" where
  "percent_ok m a b =
     (is_hex_digit a \<and> is_hex_digit b \<and>
      (m = EncHost \<longrightarrow> hex_digit_value a \<ge> 8 \<or> a = CHR ''2'' \<and> b = CHR ''5'') \<and>
      (m = EncZone \<longrightarrow> a = CHR ''2'' \<and> b = CHR ''5'' \<or> unhex a b = CHR '' '' \<or> \<not> should_escape EncHost (unhex a b)))"

fun url_unescape :: "esc_mode \<Rightarrow> string \<Rightarrow> string option" where
  "url_unescape m [] = Some []"
| "url_unescape m (c # cs) =
     (if c = CHR 0x25 then
        (case cs of
           a # b # r \<Rightarrow> if percent_ok m a b then map_option (Cons (unhex a b)) (url_unescape m r) else None
         | _ \<Rightarrow> None)
      else if c = CHR ''+'' then map_option (Cons (if m = EncQuery then CHR '' '' else c)) (url_unescape m cs)
      else if (m = EncHost \<or> m = EncZone) \<and> byte c < 128 \<and> should_escape m c then None
      else map_option (Cons c) (url_unescape m cs))"

definition PathUnescape :: "string \<Rightarrow> string option" where
  "PathUnescape = url_unescape EncPathSegment"

definition PathEscape :: "string \<Rightarrow> string" where
  "PathEscape = url_escape EncPathSegment"

section \<open>The authority\<close>

definition cut_at :: "char \<Rightarrow> string \<Rightarrow> string \<times> string" where
  "cut_at c s = (takeWhile (\<lambda>x. x \<noteq> c) s, drop 1 (dropWhile (\<lambda>x. x \<noteq> c) s))"

definition optional_port_ok :: "string \<Rightarrow> bool" where
  "optional_port_ok p \<longleftrightarrow> (case p of [] \<Rightarrow> True | c # ds \<Rightarrow> c = CHR '':'' \<and> list_all is_digit ds)"

definition from_char :: "char \<Rightarrow> string \<Rightarrow> string" where
  "from_char c s = dropWhile (\<lambda>x. x \<noteq> c) s"

definition unescape_zoned :: "string \<Rightarrow> string option" where
  "unescape_zoned h =
     (case str_index h ''%25'' of
        None \<Rightarrow> url_unescape EncHost h
      | Some i \<Rightarrow>
          (case (url_unescape EncHost (take i h), url_unescape EncZone (drop i h)) of
             (Some a, Some b) \<Rightarrow> Some (a @ b)
           | _ \<Rightarrow> None))"

definition parse_host :: "(string \<Rightarrow> bool) \<Rightarrow> string \<Rightarrow> string option" where
  "parse_host ip6 h =
     (case last_index h (CHR ''['') of
        Some (Suc _) \<Rightarrow> None
      | Some 0 \<Rightarrow>
          (case last_index h (CHR '']'') of
             None \<Rightarrow> None
           | Some i \<Rightarrow>
               let port = drop (i + 1) h
               in if \<not> optional_port_ok port then None
                  else case unescape_zoned (drop 1 (take i h)) of
                    None \<Rightarrow> None
                  | Some a \<Rightarrow> if ip6 a then Some (CHR ''['' # a @ CHR '']'' # port) else None)
      | None \<Rightarrow>
          if optional_port_ok (from_char (CHR '':'') h) then url_unescape EncHost h else None)"

record url =
  u_user :: "string option"
  u_password :: "string option"
  u_host :: string
  u_query :: string
  u_fragment :: string

definition user_marks :: string where "user_marks = CHR 0x27 # CHR 0x25 # ''-._:~!$&()*+,;=@''"

definition user_char :: "char \<Rightarrow> bool" where
  "user_char c \<longleftrightarrow> is_letter c \<or> is_digit c \<or> c \<in> set user_marks"

text \<open>User name, password and host of an authority.\<close>

definition parse_userinfo :: "string \<Rightarrow> (string option \<times> string option) option" where
  "parse_userinfo ui =
     (if \<not> list_all user_char ui then None
      else if CHR '':'' \<notin> set ui then map_option (\<lambda>u. (Some u, None)) (url_unescape EncUserPassword ui)
      else
        case cut_at (CHR '':'') ui of
          (u, p) \<Rightarrow>
            (case (url_unescape EncUserPassword u, url_unescape EncUserPassword p) of
               (Some u', Some p') \<Rightarrow> Some (Some u', Some p')
             | _ \<Rightarrow> None))"

definition parse_authority :: "(string \<Rightarrow> bool) \<Rightarrow> string \<Rightarrow> ((string option \<times> string option) \<times> string) option" where
  "parse_authority ip6 auth =
     (case last_index auth (CHR ''@'') of
        None \<Rightarrow> map_option (Pair (None, None)) (parse_host ip6 auth)
      | Some i \<Rightarrow>
          (case (parse_userinfo (take i auth), parse_host ip6 (drop (i + 1) auth)) of
             (Some u, Some h) \<Rightarrow> Some (u, h)
           | _ \<Rightarrow> None))"

text \<open>\<open>url.Parse\<close> of a link whose scheme is \<open>n\<close> letters followed by \<open>://\<close>.\<close>

definition parse_url :: "(string \<Rightarrow> bool) \<Rightarrow> nat \<Rightarrow> string \<Rightarrow> url option" where
  "parse_url ip6 n link =
     (let (u, frag) = cut_at (CHR ''#'') link;
          (rest, query) = cut_at (CHR ''?'') (drop (n + 3) u);
          auth = takeWhile (\<lambda>c. c \<noteq> CHR ''/'') rest;
          path = from_char (CHR ''/'') rest
      in if list_ex (\<lambda>c. byte c < 32 \<or> byte c = 127) u then None
         else case parse_authority ip6 auth of
           None \<Rightarrow> None
         | Some ((user, pass), host) \<Rightarrow>
             (case (url_unescape EncPath path, url_unescape EncFragment frag) of
                (Some _, Some f) \<Rightarrow>
                  Some \<lparr>u_user = user, u_password = pass, u_host = host, u_query = query, u_fragment = f\<rparr>
              | _ \<Rightarrow> None))"

definition Username :: "url \<Rightarrow> string" where
  "Username u = (case u_user u of None \<Rightarrow> [] | Some n \<Rightarrow> n)"

definition Hostname :: "url \<Rightarrow> string" where
  "Hostname u =
     (let h = u_host u;
          h1 = (case last_index h (CHR '':'') of
                  Some i \<Rightarrow> if optional_port_ok (drop i h) then take i h else h
                | None \<Rightarrow> h)
      in if has_prefix h1 ''['' \<and> has_suffix h1 '']'' then drop 1 (take (length h1 - 1) h1) else h1)"

section \<open>Query values\<close>

definition query_pairs :: "string \<Rightarrow> (string \<times> string) list" where
  "query_pairs q =
     List.map_filter (\<lambda>p.
       if CHR '';'' \<in> set p \<or> p = [] then None
       else case cut_at (CHR ''='') p of
         (k, v) \<Rightarrow>
           (case (url_unescape EncQuery k, url_unescape EncQuery v) of
              (Some k', Some v') \<Rightarrow> Some (k', v')
            | _ \<Rightarrow> None)) (split_on (CHR ''&'') q)"

definition query_get :: "string \<Rightarrow> string \<Rightarrow> string" where
  "query_get q k = (case map_of (query_pairs q) k of Some v \<Rightarrow> v | None \<Rightarrow> [])"

text \<open>\<open>Values.Encode\<close>: the values in the order of their keys.\<close>

fun insert_pair :: "string \<times> string \<Rightarrow> (string \<times> string) list \<Rightarrow> (string \<times> string) list" where
  "insert_pair p [] = [p]"
| "insert_pair p (q # qs) = (if str_compare (fst p) (fst q) \<le> 0 then p # q # qs else q # insert_pair p qs)"

definition encode_query :: "(string \<times> string) list \<Rightarrow> string" where
  "encode_query ps =
     join_with ''&'' (map (\<lambda>(k, v). url_escape EncQuery k @ ''='' @ url_escape EncQuery v) (foldr insert_pair ps []))"

text \<open>\<open>URL.String\<close> of an URL with a user name and without a path.\<close>

definition url_string :: "string \<Rightarrow> string \<Rightarrow> string \<Rightarrow> string \<Rightarrow> string \<Rightarrow> string" where
  "url_string scheme user host query frag =
     scheme @ ''://'' @ url_escape EncUserPassword user @ ''@'' @ url_escape EncHost host @
     (if query \<noteq> [] then CHR ''?'' # query else []) @
     (if frag \<noteq> [] then CHR ''#'' # url_escape EncFragment frag else [])"

section \<open>Host and port\<close>

definition SplitHostPort :: "string \<Rightarrow> (string \<times> string) option" where
  "SplitHostPort hp =
     (case last_index hp (CHR '':'') of
        None \<Rightarrow> None
      | Some i \<Rightarrow>
          if has_prefix hp ''['' then
            (case str_index hp '']'' of
               None \<Rightarrow> None
             | Some e \<Rightarrow>
                 if e + 1 \<noteq> i then None
                 else if CHR ''['' \<in> set (drop 1 hp) \<or> CHR '']'' \<in> set (drop (e + 1) hp) then None
                 else Some (drop 1 (take e hp), drop (i + 1) hp))
          else if CHR '':'' \<in> set (take i hp) then None
          else if CHR ''['' \<in> set hp \<or> CHR '']'' \<in> set hp then None
          else Some (take i hp, drop (i + 1) hp))"

end
