(* ===== verification/Url_Facts.thy ===== *)
theory Url_Facts
  imports Net_Url
begin

text \<open>
  Facts about escaping: unescaping undoes it, and escaped text never holds the characters that separate the
  parts of a link.
\<close>

lemmas marks = host_marks_def free_marks_def reserved_marks_def fragment_marks_def user_marks_def

lemma separators_not_plain:
  "\<not> is_letter c \<and> \<not> is_digit c" if "c \<in> set ''#?/@:&=;%+ ''"
  using that by (auto simp: is_letter_def is_digit_def)

lemma escape_literals: "c \<in> set ''#?/@:&=;%+ '' \<Longrightarrow> should_escape m c =
   (\<not> ((m = EncHost \<or> m = EncZone) \<and> c \<in> set host_marks) \<and> c \<notin> set free_marks \<and>
    (if c \<in> set reserved_marks then reserved_escape m c else \<not> (m = EncFragment \<and> c \<in> set fragment_marks)))"
  using separators_not_plain [of c] by (auto simp: should_escape_def)

lemma bare_cases:
  "\<not> should_escape m c \<Longrightarrow> is_letter c \<or> is_digit c \<or> c \<in> set host_marks \<or> c \<in> set free_marks \<or>
     c \<in> set reserved_marks \<and> \<not> reserved_escape m c \<or> c \<in> set fragment_marks"
  by (auto simp: should_escape_def split: if_splits)

definition graphic :: "char \<Rightarrow> bool" where
  "graphic c \<longleftrightarrow> 32 < byte c \<and> byte c < 127"

lemma byte_charI: "byte c = n \<Longrightarrow> n < 256 \<Longrightarrow> c = char_of n"
  by (metis char_of_char)

lemma nibble: "byte c div 16 < 16" "byte c mod 16 < 16" "16 * (byte c div 16) + byte c mod 16 = byte c"
  using byte_less_256 [of c] by (simp_all add: less_mult_imp_div_less)

lemma upper_hex_value: "d < 16 \<Longrightarrow> is_hex_digit (upper_hex d) \<and> hex_digit_value (upper_hex d) = d"
  by (auto simp: upper_hex_def is_hex_digit_def hex_digit_value_def is_digit_def)

lemma upper_hex_plain: "d < 16 \<Longrightarrow> is_digit (upper_hex d) \<or> is_letter (upper_hex d)"
  by (auto simp: upper_hex_def is_digit_def is_letter_def)

lemma unhex_upper [simp]: "unhex (upper_hex (byte c div 16)) (upper_hex (byte c mod 16)) = c"
  using nibble upper_hex_value by (simp add: unhex_def)

lemma percent_always: "should_escape m (CHR 0x25)"
  by (simp add: escape_literals marks)

lemma unescape_escape [simp]:
  assumes "m \<in> {EncUserPassword, EncQuery, EncFragment, EncPathSegment}"
  shows "url_unescape m (url_escape m s) = Some s"
proof (induction s)
  case (Cons c s)
  have mode: "m \<noteq> EncHost" "m \<noteq> EncZone" using assms by auto
  consider (space) "should_escape m c" "c = CHR '' ''" "m = EncQuery"
    | (hex) "should_escape m c" "\<not> (c = CHR '' '' \<and> m = EncQuery)" | (bare) "\<not> should_escape m c" by blast
  then show ?case
  proof cases
    case space
    then show ?thesis using Cons by simp
  next
    case hex
    have "percent_ok m (upper_hex (byte c div 16)) (upper_hex (byte c mod 16))"
      using mode upper_hex_value nibble(1,2) [of c] by (simp add: percent_ok_def)
    with hex Cons show ?thesis by auto
  next
    case bare
    then have "c \<noteq> CHR 0x25" using percent_always by metis
    moreover have "c = CHR ''+'' \<longrightarrow> m \<noteq> EncQuery"
      using bare by (auto simp: escape_literals marks)
    ultimately show ?thesis using bare Cons mode by simp
  qed
qed simp

lemma escape_chars:
  "list_all (\<lambda>c. is_letter c \<or> is_digit c \<or> c = CHR 0x25 \<or> c = CHR ''+'' \<or> \<not> should_escape m c) (url_escape m s)"
proof (induction s)
  case (Cons c s)
  have "is_digit (upper_hex (byte c div 16)) \<or> is_letter (upper_hex (byte c div 16))"
    "is_digit (upper_hex (byte c mod 16)) \<or> is_letter (upper_hex (byte c mod 16))"
    using upper_hex_plain nibble(1,2) [of c] by auto
  with Cons show ?case by auto
qed simp

lemma escape_no:
  assumes "should_escape m c" "\<not> is_letter c" "\<not> is_digit c" "c \<noteq> CHR 0x25" "c \<noteq> CHR ''+''"
  shows "c \<notin> set (url_escape m s)"
  using assms escape_chars [of m s] by (auto simp: list_all_iff)

lemma user_escape_no: "c \<in> set ''#?/@:'' \<Longrightarrow> c \<notin> set (url_escape EncUserPassword s)"
  using separators_not_plain [of c]
  by (intro escape_no) (auto simp: escape_literals marks)

lemma query_escape_no: "c \<in> set ''#?/@:&=;'' \<Longrightarrow> c \<notin> set (url_escape EncQuery s)"
  using separators_not_plain [of c]
  by (intro escape_no) (auto simp: escape_literals marks)

lemma letter_graphic: "is_letter c \<Longrightarrow> graphic c" "is_digit c \<Longrightarrow> graphic c"
  by (auto simp: is_letter_def is_digit_def graphic_def)

lemma marks_graphic: "list_all graphic (host_marks @ free_marks @ reserved_marks @ fragment_marks @ ''%+'')"
  by (simp add: marks graphic_def)

lemma bare_graphic: "\<not> should_escape m c \<Longrightarrow> graphic c"
  using bare_cases [of m c] marks_graphic letter_graphic by (auto simp: list_all_iff)

lemma escape_graphic: "list_all graphic (url_escape m s)"
  using escape_chars [of m s] letter_graphic bare_graphic marks_graphic by (auto simp: list_all_iff)

lemma user_escape_valid: "list_all user_char (url_escape EncUserPassword s)"
proof -
  have "set reserved_marks - set ''@/?:'' \<subseteq> set user_marks" "set free_marks \<subseteq> set user_marks" "set ''%+'' \<subseteq> set user_marks"
    by (auto simp: marks)
  then have "user_char c" if "\<not> should_escape EncUserPassword c \<or> c \<in> set ''%+''" for c
    using that by (auto simp: user_char_def should_escape_def split: if_splits)
  then show ?thesis
    using escape_chars [of EncUserPassword s] by (auto simp: list_all_iff user_char_def)
qed

section \<open>Query values and links\<close>

lemma cut_at_sep: "c \<notin> set a \<Longrightarrow> cut_at c (a @ c # b) = (a, b)"
  by (induction a) (auto simp: cut_at_def)

lemma cut_at_none: "c \<notin> set a \<Longrightarrow> cut_at c a = (a, [])"
  by (induction a) (auto simp: cut_at_def)

lemma from_char_sep: "c \<notin> set a \<Longrightarrow> from_char c (a @ c # b) = c # b"
  by (induction a) (auto simp: from_char_def)

lemma from_char_none: "c \<notin> set a \<Longrightarrow> from_char c a = []"
  by (induction a) (auto simp: from_char_def)

lemma last_index_sep: "c \<notin> set b \<Longrightarrow> last_index (a @ c # b) c = Some (length a)"
proof -
  assume "c \<notin> set b"
  then have "takeWhile (\<lambda>x. x \<noteq> c) (rev b @ c # rev a) = rev b" by (subst takeWhile_append2) auto
  then show ?thesis by (simp add: last_index_def)
qed

lemma last_index_none: "c \<notin> set a \<Longrightarrow> last_index a c = None"
  by (simp add: last_index_def)

definition query_item :: "string \<times> string \<Rightarrow> string" where
  "query_item p = url_escape EncQuery (fst p) @ ''='' @ url_escape EncQuery (snd p)"

lemma query_item_clean: "c \<in> set ''#?/@:&;'' \<Longrightarrow> c \<notin> set (query_item p)"
  using query_escape_no [of c] by (auto simp: query_item_def)

lemma query_item_graphic: "list_all graphic (query_item p)"
  using escape_graphic by (simp add: query_item_def list_all_append graphic_def)

lemma split_join_items: "split_on (CHR ''&'') (join_with ''&'' (map query_item ps)) = (if ps = [] then [[]] else map query_item ps)"
proof (induction ps rule: induct_list012)
  case (2 p)
  show ?case using query_item_clean [of "CHR ''&''" p] by (simp add: split_on_no_sep)
next
  case (3 p q ps)
  have "split_on (CHR ''&'') (query_item p @ CHR ''&'' # join_with ''&'' (map query_item (q # ps)))
      = query_item p # split_on (CHR ''&'') (join_with ''&'' (map query_item (q # ps)))"
    by (rule split_on_append) (use query_item_clean [of "CHR ''&''" p] in simp)
  then show ?case using 3 by simp
qed simp

lemma query_pairs_items: "query_pairs (join_with ''&'' (map query_item ps)) = ps"
proof -
  let ?f = "\<lambda>p. if CHR '';'' \<in> set p \<or> p = [] then None
       else case cut_at (CHR ''='') p of
         (k, v) \<Rightarrow>
           (case (url_unescape EncQuery k, url_unescape EncQuery v) of
              (Some k', Some v') \<Rightarrow> Some (k', v')
            | _ \<Rightarrow> None)"
  have item: "?f (query_item p) = Some p" for p
  proof -
    have "cut_at (CHR ''='') (query_item p) = (url_escape EncQuery (fst p), url_escape EncQuery (snd p))"
      unfolding query_item_def using query_escape_no [of "CHR ''=''"] by (simp add: cut_at_sep)
    moreover have "query_item p \<noteq> []" by (simp add: query_item_def)
    ultimately show ?thesis using query_item_clean [of "CHR '';''" p] by simp
  qed
  have "List.map_filter ?f (map query_item ps) = ps"
    by (induction ps) (simp_all add: map_filter_simps item)
  then show ?thesis
    unfolding query_pairs_def split_join_items by (cases ps) (simp_all add: map_filter_simps)
qed

lemma insert_pair_mset: "set (insert_pair p ps) = insert p (set ps)"
  "map_of (insert_pair p ps) = map_of (p # ps)" if "fst p \<notin> fst ` set ps"
  using that by (induction ps) (auto simp: fun_upd_twist)

lemma sorted_pairs_map: "distinct (map fst ps) \<Longrightarrow> set (foldr insert_pair ps []) = set ps \<and> map_of (foldr insert_pair ps []) = map_of ps"
proof (induction ps)
  case (Cons p ps)
  then have "fst p \<notin> fst ` set (foldr insert_pair ps [])" by simp
  with Cons insert_pair_mset [of p "foldr insert_pair ps []"] show ?case by (cases p) simp
qed simp

lemma encode_query_items: "encode_query ps = join_with ''&'' (map query_item (foldr insert_pair ps []))"
  unfolding encode_query_def query_item_def by (rule arg_cong [of _ _ "join_with ''&''"]) (auto split: prod.splits)

lemma query_get_encode: "distinct (map fst ps) \<Longrightarrow> query_get (encode_query ps) k = (case map_of ps k of Some v \<Rightarrow> v | None \<Rightarrow> [])"
  using sorted_pairs_map [of ps] by (simp add: query_get_def encode_query_items query_pairs_items)

lemma mark_graphic: "graphic (CHR ''&'')" "graphic (CHR ''='')" "graphic (CHR ''@'')" "graphic (CHR ''#'')"
  "graphic (CHR ''?'')" "graphic (CHR '':'')" "graphic (CHR ''/'')"
  by (simp_all add: graphic_def)

lemma join_items_graphic: "list_all graphic (join_with ''&'' (map query_item ps))"
  by (induction ps rule: induct_list012) (simp_all add: query_item_graphic mark_graphic)

lemma join_items_no_hash: "CHR ''#'' \<notin> set (join_with ''&'' (map query_item ps))"
  by (induction ps rule: induct_list012) (simp_all add: query_item_clean)

section \<open>Reading what \<open>url_string\<close> writes\<close>

definition plain_host :: "string \<Rightarrow> bool" where
  "plain_host h \<longleftrightarrow> list_all (\<lambda>c. \<not> should_escape EncHost c \<and> c \<notin> set ''[]:'') h"

lemma graphic_trim: "list_all graphic s \<Longrightarrow> trim_space s = s"
proof (cases "s = []")
  case False
  assume g: "list_all graphic s"
  have "solid_first c" "solid_last c" if "graphic c" for c
    using that by (auto simp: graphic_def solid_first_def solid_last_def space_seqs_def)
  with g False show ?thesis by (intro trim_space_solid) (auto simp: list_all_iff)
qed simp

lemma host_bare: "list_all (\<lambda>c. \<not> should_escape EncHost c) h \<Longrightarrow> url_escape EncHost h = h \<and> url_unescape EncHost h = Some h"
proof (induction h)
  case (Cons c h)
  moreover have "c \<noteq> CHR 0x25" using Cons.prems percent_always [of EncHost] by auto
  ultimately show ?case by simp
qed simp

lemma host_port_bare:
  assumes "plain_host a" "list_all is_digit p"
  shows "list_all (\<lambda>c. \<not> should_escape EncHost c) (a @ CHR '':'' # p)"
proof -
  have "\<not> should_escape EncHost (CHR '':'')" by (simp add: escape_literals marks)
  moreover have "\<not> should_escape EncHost c" if "is_digit c" for c using that by (simp add: should_escape_def)
  ultimately show ?thesis using assms unfolding plain_host_def list_all_iff by auto
qed

lemma separator_cases: "c \<in> set ''#?/@[]:'' \<Longrightarrow> \<not> is_digit c \<and> (c \<in> set ''#?/@'' \<or> c \<in> set ''[]:'')"
  by (auto simp: is_digit_def)

lemma path_marks_escaped: "c \<in> set ''#?/@'' \<Longrightarrow> should_escape EncHost c"
proof -
  have "list_all (should_escape EncHost) ''#?/@''" by (simp add: escape_literals marks)
  then show "c \<in> set ''#?/@'' \<Longrightarrow> should_escape EncHost c" unfolding list_all_iff by blast
qed

lemma host_no: "plain_host a \<Longrightarrow> c \<in> set ''#?/@[]:'' \<Longrightarrow> c \<notin> set a"
  using separator_cases [of c] path_marks_escaped [of c] unfolding plain_host_def list_all_iff by blast

lemma digits_no: "list_all is_digit p \<Longrightarrow> c \<in> set ''#?/@[]:'' \<Longrightarrow> c \<notin> set p"
  using separator_cases [of c] unfolding list_all_iff by blast

lemma parse_host_bare:
  assumes "plain_host a" "list_all is_digit p"
  shows "parse_host ip6 (a @ CHR '':'' # p) = Some (a @ CHR '':'' # p)"
proof -
  have "last_index (a @ CHR '':'' # p) (CHR ''['') = None"
    using host_no [OF assms(1), of "CHR ''[''"] digits_no [OF assms(2), of "CHR ''[''"] by (simp add: last_index_none)
  moreover have "from_char (CHR '':'') (a @ CHR '':'' # p) = CHR '':'' # p"
    using host_no [OF assms(1), of "CHR '':''"] by (simp add: from_char_sep)
  ultimately show ?thesis
    using host_bare [OF host_port_bare [OF assms]] assms(2) by (simp add: parse_host_def optional_port_ok_def)
qed

lemma split_host_port_bare:
  assumes "plain_host a" "list_all is_digit p"
  shows "SplitHostPort (a @ CHR '':'' # p) = Some (a, p)"
proof -
  have no: "c \<notin> set a" "c \<notin> set p" if "c \<in> set ''[]:''" for c
    using that host_no [OF assms(1), of c] digits_no [OF assms(2), of c] by auto
  have "last_index (a @ CHR '':'' # p) (CHR '':'') = Some (length a)"
    using no(2) [of "CHR '':''"] by (simp add: last_index_sep)
  moreover have "\<not> has_prefix (a @ CHR '':'' # p) ''[''"
    using no(1) [of "CHR ''[''"] by (cases a) (auto simp: has_prefix_def)
  ultimately show ?thesis using no by (simp add: SplitHostPort_def)
qed

lemma plain_host_graphic: "plain_host a \<Longrightarrow> list_all graphic a"
  using bare_graphic unfolding plain_host_def list_all_iff by blast

lemma digits_graphic: "list_all is_digit p \<Longrightarrow> list_all graphic p"
  using letter_graphic(2) unfolding list_all_iff by blast

lemma parse_userinfo_escaped: "parse_userinfo (url_escape EncUserPassword user) = Some (Some user, None)"
  using user_escape_valid user_escape_no [of "CHR '':''"] by (simp add: parse_userinfo_def)

lemma parse_authority_escaped:
  assumes "plain_host a" "list_all is_digit p"
  shows "parse_authority ip6 (url_escape EncUserPassword user @ CHR ''@'' # a @ CHR '':'' # p) = Some ((Some user, None), a @ CHR '':'' # p)"
proof -
  have "CHR ''@'' \<notin> set (a @ CHR '':'' # p)"
    using host_no [OF assms(1), of "CHR ''@''"] digits_no [OF assms(2), of "CHR ''@''"] by simp
  then have "last_index (url_escape EncUserPassword user @ CHR ''@'' # a @ CHR '':'' # p) (CHR ''@'')
      = Some (length (url_escape EncUserPassword user))"
    by (rule last_index_sep)
  then show ?thesis
    using parse_userinfo_escaped parse_host_bare [OF assms] by (simp add: parse_authority_def)
qed

lemma parse_url_string:
  assumes a: "plain_host a" and p: "list_all is_digit p" and q: "list_all graphic q" "CHR ''#'' \<notin> set q"
    and scheme: "list_all is_letter scheme"
  shows "parse_url ip6 (length scheme) (url_string scheme user (a @ CHR '':'' # p) q frag) =
    Some \<lparr>u_user = Some user, u_password = None, u_host = a @ CHR '':'' # p, u_query = q, u_fragment = frag\<rparr>"
proof -
  define auth where "auth = url_escape EncUserPassword user @ CHR ''@'' # a @ CHR '':'' # p"
  define main where "main = scheme @ ''://'' @ auth @ (if q \<noteq> [] then CHR ''?'' # q else [])"
  have string: "url_string scheme user (a @ CHR '':'' # p) q frag
      = main @ (if frag \<noteq> [] then CHR ''#'' # url_escape EncFragment frag else [])"
    using host_bare [OF host_port_bare [OF a p]] by (simp add: url_string_def main_def auth_def)
  have no: "c \<notin> set auth" if "c \<in> set ''#?/''" for c
    using that user_escape_no [of c user] host_no [OF a, of c] digits_no [OF p, of c] by (auto simp: auth_def)
  have scheme_clean: "c \<notin> set scheme" if "\<not> is_letter c" for c
    using scheme that by (auto simp: list_all_iff)
  have "CHR ''#'' \<notin> set main"
    using no [of "CHR ''#''"] q(2) scheme_clean [of "CHR ''#''"] separators_not_plain [of "CHR ''#''"] by (simp add: main_def)
  then have hash: "cut_at (CHR ''#'') (url_string scheme user (a @ CHR '':'' # p) q frag) = (main, url_escape EncFragment frag)"
    unfolding string by (cases "frag = []") (simp_all add: cut_at_sep cut_at_none)
  have graphic: "list_all graphic main"
    using scheme letter_graphic(1) escape_graphic [of EncUserPassword user] plain_host_graphic [OF a] digits_graphic [OF p] q(1)
    by (auto simp: main_def auth_def mark_graphic list_all_iff)
  have ctl: "\<not> list_ex (\<lambda>c. byte c < 32 \<or> byte c = 127) main"
    using graphic unfolding list_ex_iff list_all_iff graphic_def by fastforce
  have rest: "cut_at (CHR ''?'') (drop (length scheme + 3) main) = (auth, q)"
    using no [of "CHR ''?''"] by (simp add: main_def cut_at_sep cut_at_none)
  have slash: "CHR ''/'' \<notin> set auth" using no [of "CHR ''/''"] by simp
  then have authority: "takeWhile (\<lambda>c. c \<noteq> CHR ''/'') auth = auth" unfolding takeWhile_eq_all_conv by blast
  have pa: "parse_authority ip6 auth = Some ((Some user, None), a @ CHR '':'' # p)"
    unfolding auth_def by (rule parse_authority_escaped [OF a p])
  have path: "url_unescape EncPath (from_char (CHR ''/'') auth) = Some []"
    using from_char_none [OF slash] by simp
  have fragment: "url_unescape EncFragment (url_escape EncFragment frag) = Some frag" by simp
  show ?thesis
    unfolding parse_url_def hash Let_def prod.case rest authority pa path fragment option.case
    using ctl by (simp only: if_False)
qed

lemma url_string_graphic:
  assumes a: "plain_host a" and p: "list_all is_digit p" and q: "list_all graphic q" and scheme: "list_all is_letter scheme"
  shows "list_all graphic (url_string scheme user (a @ CHR '':'' # p) q frag)"
proof -
  have "list_all graphic scheme" using scheme letter_graphic(1) unfolding list_all_iff by blast
  then show ?thesis
    unfolding url_string_def
    using escape_graphic plain_host_graphic [OF a] digits_graphic [OF p] q host_bare [OF host_port_bare [OF a p]]
    by (simp add: mark_graphic)
qed

end
