(* ===== verification/Share_Links.thy ===== *)
theory Share_Links
  imports Complex_Main Servers Net_Url Base64 Apps
begin

text \<open>
  Reading and writing share links (\<open>servers/parse.go\<close>, \<open>servers/export.go\<close>). Parameters are the standard
  library's IPv6 test \<open>ip6\<close>, the sixteen random bytes \<open>rnd\<close> of a new identity and, for vmess links, the JSON
  coder. Reading a shadowsocks link calls itself on what it has decoded; it is a \<open>partial_function\<close>, and None
  means that the call never returns.
\<close>

datatype link_error =
    EmptyLink | UnsupportedScheme string | BadUrl | BadHostPort string | BadPort string | InvalidRecord server_error
  | NotUUID | EmptyPassword | BadBase64 | BadJson | BadPortValue | NoMethodHost
  | NoMethodPassword | CannotExport string

section \<open>Helpers\<close>

definition schemeOf :: "string \<Rightarrow> string" where
  "schemeOf link = (case str_index link ''://'' of Some (Suc i) \<Rightarrow> take (Suc i) link | _ \<Rightarrow> [])"

definition splitHostPort :: "string \<Rightarrow> (link_error, string \<times> int) res" where
  "splitHostPort hp =
     (case SplitHostPort hp of
        None \<Rightarrow> Inl (BadHostPort hp)
      | Some (host, port) \<Rightarrow> (case atoi port of None \<Rightarrow> Inl (BadPort port) | Some p \<Rightarrow> Inr (host, p)))"

definition unescaped_or_same :: "string \<Rightarrow> string" where
  "unescaped_or_same s = (case PathUnescape s of Some t \<Rightarrow> t | None \<Rightarrow> s)"

definition displayName :: "url \<Rightarrow> string" where
  "displayName u = (if u_fragment u \<noteq> [] then unescaped_or_same (u_fragment u) else Hostname u)"

definition passwordOf :: "url \<Rightarrow> string \<times> bool" where
  "passwordOf u =
     (case u_user u of
        None \<Rightarrow> ([], False)
      | Some name \<Rightarrow>
          (case u_password u of
             Some pw \<Rightarrow> (unescaped_or_same pw, True)
           | None \<Rightarrow> let p = unescaped_or_same name in (p, p \<noteq> [])))"

definition padBase64 :: "string \<Rightarrow> string" where
  "padBase64 s = (let m = length s mod 4 in if m \<noteq> 0 then s @ replicate (4 - m) (CHR ''='') else s)"

definition decodeBase64URL :: "string \<Rightarrow> string option" where
  "decodeBase64URL s0 =
     (let s = trim_space s0
      in case b64_decode True (padBase64 s) of Some b \<Rightarrow> Some b | None \<Rightarrow> b64_decode False (padBase64 s))"

datatype port_value = PortNumber rat | PortString string | PortOther

definition anyPort :: "port_value \<Rightarrow> (link_error, int) res" where
  "anyPort v =
     (case v of
        PortNumber r \<Rightarrow> Inr (if r < 0 then - \<lfloor>- r\<rfloor> else \<lfloor>r\<rfloor>)
      | PortString s \<Rightarrow> (case atoi (trim_space s) of Some p \<Rightarrow> Inr p | None \<Rightarrow> Inl BadPortValue)
      | PortOther \<Rightarrow> Inl BadPortValue)"

definition uuid_char :: "nat \<Rightarrow> char \<Rightarrow> bool" where
  "uuid_char i c = (if i \<in> {8, 13, 18, 23} then c = CHR ''-'' else is_hex_digit c)"

definition looksLikeUUID :: "string \<Rightarrow> bool" where
  "looksLikeUUID s \<longleftrightarrow> length s = 36 \<and> list_all (\<lambda>(i, c). uuid_char i c) (List.enumerate 0 s)"

text \<open>The end that all readers share: defaults, then validation.\<close>

definition checked :: "string \<Rightarrow> server \<Rightarrow> (link_error, server) res" where
  "checked rnd s =
     (let s' = Normalize rnd s in case server_validate s' of Inl e \<Rightarrow> Inl (InvalidRecord e) | Inr _ \<Rightarrow> Inr s')"

section \<open>Reading\<close>

definition parseVLESS :: "(string \<Rightarrow> bool) \<Rightarrow> string \<Rightarrow> string \<Rightarrow> (link_error, server) res" where
  "parseVLESS ip6 rnd link =
     (case parse_url ip6 (length (schemeOf link)) link of
        None \<Rightarrow> Inl BadUrl
      | Some u \<Rightarrow>
          (case splitHostPort (u_host u) of
             Inl e \<Rightarrow> Inl e
           | Inr (host, port) \<Rightarrow>
               let q = query_get (u_query u);
                   s = (new_server ProtocolVLESS)
                     \<lparr>srv_uuid := Username u, srv_address := host, srv_port := port,
                      srv_transport := q ''type'', srv_security := q ''security'',
                      srv_sni := firstNonEmpty [q ''sni'', q ''serverName''], srv_fp := q ''fp'', srv_flow := q ''flow'',
                      srv_pubkey := q ''pbk'', srv_shortid := q ''sid'', srv_path := q ''path'', srv_host := q ''host'',
                      srv_service := q ''serviceName'', srv_alpn := q ''alpn'', srv_name := displayName u\<rparr>
               in case checked rnd s of
                    Inl e \<Rightarrow> Inl e
                  | Inr s' \<Rightarrow> if looksLikeUUID (srv_uuid s') then Inr s' else Inl NotUUID))"

definition parseTrojan :: "(string \<Rightarrow> bool) \<Rightarrow> string \<Rightarrow> string \<Rightarrow> (link_error, server) res" where
  "parseTrojan ip6 rnd link =
     (case parse_url ip6 (length (schemeOf link)) link of
        None \<Rightarrow> Inl BadUrl
      | Some u \<Rightarrow>
          let (pw, has) = passwordOf u
          in case splitHostPort (u_host u) of
               Inl e \<Rightarrow> Inl e
             | Inr (host, port) \<Rightarrow>
                 let q = query_get (u_query u);
                     s = (new_server ProtocolTrojan)
                       \<lparr>srv_password := (if has then pw else []), srv_address := host, srv_port := port,
                        srv_transport := (if q ''type'' = [] then TransportTCP else q ''type''),
                        srv_security := (if q ''security'' = [] then SecurityTLS else q ''security''),
                        srv_sni := firstNonEmpty [q ''sni'', q ''peer''], srv_fp := q ''fp'', srv_path := q ''path'',
                        srv_host := q ''host'', srv_service := q ''serviceName'', srv_alpn := q ''alpn'',
                        srv_name := displayName u\<rparr>
                 in case checked rnd s of
                      Inl e \<Rightarrow> Inl e
                    | Inr s' \<Rightarrow> if srv_password s' = [] then Inl EmptyPassword else Inr s')"

record vmess_json =
  v_ps :: string
  v_add :: string
  v_port :: port_value
  v_id :: string
  v_net :: string
  v_host :: string
  v_path :: string
  v_tls :: string
  v_sni :: string
  v_fp :: string

definition parseVMess :: "(string \<Rightarrow> vmess_json option) \<Rightarrow> string \<Rightarrow> string \<Rightarrow> (link_error, server) res" where
  "parseVMess unjson rnd link =
     (case decodeBase64URL (trim_space (trim_prefix link ''vmess://'')) of
        None \<Rightarrow> Inl BadBase64
      | Some raw \<Rightarrow>
          (case unjson raw of
             None \<Rightarrow> Inl BadJson
           | Some v \<Rightarrow>
               (case anyPort (v_port v) of
                  Inl e \<Rightarrow> Inl e
                | Inr port \<Rightarrow>
                    let s = (new_server ProtocolVMess)
                      \<lparr>srv_name := (if v_ps v = [] then v_add v else v_ps v), srv_address := v_add v, srv_port := port,
                       srv_uuid := v_id v, srv_transport := v_net v, srv_path := v_path v, srv_host := v_host v,
                       srv_sni := v_sni v, srv_fp := v_fp v,
                       srv_security := (if lower_runes (v_tls v) = ''tls'' then SecurityTLS else SecurityNone)\<rparr>
                    in case checked rnd s of
                         Inl e \<Rightarrow> Inl e
                       | Inr s' \<Rightarrow> if looksLikeUUID (srv_uuid s') then Inr s' else Inl NotUUID)))"

definition ss_server :: "string \<Rightarrow> string \<Rightarrow> string \<Rightarrow> string \<Rightarrow> string \<Rightarrow> (link_error, server) res" where
  "ss_server rnd name meth pw hostport =
     (if meth = [] \<or> hostport = [] then Inl NoMethodHost
      else
        case splitHostPort (fst (cut_at (CHR ''?'') (fst (cut_at (CHR ''/'') hostport)))) of
          Inl e \<Rightarrow> Inl e
        | Inr (host, port) \<Rightarrow>
            checked rnd ((new_server ProtocolShadowsocks)
              \<lparr>srv_method := meth, srv_password := pw, srv_address := host, srv_port := port,
               srv_name := (if name = [] then host else unescaped_or_same name)\<rparr>))"

text \<open>One call of \<open>parseShadowsocks\<close>: either a result, or the link it calls itself with.\<close>

definition ss_step :: "string \<Rightarrow> string \<Rightarrow> string + (link_error, server) res" where
  "ss_step rnd link =
     (let (rest, name) = cut_at (CHR ''#'') (trim_prefix (trim_prefix link ''ss://'') ''shadowsocks://'')
      in case last_index rest (CHR ''@'') of
           Some i \<Rightarrow>
             let user = fst (cut_at (CHR ''?'') (take i rest)); hostPart = drop (i + 1) rest
             in (case decodeBase64URL user of
                   Some d \<Rightarrow>
                     if CHR '':'' \<in> set d then Inl (''ss://'' @ d @ ''@'' @ hostPart @ ''#'' @ name)
                     else Inr (ss_server rnd name [] [] [])
                 | None \<Rightarrow>
                     if CHR '':'' \<in> set user
                     then let (m, p) = cut_at (CHR '':'') user in Inr (ss_server rnd name m p hostPart)
                     else Inr (ss_server rnd name [] [] []))
         | None \<Rightarrow>
             (case decodeBase64URL rest of
                None \<Rightarrow> Inr (Inl BadBase64)
              | Some d \<Rightarrow> Inl (''ss://'' @ d @ ''#'' @ name)))"

partial_function (option) parseShadowsocks :: "string \<Rightarrow> string \<Rightarrow> (link_error, server) res option" where
  "parseShadowsocks rnd link =
     (case ss_step rnd link of Inr r \<Rightarrow> Some r | Inl link' \<Rightarrow> parseShadowsocks rnd link')"

definition ParseShareLink ::
    "(string \<Rightarrow> bool) \<Rightarrow> (string \<Rightarrow> vmess_json option) \<Rightarrow> string \<Rightarrow> string \<Rightarrow> (link_error, server) res option" where
  "ParseShareLink ip6 unjson rnd link0 =
     (let link = trim_space link0; scheme = schemeOf link; low = lower_runes scheme
      in if link = [] then Some (Inl EmptyLink)
         else if low = ''vless'' then Some (parseVLESS ip6 rnd link)
         else if low = ''vmess'' then Some (parseVMess unjson rnd link)
         else if low = ''trojan'' then Some (parseTrojan ip6 rnd link)
         else if low = ''ss'' \<or> low = ''shadowsocks'' then parseShadowsocks rnd link
         else Some (Inl (UnsupportedScheme scheme)))"

section \<open>Writing\<close>

definition hostPort :: "server \<Rightarrow> string" where
  "hostPort s = srv_address s @ '':'' @ int_str (srv_port s)"

definition set_if :: "string \<Rightarrow> string \<Rightarrow> (string \<times> string) list" where
  "set_if k v = (if v \<noteq> [] then [(k, v)] else [])"

definition exportVLESS :: "server \<Rightarrow> string" where
  "exportVLESS s =
     url_string ''vless'' (srv_uuid s) (hostPort s)
       (encode_query
         (set_if ''type'' (srv_transport s) @ [(''encryption'', ''none'')] @
          (if srv_security s \<noteq> [] \<and> srv_security s \<noteq> SecurityNone then [(''security'', srv_security s)] else []) @
          set_if ''flow'' (srv_flow s) @ set_if ''sni'' (srv_sni s) @ set_if ''fp'' (srv_fp s) @
          set_if ''pbk'' (srv_pubkey s) @ set_if ''sid'' (srv_shortid s) @ set_if ''path'' (srv_path s) @
          set_if ''host'' (srv_host s) @ set_if ''serviceName'' (srv_service s) @ set_if ''alpn'' (srv_alpn s)))
       (DisplayName s)"

definition exportTrojan :: "server \<Rightarrow> string" where
  "exportTrojan s =
     url_string ''trojan'' (srv_password s) (hostPort s)
       (encode_query
         (set_if ''sni'' (srv_sni s) @
          (if srv_security s \<noteq> [] \<and> srv_security s \<noteq> SecurityNone then [(''security'', srv_security s)] else []) @
          (if srv_transport s \<noteq> [] \<and> srv_transport s \<noteq> TransportTCP then [(''type'', srv_transport s)] else []) @
          set_if ''path'' (srv_path s) @ set_if ''host'' (srv_host s)))
       (DisplayName s)"

definition exportVMess :: "((string \<times> string) list \<Rightarrow> string) \<Rightarrow> server \<Rightarrow> string" where
  "exportVMess tojson s =
     ''vmess://'' @ b64_encode False (tojson
       ([(''v'', ''2''), (''ps'', DisplayName s), (''add'', srv_address s), (''port'', int_str (srv_port s)),
         (''id'', srv_uuid s), (''aid'', ''0''), (''net'', srv_transport s), (''type'', ''none''), (''host'', srv_host s),
         (''path'', srv_path s), (''sni'', srv_sni s), (''fp'', srv_fp s)] @
        (if srv_security s = SecurityTLS then [(''tls'', ''tls'')] else [])))"

definition exportShadowsocks :: "server \<Rightarrow> (link_error, string) res" where
  "exportShadowsocks s =
     (if srv_method s = [] \<or> srv_password s = [] then Inl NoMethodPassword
      else Inr (''ss://'' @ b64_encode True (srv_method s @ '':'' @ srv_password s) @ ''@'' @ hostPort s @ ''#'' @
                PathEscape (DisplayName s)))"

definition ExportShareLink :: "((string \<times> string) list \<Rightarrow> string) \<Rightarrow> server \<Rightarrow> (link_error, string) res" where
  "ExportShareLink tojson s =
     (case server_validate s of
        Inl e \<Rightarrow> Inl (InvalidRecord e)
      | Inr _ \<Rightarrow>
          if srv_protocol s = ProtocolVLESS then Inr (exportVLESS s)
          else if srv_protocol s = ProtocolVMess then Inr (exportVMess tojson s)
          else if srv_protocol s = ProtocolTrojan then Inr (exportTrojan s)
          else if srv_protocol s = ProtocolShadowsocks then exportShadowsocks s
          else Inl (CannotExport (srv_protocol s)))"

section \<open>When reading a shadowsocks link returns\<close>

definition ss_rest :: "string \<Rightarrow> string" where
  "ss_rest link = fst (cut_at (CHR ''#'') (trim_prefix (trim_prefix link ''ss://'') ''shadowsocks://''))"

definition ss_next :: "string \<Rightarrow> string \<Rightarrow> string \<Rightarrow> bool" where
  "ss_next rnd link link' \<longleftrightarrow> ss_step rnd link = Inl link'"

definition ss_blank :: "string \<Rightarrow> bool" where
  "ss_blank link \<longleftrightarrow> trim_space (ss_rest link) = []"

lemma ss_run_loop:
  assumes inv: "\<And>l. P l \<Longrightarrow> \<exists>l'. ss_step rnd l = Inl l' \<and> P l'" and "P link"
  shows "parseShadowsocks rnd link = None"
proof -
  have "r = rnd \<longrightarrow> \<not> P l" if "parseShadowsocks r l = Some y" for r l y
  proof (rule parseShadowsocks.raw_induct [OF _ that, of "\<lambda>r l y. r = rnd \<longrightarrow> \<not> P l"], intro impI notI)
    fix rec r l y
    assume ih: "\<And>r l y. rec r l = Some y \<Longrightarrow> r = rnd \<longrightarrow> \<not> P l"
      and res: "(case ss_step r l of Inl link' \<Rightarrow> rec r link' | Inr v \<Rightarrow> Some v) = Some y" and "r = rnd" "P l"
    then obtain l' where "ss_step rnd l = Inl l'" "P l'" using inv by blast
    with ih [of rnd l' y] res \<open>r = rnd\<close> show False by simp
  qed
  with assms(2) show ?thesis by (cases "parseShadowsocks rnd link") auto
qed

lemma trim_space_length: "length (trim_space s) \<le> length s"
proof -
  have "length (trim_left s) \<le> length s"
    using trim_left_sublist [of s] by (rule suffix_length_le)
  moreover have "length (trim_right t) \<le> length t" for t
    using trim_right_prefix [of t] by (rule prefix_length_le)
  ultimately show ?thesis unfolding trim_space_def by (meson order_trans)
qed

lemma filter_count: "P a \<Longrightarrow> count_list (filter P s) a = count_list s a"
  by (induction s) auto

lemma count_replicate [simp]: "count_list (replicate n a) a = n"
  by (induction n) auto

lemma shrink_arith: "4 * (d + c) = 3 * n \<Longrightarrow> n \<le> t + q \<Longrightarrow> q \<le> c \<Longrightarrow> 0 < t \<Longrightarrow> d < (t :: nat)"
  by presburger

lemma padded_decode_shorter:
  assumes "b64_decode alpha (padBase64 t) = Some d" "t \<noteq> []"
  shows "length d < length t"
proof -
  let ?f = "filter (\<lambda>c. c \<noteq> CHR 0x0A \<and> c \<noteq> CHR 0x0D) (padBase64 t)"
  define q where "q = length (padBase64 t) - length t"
  have q: "length (padBase64 t) = length t + q" "count_list (padBase64 t) pad_char \<ge> q"
    using mod_less_divisor [of 4 "length t"] by (simp_all add: q_def padBase64_def Let_def pad_char_def) linarith
  have "4 * (length d + count_list ?f pad_char) = 3 * length ?f"
    using assms(1) b64_groups_length unfolding b64_decode_def by blast
  moreover have "count_list ?f pad_char = count_list (padBase64 t) pad_char"
    by (rule filter_count) (simp add: pad_char_def)
  moreover have "length ?f \<le> length (padBase64 t)" by (rule length_filter_le)
  moreover have "0 < length t" using assms(2) by simp
  ultimately show ?thesis using q by (metis shrink_arith)
qed

lemma decode_shorter:
  assumes "decodeBase64URL s = Some d" "trim_space s \<noteq> []"
  shows "length d < length s"
  using assms padded_decode_shorter trim_space_length [of s]
  unfolding decodeBase64URL_def Let_def by (auto split: option.splits intro: less_le_trans)

lemma decode_blank: "trim_space s = [] \<Longrightarrow> decodeBase64URL s = Some []"
  by (simp add: decodeBase64URL_def padBase64_def b64_decode_def)

lemma strip_one_keeps: "strip_one seqs s = Some r \<Longrightarrow> c \<in> set s \<Longrightarrow> c \<notin> set (concat seqs) \<Longrightarrow> c \<in> set r"
  by (auto simp: strip_one_def has_prefix_iff find_Some_iff split: option.splits)

lemma strip_many_keeps: "c \<in> set s \<Longrightarrow> c \<notin> set (concat seqs) \<Longrightarrow> c \<in> set (strip_many n seqs s)"
  by (induction n arbitrary: s) (auto split: option.splits dest: strip_one_keeps)

lemma trim_space_keeps:
  assumes "c \<in> set s" "c \<notin> set (concat space_seqs)" shows "c \<in> set (trim_space s)"
proof -
  have "c \<notin> set (concat (map rev space_seqs))" using assms(2) by auto
  with assms show ?thesis
    unfolding trim_space_def trim_left_def trim_right_def by (simp add: strip_many_keeps)
qed

lemma trim_blank_no_at: "trim_space s = [] \<Longrightarrow> last_index s (CHR ''@'') = None"
  using trim_space_keeps [of "CHR ''@''" s] by (auto simp: last_index_def space_seqs_def)

lemma trim_prefix_length: "length (trim_prefix s p) \<le> length s"
  by (simp add: trim_prefix_def)

lemma cut_fst_length: "length (fst (cut_at c s)) \<le> length s"
  by (simp add: cut_at_def length_takeWhile_le)

lemma cut_trim_length:
  "c \<notin> set p \<Longrightarrow> length (fst (cut_at c (trim_prefix s p))) \<le> length (fst (cut_at c s))"
  by (auto simp: trim_prefix_def has_prefix_iff cut_at_def takeWhile_append)

lemma ss_rest_of: "length (ss_rest (''ss://'' @ body @ CHR ''#'' # name)) \<le> length body"
proof -
  have "trim_prefix (''ss://'' @ body @ CHR ''#'' # name) ''ss://'' = body @ CHR ''#'' # name"
    by (rule trim_prefix_append)
  then have "length (ss_rest (''ss://'' @ body @ CHR ''#'' # name)) \<le> length (fst (cut_at (CHR ''#'') (body @ CHR ''#'' # name)))"
    using cut_trim_length [of "CHR ''#''" "''shadowsocks://''" "body @ CHR ''#'' # name"] by (simp add: ss_rest_def)
  also have "\<dots> \<le> length body"
    by (induction body) (simp_all add: cut_at_def)
  finally show ?thesis .
qed

lemma last_index_at: "last_index s c = Some i \<Longrightarrow> i < length s \<and> s = take i s @ c # drop (i + 1) s"
proof -
  assume a: "last_index s c = Some i"
  define w where "w = takeWhile (\<lambda>x. x \<noteq> c) (rev s)"
  have "c \<in> set s" and i: "i = length s - 1 - length w"
    using a by (auto simp: last_index_def w_def split: if_splits)
  then have "dropWhile (\<lambda>x. x \<noteq> c) (rev s) \<noteq> []" by (simp add: dropWhile_eq_Nil_conv)
  then obtain x z where dw: "dropWhile (\<lambda>x. x \<noteq> c) (rev s) = x # z" by (meson neq_Nil_conv)
  then have "x = c" using hd_dropWhile [of "\<lambda>x. x \<noteq> c" "rev s"] by simp
  then have "rev s = w @ c # z"
    using takeWhile_dropWhile_id [of "\<lambda>x. x \<noteq> c" "rev s"] dw by (simp add: w_def)
  then have s: "s = rev z @ c # rev w" by (simp add: rev_swap)
  have "i = length z" using i s by simp
  then show ?thesis using s by simp
qed

lemma ss_shrinks:
  assumes "ss_next rnd link link'" "\<not> ss_blank link"
  shows "length (ss_rest link') < length (ss_rest link)"
proof (cases "last_index (ss_rest link) (CHR ''@'')")
  case None
  then obtain d name where "decodeBase64URL (ss_rest link) = Some d" "link' = ''ss://'' @ d @ CHR ''#'' # name"
    using assms(1) by (auto simp: ss_next_def ss_step_def ss_rest_def split: prod.splits option.splits)
  then show ?thesis
    using decode_shorter [of "ss_rest link" d] ss_rest_of [of d name] assms(2) by (simp add: ss_blank_def)
next
  case (Some i)
  let ?user = "fst (cut_at (CHR ''?'') (take i (ss_rest link)))" and ?h = "drop (i + 1) (ss_rest link)"
  obtain d name where d: "decodeBase64URL ?user = Some d" "CHR '':'' \<in> set d"
    and l: "link' = ''ss://'' @ (d @ ''@'' @ ?h) @ CHR ''#'' # name"
    using assms(1) Some
    by (auto simp: ss_next_def ss_step_def ss_rest_def Let_def split: prod.splits option.splits if_splits)
  have "length d < length ?user"
    using decode_shorter [OF d(1)] decode_blank [of ?user] d by (cases "trim_space ?user = []") auto
  also have "\<dots> \<le> i"
    using cut_fst_length [of "CHR ''?''" "take i (ss_rest link)"] by simp
  finally have "length (d @ ''@'' @ ?h) < length (ss_rest link)"
    using last_index_at [OF Some] by auto
  with ss_rest_of [of "d @ ''@'' @ ?h" name] show ?thesis unfolding l by linarith
qed

lemma ss_blank_stays: "ss_blank link \<Longrightarrow> \<exists>link'. ss_step rnd link = Inl link' \<and> ss_blank link'"
proof -
  assume b: "ss_blank link"
  obtain name where name: "cut_at (CHR ''#'') (trim_prefix (trim_prefix link ''ss://'') ''shadowsocks://'') = (ss_rest link, name)"
    by (metis ss_rest_def prod.collapse)
  have "ss_step rnd link = Inl (''ss://'' @ [] @ CHR ''#'' # name)"
    using b name by (simp add: ss_step_def ss_blank_def trim_blank_no_at decode_blank)
  moreover have "ss_blank (''ss://'' @ [] @ CHR ''#'' # name)"
    using ss_rest_of [of "[]" name] by (simp add: ss_blank_def)
  ultimately show ?thesis by blast
qed

text \<open>
  C29. Reading a shadowsocks link returns, with a server or an error, exactly when decoding it over and over
  never leaves a link with nothing but blanks before the name; on such a link the function calls itself
  with the same text for ever.
\<close>

theorem shadowsocks_reading_returns:
  "(\<exists>r. parseShadowsocks rnd link = Some r) \<longleftrightarrow> \<not> (\<exists>b. (ss_next rnd)\<^sup>*\<^sup>* link b \<and> ss_blank b)"
proof
  assume "\<exists>r. parseShadowsocks rnd link = Some r"
  then obtain r where r: "parseShadowsocks rnd link = Some r" by blast
  show "\<not> (\<exists>b. (ss_next rnd)\<^sup>*\<^sup>* link b \<and> ss_blank b)"
  proof clarify
    fix b assume "(ss_next rnd)\<^sup>*\<^sup>* link b" "ss_blank b"
    then have "parseShadowsocks rnd link = None"
    proof (induction rule: converse_rtranclp_induct)
      case base
      then show ?case using ss_run_loop [of ss_blank] ss_blank_stays by blast
    next
      case (step l m)
      then show ?case by (subst parseShadowsocks.simps) (simp add: ss_next_def)
    qed
    with r show False by simp
  qed
next
  assume "\<not> (\<exists>b. (ss_next rnd)\<^sup>*\<^sup>* link b \<and> ss_blank b)"
  then show "\<exists>r. parseShadowsocks rnd link = Some r"
  proof (induction "length (ss_rest link)" arbitrary: link rule: less_induct)
    case less
    show ?case
    proof (cases "ss_step rnd link")
      case (Inl m)
      then have nx: "ss_next rnd link m" by (simp add: ss_next_def)
      have "length (ss_rest m) < length (ss_rest link)"
        using ss_shrinks [OF nx] less.prems by blast
      moreover have "\<not> (\<exists>b. (ss_next rnd)\<^sup>*\<^sup>* m b \<and> ss_blank b)"
        using less.prems nx by (meson converse_rtranclp_into_rtranclp)
      ultimately have "\<exists>r. parseShadowsocks rnd m = Some r" by (rule less.hyps)
      with Inl show ?thesis by (subst parseShadowsocks.simps) simp
    next
      case (Inr r)
      then show ?thesis by (subst parseShadowsocks.simps) simp
    qed
  qed
qed

end
