(* ===== verification/Link_Facts.thy ===== *)
theory Link_Facts
  imports Share_Links Url_Facts
begin

text \<open>
  What reading a link back gives after \<open>ExportShareLink\<close> wrote it, and where the two disagree.
\<close>

lemma port_digits:
  assumes "1 \<le> p" "p \<le> 65535"
  shows "list_all is_digit (int_str p)" "atoi (int_str p) = Some p"
proof -
  have s: "int_str p = nat_str (nat p)" using assms(1) by (simp add: int_str_def)
  show "list_all is_digit (int_str p)" unfolding s by (rule nat_str_digits)
  have "nat p < 2 ^ 63" using assms(2) by simp
  from atoi_nat_str [OF this] assms(1) show "atoi (int_str p) = Some p" unfolding s by simp
qed

lemma map_of_set_if [simp]: "map_of (set_if k v) k' = (if k = k' \<and> v \<noteq> [] then Some v else None)"
  by (simp add: set_if_def)

lemma get_set_if: "(case (if v \<noteq> [] then Some v else None) of Some x \<Rightarrow> x | None \<Rightarrow> []) = v"
  by simp

text \<open>Distinct keys of a concatenation of optional entries with known keys.\<close>

fun keyed :: "(string \<times> (string \<times> string) list) list \<Rightarrow> bool" where
  "keyed [] = True"
| "keyed ((k, e) # es) = ((e = [] \<or> (\<exists>v. e = [(k, v)])) \<and> k \<notin> fst ` set es \<and> keyed es)"

lemma keyed_distinct: "keyed es \<Longrightarrow> distinct (map fst (concat (map snd es))) \<and> fst ` set (concat (map snd es)) \<subseteq> fst ` set es"
proof (induction es)
  case (Cons ke es)
  obtain k e where ke: "ke = (k, e)" by (cases ke)
  define r where "r = concat (map snd es)"
  have ih: "distinct (map fst r)" "fst ` set r \<subseteq> fst ` set es" "k \<notin> fst ` set es" "e = [] \<or> (\<exists>v. e = [(k, v)])"
    using Cons ke unfolding r_def by auto
  then have k: "k \<notin> fst ` set r" by blast
  have parts: "concat (map snd (ke # es)) = e @ r" "fst ` set (ke # es) = insert k (fst ` set es)"
    by (simp_all add: ke r_def)
  show ?case
    unfolding parts using ih(4) k ih(1-3) by (elim disjE exE) auto
qed simp

lemma set_if_keyed [simp]: "set_if k v = [] \<or> (\<exists>w. set_if k v = [(k, w)])"
  by (simp add: set_if_def)

definition vless_values :: "server \<Rightarrow> (string \<times> string) list" where
  "vless_values s =
     set_if ''type'' (srv_transport s) @ [(''encryption'', ''none'')] @
     (if srv_security s \<noteq> [] \<and> srv_security s \<noteq> SecurityNone then [(''security'', srv_security s)] else []) @
     set_if ''flow'' (srv_flow s) @ set_if ''sni'' (srv_sni s) @ set_if ''fp'' (srv_fp s) @
     set_if ''pbk'' (srv_pubkey s) @ set_if ''sid'' (srv_shortid s) @ set_if ''path'' (srv_path s) @
     set_if ''host'' (srv_host s) @ set_if ''serviceName'' (srv_service s) @ set_if ''alpn'' (srv_alpn s)"

lemma vless_values_distinct: "distinct (map fst (vless_values s))"
proof -
  let ?sec = "if srv_security s \<noteq> [] \<and> srv_security s \<noteq> SecurityNone then [(''security'', srv_security s)] else []"
  let ?es = "[(''type'', set_if ''type'' (srv_transport s)), (''encryption'', [(''encryption'', ''none'')]),
    (''security'', ?sec), (''flow'', set_if ''flow'' (srv_flow s)), (''sni'', set_if ''sni'' (srv_sni s)),
    (''fp'', set_if ''fp'' (srv_fp s)), (''pbk'', set_if ''pbk'' (srv_pubkey s)), (''sid'', set_if ''sid'' (srv_shortid s)),
    (''path'', set_if ''path'' (srv_path s)), (''host'', set_if ''host'' (srv_host s)),
    (''serviceName'', set_if ''serviceName'' (srv_service s)), (''alpn'', set_if ''alpn'' (srv_alpn s))]"
  have "keyed ?es" by simp
  from keyed_distinct [OF this] show ?thesis by (simp add: vless_values_def)
qed

lemma vless_get:
  "query_get (encode_query (vless_values s)) ''type'' = srv_transport s"
  "query_get (encode_query (vless_values s)) ''security'' = (if srv_security s = SecurityNone then [] else srv_security s)"
  "query_get (encode_query (vless_values s)) ''sni'' = srv_sni s"
  "query_get (encode_query (vless_values s)) ''serverName'' = []"
  "query_get (encode_query (vless_values s)) ''fp'' = srv_fp s"
  "query_get (encode_query (vless_values s)) ''flow'' = srv_flow s"
  "query_get (encode_query (vless_values s)) ''pbk'' = srv_pubkey s"
  "query_get (encode_query (vless_values s)) ''sid'' = srv_shortid s"
  "query_get (encode_query (vless_values s)) ''path'' = srv_path s"
  "query_get (encode_query (vless_values s)) ''host'' = srv_host s"
  "query_get (encode_query (vless_values s)) ''serviceName'' = srv_service s"
  "query_get (encode_query (vless_values s)) ''alpn'' = srv_alpn s"
  unfolding query_get_encode [OF vless_values_distinct]
  by (simp_all add: vless_values_def map_add_def)


lemma vless_url:
  assumes "server_validate s = Inr u" "plain_host (srv_address s)"
  shows "parse_url ip6 5 (exportVLESS s) = Some \<lparr>u_user = Some (srv_uuid s), u_password = None, u_host = hostPort s,
      u_query = encode_query (vless_values s), u_fragment = DisplayName s\<rparr>"
    "list_all graphic (exportVLESS s)" "splitHostPort (hostPort s) = Inr (srv_address s, srv_port s)"
proof -
  note port = port_digits [OF server_validate_ok(2,3) [OF assms(1)]]
  let ?q = "encode_query (vless_values s)"
  have q: "list_all graphic ?q" "CHR ''#'' \<notin> set ?q"
    unfolding encode_query_items by (rule join_items_graphic join_items_no_hash)+
  have letters: "list_all is_letter ''vless''" by (simp add: is_letter_def)
  have link: "exportVLESS s = url_string ''vless'' (srv_uuid s) (srv_address s @ CHR '':'' # int_str (srv_port s)) ?q (DisplayName s)"
    by (simp add: exportVLESS_def vless_values_def hostPort_def)
  show "parse_url ip6 5 (exportVLESS s) = Some \<lparr>u_user = Some (srv_uuid s), u_password = None, u_host = hostPort s,
      u_query = ?q, u_fragment = DisplayName s\<rparr>"
    using parse_url_string [OF assms(2) port(1) q letters] unfolding link hostPort_def by (simp add: eval_nat_numeral)
  show "list_all graphic (exportVLESS s)"
    unfolding link by (rule url_string_graphic [OF assms(2) port(1) q(1) letters])
  show "splitHostPort (hostPort s) = Inr (srv_address s, srv_port s)"
    using split_host_port_bare [OF assms(2) port(1)] port(2) by (simp add: splitHostPort_def hostPort_def)
qed

lemma scheme_of_string:
  "schemeOf (url_string ''vless'' u h q f) = ''vless''" "schemeOf (url_string ''trojan'' u h q f) = ''trojan''"
  by (simp_all add: schemeOf_def url_string_def has_prefix_def)

lemma hostname_of:
  assumes "plain_host a" "list_all is_digit p" "u_host u = a @ CHR '':'' # p"
  shows "Hostname u = a"
proof -
  have no: "c \<notin> set a" "c \<notin> set p" if "c \<in> set ''[]:''" for c
    using that host_no [OF assms(1), of c] digits_no [OF assms(2), of c] by auto
  have "last_index (u_host u) (CHR '':'') = Some (length a)"
    unfolding assms(3) using no(2) [of "CHR '':''"] by (simp add: last_index_sep)
  moreover have "\<not> has_prefix a ''[''"
    using no(1) [of "CHR ''[''"] by (cases a) (auto simp: has_prefix_def)
  ultimately show ?thesis
    using assms by (simp add: Hostname_def optional_port_ok_def)
qed

text \<open>
  C30. Exporting a VLESS server with a plain host name and reading the link back gives a new record with the
  same endpoint, identity and transport settings: every exported field survives, the local fields start
  fresh, and the name is the display name, percent-decoded once more than it was encoded.
\<close>

theorem vless_link_round_trip:
  assumes "srv_protocol s = ProtocolVLESS" "server_validate s = Inr ()" "plain_host (srv_address s)"
    and "looksLikeUUID (srv_uuid s)"
  shows "\<exists>link. ExportShareLink tojson s = Inr link \<and>
    ParseShareLink ip6 unjson rnd link = Some (Inr (Normalize rnd ((new_server ProtocolVLESS)
      \<lparr>srv_uuid := srv_uuid s, srv_address := srv_address s, srv_port := srv_port s, srv_transport := srv_transport s,
       srv_security := (if srv_security s = SecurityNone then [] else srv_security s), srv_sni := srv_sni s,
       srv_fp := srv_fp s, srv_flow := srv_flow s, srv_pubkey := srv_pubkey s, srv_shortid := srv_shortid s,
       srv_path := srv_path s, srv_host := srv_host s, srv_service := srv_service s, srv_alpn := srv_alpn s,
       srv_name := (if DisplayName s = [] then srv_address s else unescaped_or_same (DisplayName s))\<rparr>)))"
proof -
  note u = vless_url [OF assms(2,3)]
  have scheme: "schemeOf (exportVLESS s) = ''vless''"
    unfolding exportVLESS_def by (rule scheme_of_string)
  have ne: "exportVLESS s \<noteq> []" by (simp add: exportVLESS_def url_string_def)
  let ?url = "\<lparr>u_user = Some (srv_uuid s), u_password = None, u_host = hostPort s,
      u_query = encode_query (vless_values s), u_fragment = DisplayName s\<rparr>"
  have "Hostname ?url = srv_address s"
    by (rule hostname_of [OF assms(3) port_digits(1) [OF server_validate_ok(2,3) [OF assms(2)]]]) (simp add: hostPort_def)
  then have name: "displayName ?url = (if DisplayName s = [] then srv_address s else unescaped_or_same (DisplayName s))"
    unfolding displayName_def by (metis url.select_convs(5))
  let ?raw = "(new_server ProtocolVLESS)
      \<lparr>srv_uuid := srv_uuid s, srv_address := srv_address s, srv_port := srv_port s, srv_transport := srv_transport s,
       srv_security := (if srv_security s = SecurityNone then [] else srv_security s), srv_sni := srv_sni s,
       srv_fp := srv_fp s, srv_flow := srv_flow s, srv_pubkey := srv_pubkey s, srv_shortid := srv_shortid s,
       srv_path := srv_path s, srv_host := srv_host s, srv_service := srv_service s, srv_alpn := srv_alpn s,
       srv_name := (if DisplayName s = [] then srv_address s else unescaped_or_same (DisplayName s))\<rparr>"
  have valid: "server_validate ?raw = Inr ()"
    using assms(2) server_validate_ok [OF assms(2)] assms(1) by (simp add: server_validate_def new_server_def)
  have pu: "parse_url ip6 (length (schemeOf (exportVLESS s))) (exportVLESS s) = Some ?url"
    unfolding scheme using u(1) by (simp add: eval_nat_numeral)
  have checked: "checked rnd ?raw = Inr (Normalize rnd ?raw)"
    unfolding checked_def Let_def normalize_validate valid by simp
  have sni: "firstNonEmpty [srv_sni s, []] = srv_sni s" by simp
  have uuid: "looksLikeUUID (srv_uuid (Normalize rnd ?raw))"
    using assms(4) by (simp add: Normalize_def)
  have "parseVLESS ip6 rnd (exportVLESS s) = Inr (Normalize rnd ?raw)"
    by (simp only: parseVLESS_def pu option.case url.select_convs u(3) sum.case prod.case Let_def vless_get
        Username_def name sni checked uuid if_True)
  then have "ParseShareLink ip6 unjson rnd (exportVLESS s) = Some (Inr (Normalize rnd ?raw))"
    using scheme ne graphic_trim [OF u(2)] by (simp add: ParseShareLink_def has_prefix_def)
  moreover have "ExportShareLink tojson s = Inr (exportVLESS s)"
    using assms(1,2) by (simp add: ExportShareLink_def)
  ultimately show ?thesis by blast
qed

definition sample_vless :: server where
  "sample_vless =
     (new_server ProtocolVLESS)\<lparr>srv_name := ''node'', srv_address := ''h.example'', srv_port := 443,
        srv_uuid := ''01234567-89ab-cdef-0123-456789abcdef'', srv_security := SecurityTLS, srv_path := ''/a b''\<rparr>"

lemma sample_vless_ok:
  "srv_protocol sample_vless = ProtocolVLESS" "server_validate sample_vless = Inr ()"
  "plain_host (srv_address sample_vless)" "looksLikeUUID (srv_uuid sample_vless)"
  by code_simp+

theorem vless_link_round_trip_witness:
  "\<exists>link s'. ExportShareLink (\<lambda>_. []) sample_vless = Inr link \<and>
     ParseShareLink (\<lambda>_. False) (\<lambda>_. None) [] link = Some (Inr s') \<and> srv_path s' = ''/a b''"
proof -
  obtain link s' where "ExportShareLink (\<lambda>_. []) sample_vless = Inr link"
    "ParseShareLink (\<lambda>_. False) (\<lambda>_. None) [] link = Some (Inr s')" "srv_path s' = srv_path sample_vless"
    using vless_link_round_trip [OF sample_vless_ok, of "\<lambda>_. []" "\<lambda>_. False" "\<lambda>_. None" "[]"]
    by (fastforce simp: Normalize_def)
  moreover have "srv_path sample_vless = ''/a b''" by code_simp
  ultimately show ?thesis by metis
qed

section \<open>Links that are not read as they were meant\<close>

lemma dispatch_ss:
  "trim_space l = l \<Longrightarrow> lower_runes (schemeOf l) = ''ss'' \<Longrightarrow> l \<noteq> [] \<Longrightarrow>
     ParseShareLink ip6 unjson rnd l = parseShadowsocks rnd l"
  by (simp add: ParseShareLink_def Let_def)

text \<open>
  The link \<open>ss://\<close>, which any subscription body can hold, is never answered: the reader calls itself
  with \<open>ss://#\<close> again and again.
\<close>

theorem blank_shadowsocks_link_never_returns:
  "ParseShareLink ip6 unjson rnd ''ss://'' = None"
proof -
  have "ss_step rnd ''ss://'' = Inl ''ss://#''" "ss_step rnd ''ss://#'' = Inl ''ss://#''" by code_simp+
  then have "parseShadowsocks rnd ''ss://'' = None"
    by (intro ss_run_loop [of "\<lambda>l. l \<in> {''ss://'', ''ss://#''}"]) auto
  moreover have "trim_space ''ss://'' = ''ss://''" "lower_runes (schemeOf ''ss://'') = ''ss''" by code_simp+
  ultimately show ?thesis by (simp add: dispatch_ss del: lower_runes.simps)
qed

definition sample_ss :: server where
  "sample_ss =
     (new_server ProtocolShadowsocks)\<lparr>srv_name := ''n'', srv_address := ''h'', srv_port := 443, srv_method := ''m'',
        srv_password := ''a?b''\<rparr>"

definition sample_trojan :: server where
  "sample_trojan =
     (new_server ProtocolTrojan)\<lparr>srv_name := ''n'', srv_address := ''h'', srv_port := 443, srv_password := ''p%41'',
        srv_security := SecurityNone\<rparr>"

definition read_password :: "(link_error, server) res option \<Rightarrow> string option" where
  "read_password r = (case r of Some (Inr s) \<Rightarrow> Some (srv_password s) | _ \<Rightarrow> None)"

text \<open>
  Passwords do not survive export and import: the exported link of a shadowsocks server whose password is
  \<open>a?b\<close> is read back with the password \<open>a\<close>, and that of a trojan server whose password is \<open>p%41\<close> with \<open>pA\<close>
  and with TLS switched on.
\<close>

theorem exported_passwords_change:
  "(\<exists>link. ExportShareLink tojson sample_ss = Inr link \<and>
     read_password (ParseShareLink ip6 unjson rnd link) = Some ''a'') \<and>
   (\<exists>link s'. ExportShareLink tojson sample_trojan = Inr link \<and> ParseShareLink ip6 unjson rnd link = Some (Inr s') \<and>
     srv_password s' = ''pA'' \<and> srv_security s' = SecurityTLS)"
proof (rule conjI)
  let ?ss = "''ss://bTphP2I=@h:443#n''"
  have link: "server_validate sample_ss = Inr ()" "srv_protocol sample_ss = ''shadowsocks''"
    "exportShadowsocks sample_ss = Inr ?ss" by code_simp+
  have scheme: "trim_space ?ss = ?ss" "lower_runes (schemeOf ?ss) = ''ss''" by code_simp+
  have steps: "ss_step rnd ?ss = Inl ''ss://m:a?b@h:443#n''"
    "(case ss_step rnd ''ss://m:a?b@h:443#n'' of Inr v \<Rightarrow> read_password (Some v) | Inl _ \<Rightarrow> None) = Some ''a''" by code_simp+
  then have "read_password (parseShadowsocks rnd ?ss) = Some ''a''"
    by (subst parseShadowsocks.simps, simp, subst parseShadowsocks.simps) (simp split: sum.splits)
  then have "read_password (ParseShareLink ip6 unjson rnd ?ss) = Some ''a''"
    by (simp add: dispatch_ss scheme del: lower_runes.simps)
  moreover have "ExportShareLink tojson sample_ss = Inr ?ss"
    using link by (simp add: ExportShareLink_def protocols)
  ultimately show "\<exists>link. ExportShareLink tojson sample_ss = Inr link \<and>
     read_password (ParseShareLink ip6 unjson rnd link) = Some ''a''" by blast
next
  let ?tr = "''trojan://p%2541@h:443#n''"
  have link: "server_validate sample_trojan = Inr ()" "srv_protocol sample_trojan = ''trojan''"
    "exportTrojan sample_trojan = ?tr" by code_simp+
  have scheme: "trim_space ?tr = ?tr" "lower_runes (schemeOf ?tr) = ''trojan''" by code_simp+
  have "(case parseTrojan ip6 rnd ?tr of Inr s' \<Rightarrow> srv_password s' = ''pA'' \<and> srv_security s' = SecurityTLS | Inl _ \<Rightarrow> False)"
    by code_simp
  then obtain s' where "parseTrojan ip6 rnd ?tr = Inr s'" "srv_password s' = ''pA''" "srv_security s' = SecurityTLS"
    by (auto split: sum.splits)
  moreover have "ExportShareLink tojson sample_trojan = Inr ?tr"
    using link by (simp add: ExportShareLink_def protocols)
  moreover have "ParseShareLink ip6 unjson rnd ?tr = Some (parseTrojan ip6 rnd ?tr)"
    by (simp add: ParseShareLink_def scheme)
  ultimately show "\<exists>link s'. ExportShareLink tojson sample_trojan = Inr link \<and>
     ParseShareLink ip6 unjson rnd link = Some (Inr s') \<and> srv_password s' = ''pA'' \<and> srv_security s' = SecurityTLS"
    by (metis Pair_inject)
qed

end
