(* ===== verification/Subscriptions.thy ===== *)
theory Subscriptions
  imports Share_Links
begin

text \<open>
  Subscriptions: fetching, splitting and parsing a body, the merge with the stored servers
  (\<open>subscriptions/subscriptions.go\<close>), and the refresh of the daemon that applies the result
  (\<open>refreshSubscriptions\<close> of \<open>cmd/connectived/main.go\<close>). The network is a parameter: a transport that answers
  a proxy (empty for a direct request) and an address. A result of None means that the call never returns,
  which only the parser of share links can cause. Times are seconds, None for the zero time.
\<close>

definition MaxSubscriptionBytes :: int where "MaxSubscriptionBytes = 10 * 2 ^ 20"

record traffic =
  t_upload :: int
  t_download :: int
  t_total :: int
  t_expire :: "int option"
  t_has_limit :: bool
  t_has_exp :: bool

definition no_traffic :: traffic where
  "no_traffic = \<lparr>t_upload = 0, t_download = 0, t_total = 0, t_expire = None, t_has_limit = False, t_has_exp = False\<rparr>"

record subscription =
  sub_id :: string
  sub_name :: string
  sub_url :: string
  sub_more :: "string list"
  sub_agent :: string
  sub_enabled :: bool
  sub_interval :: int
  sub_last_update :: "int option"
  sub_traffic :: traffic
  sub_count :: int
  sub_error :: string

record update_result =
  ur_servers :: "server list"
  ur_traffic :: traffic

datatype sub_fault =
    NoId | NoUrl string | OnlyHttp string | BadProxy | DownloadFailed | HttpStatus int | BodyTooLarge
  | NoLinks | NoneParsed nat

definition sub_validate :: "subscription \<Rightarrow> (sub_fault, unit) res" where
  "sub_validate s =
     (let u = trim_space (sub_url s)
      in if trim_space (sub_id s) = [] then Inl NoId
         else if u = [] then Inl (NoUrl (sub_name s))
         else if \<not> has_prefix u ''http://'' \<and> \<not> has_prefix u ''https://'' then Inl (OnlyHttp (sub_name s))
         else Inr ())"

section \<open>Fetching\<close>

record http_reply =
  h_status :: int
  h_body :: string
  h_userinfo :: string

record fetcher =
  f_proxy :: string
  f_try_proxy :: bool

definition parseProxyURL :: "(string \<Rightarrow> string option) \<Rightarrow> string \<Rightarrow> bool" where
  "parseProxyURL scheme_of raw \<longleftrightarrow>
     (case scheme_of raw of None \<Rightarrow> False | Some s \<Rightarrow> s \<in> set [''http'', ''https'', ''socks5''])"

definition fetchVia ::
    "(string \<Rightarrow> string option) \<Rightarrow> (string \<Rightarrow> string \<Rightarrow> http_reply option) \<Rightarrow> string \<Rightarrow> string \<Rightarrow>
     (sub_fault, string \<times> string) res" where
  "fetchVia scheme_of net addr proxy =
     (if proxy \<noteq> [] \<and> \<not> parseProxyURL scheme_of proxy then Inl BadProxy
      else
        case net proxy addr of
          None \<Rightarrow> Inl DownloadFailed
        | Some r \<Rightarrow>
            if h_status r < 200 \<or> h_status r \<ge> 300 then Inl (HttpStatus (h_status r))
            else
              let raw = read_limited (MaxSubscriptionBytes + 1) (h_body r)
              in if int (length raw) > MaxSubscriptionBytes then Inl BodyTooLarge
                 else Inr (raw, h_userinfo r))"

definition Fetch ::
    "(string \<Rightarrow> string option) \<Rightarrow> (string \<Rightarrow> string \<Rightarrow> http_reply option) \<Rightarrow> fetcher \<Rightarrow> string \<Rightarrow>
     (sub_fault, string \<times> string) res" where
  "Fetch scheme_of net f addr =
     (case (if f_try_proxy f \<and> f_proxy f \<noteq> [] then fetchVia scheme_of net addr (f_proxy f) else Inl DownloadFailed) of
        Inr r \<Rightarrow> Inr r
      | Inl _ \<Rightarrow> fetchVia scheme_of net addr [])"

section \<open>Bodies\<close>

definition linkLines :: "string \<Rightarrow> string list" where
  "linkLines body =
     filter (\<lambda>l. l \<noteq> [] \<and> \<not> has_prefix l ''#'' \<and> str_contains l ''://'')
       (map (\<lambda>l. trim_space (trim_suffix l [CHR 0x0D])) (split_on (CHR 0x0A) body))"

definition decoded_lines :: "bool \<Rightarrow> string \<Rightarrow> string list" where
  "decoded_lines alpha body = (case b64_decode alpha (padBase64 body) of Some d \<Rightarrow> linkLines d | None \<Rightarrow> [])"

definition SplitLinks :: "string \<Rightarrow> string list" where
  "SplitLinks body0 =
     (let body = trim_space body0
      in if body = [] then []
         else if linkLines body \<noteq> [] then linkLines body
         else if decoded_lines False body \<noteq> [] then decoded_lines False body
         else decoded_lines True body)"

text \<open>One \<open>key=value\<close> part of the user-info header.\<close>

definition userinfo_part :: "string \<Rightarrow> traffic \<Rightarrow> traffic" where
  "userinfo_part part t =
     (let kv = trim_space part
      in if CHR ''='' \<notin> set kv then t
         else
           let (k, v) = cut_at (CHR ''='') kv; key = trim_space k
           in case atoi (trim_space v) of
                None \<Rightarrow> t
              | Some n \<Rightarrow>
                  if key = ''upload'' then t\<lparr>t_upload := n\<rparr>
                  else if key = ''download'' then t\<lparr>t_download := n\<rparr>
                  else if key = ''total'' then t\<lparr>t_total := n, t_has_limit := n > 0\<rparr>
                  else if key = ''expire'' \<and> n > 0 then t\<lparr>t_expire := Some n, t_has_exp := True\<rparr>
                  else t)"

definition ParseUserInfo :: "string \<Rightarrow> traffic" where
  "ParseUserInfo header = fold userinfo_part (split_on (CHR '';'') header) no_traffic"

text \<open>The loop of \<open>parseBody\<close>; \<open>parse j\<close> reads the link at position \<open>j\<close>, with its own random identity.\<close>

fun parse_links ::
    "(nat \<Rightarrow> string \<Rightarrow> (link_error, server) res option) \<Rightarrow> string \<Rightarrow> nat \<Rightarrow> string list \<Rightarrow> string list \<Rightarrow> server list option" where
  "parse_links parse sid j seen [] = Some []"
| "parse_links parse sid j seen (l # ls) =
     (case parse j l of
        None \<Rightarrow> None
      | Some (Inl _) \<Rightarrow> parse_links parse sid (j + 1) seen ls
      | Some (Inr s) \<Rightarrow>
          if server_key s \<in> set seen then parse_links parse sid (j + 1) seen ls
          else map_option (Cons (s\<lparr>srv_subscription := sid\<rparr>)) (parse_links parse sid (j + 1) (server_key s # seen) ls))"

definition parseBody ::
    "(nat \<Rightarrow> string \<Rightarrow> (link_error, server) res option) \<Rightarrow> string \<Rightarrow> string \<Rightarrow> string \<Rightarrow> (sub_fault, update_result) res option" where
  "parseBody parse body userinfo sid =
     (let links = SplitLinks body
      in if links = [] then Some (Inl NoLinks)
         else case parse_links parse sid 0 [] links of
           None \<Rightarrow> None
         | Some ss \<Rightarrow>
             if ss = [] then Some (Inl (NoneParsed (length links)))
             else Some (Inr \<lparr>ur_servers = ss, ur_traffic = ParseUserInfo userinfo\<rparr>))"

section \<open>Updating\<close>

text \<open>The text that an extra address adds to the body.\<close>

definition mirror_text :: "(string \<Rightarrow> (sub_fault, string \<times> string) res) \<Rightarrow> string \<Rightarrow> string" where
  "mirror_text fetch extra =
     (let addr = trim_space extra
      in if addr = [] then []
         else case fetch addr of
           Inl _ \<Rightarrow> []
         | Inr (got, _) \<Rightarrow>
             CHR 0x0A # (case b64_decode False (padBase64 (trim_space got)) of Some d \<Rightarrow> d | None \<Rightarrow> got))"

definition UpdateOne ::
    "(nat \<Rightarrow> string \<Rightarrow> (link_error, server) res option) \<Rightarrow> (string \<Rightarrow> (sub_fault, string \<times> string) res) \<Rightarrow>
     subscription \<Rightarrow> (sub_fault, update_result) res option" where
  "UpdateOne parse fetch sub =
     (case sub_validate sub of
        Inl e \<Rightarrow> Some (Inl e)
      | Inr _ \<Rightarrow>
          (case fetch (sub_url sub) of
             Inl e \<Rightarrow> Some (Inl e)
           | Inr (body, userinfo) \<Rightarrow>
               parseBody parse (body @ concat (map (mirror_text fetch) (sub_more sub))) userinfo (sub_id sub)))"

text \<open>
  The loop of \<open>UpdateAll\<close>. The subscription at position \<open>i\<close> is updated at time \<open>now i\<close>, and \<open>text\<close> renders an
  error, never as the empty string.
\<close>

fun update_all ::
    "(nat \<Rightarrow> nat \<Rightarrow> string \<Rightarrow> (link_error, server) res option) \<Rightarrow> (string \<Rightarrow> (sub_fault, string \<times> string) res) \<Rightarrow>
     (nat \<Rightarrow> int) \<Rightarrow> (sub_fault \<Rightarrow> string) \<Rightarrow> nat \<Rightarrow> subscription list \<Rightarrow> (server list \<times> subscription list) option" where
  "update_all parse fetch now render i [] = Some ([], [])"
| "update_all parse fetch now render i (sub # subs) =
     (if \<not> sub_enabled sub
      then map_option (\<lambda>(ss, out). (ss, sub # out)) (update_all parse fetch now render (i + 1) subs)
      else
        case UpdateOne (parse i) fetch sub of
          None \<Rightarrow> None
        | Some (Inl e) \<Rightarrow>
            map_option (\<lambda>(ss, out). (ss, sub\<lparr>sub_error := render e\<rparr> # out)) (update_all parse fetch now render (i + 1) subs)
        | Some (Inr r) \<Rightarrow>
            map_option (\<lambda>(ss, out). (ur_servers r @ ss,
                sub\<lparr>sub_error := [], sub_last_update := Some (now i), sub_traffic := ur_traffic r,
                    sub_count := int (length (ur_servers r))\<rparr> # out))
              (update_all parse fetch now render (i + 1) subs))"

definition Update ::
    "(nat \<Rightarrow> string \<Rightarrow> (link_error, server) res option) \<Rightarrow> (string \<Rightarrow> (sub_fault, string \<times> string) res) \<Rightarrow>
     string \<Rightarrow> string \<Rightarrow> (sub_fault, update_result) res option" where
  "Update parse fetch subURL subID =
     (case fetch subURL of
        Inl e \<Rightarrow> Some (Inl e)
      | Inr (body, userinfo) \<Rightarrow> parseBody parse body userinfo subID)"

section \<open>Merging\<close>

text \<open>The last stored server with a key decides, as in the map the code builds.\<close>

definition by_key :: "server list \<Rightarrow> string \<Rightarrow> server option" where
  "by_key ss k = find (\<lambda>s. server_key s = k) (rev ss)"

definition keep_local :: "server \<Rightarrow> server \<Rightarrow> server" where
  "keep_local old f =
     f\<lparr>srv_id := srv_id old, srv_favorite := srv_favorite old, srv_custom := srv_custom old,
       srv_latency := srv_latency old, srv_last_test := srv_last_test old, srv_health := srv_health old\<rparr>"

definition Merge :: "server list \<Rightarrow> server list \<Rightarrow> server list" where
  "Merge existing fresh =
     map (\<lambda>f. case by_key existing (server_key f) of Some old \<Rightarrow> keep_local old f | None \<Rightarrow> f) fresh"

section \<open>The daemon's refresh\<close>

record catalogue =
  c_subs :: "subscription list"
  c_servers :: "server list"

text \<open>The subscriptions a refresh of \<open>onlyID\<close> (empty for all) works on.\<close>

definition refresh_targets :: "string \<Rightarrow> catalogue \<Rightarrow> subscription list" where
  "refresh_targets onlyID c = filter (\<lambda>s. onlyID = [] \<or> sub_id s = onlyID) (c_subs c)"

text \<open>The values of \<open>byID\<close>, in some order that the runtime chooses: \<open>order\<close> permutes its argument.\<close>

definition subs_by_id :: "subscription list \<Rightarrow> subscription list \<Rightarrow> subscription list" where
  "subs_by_id subs updated =
     (let all = subs @ updated; m = map_of (rev (map (\<lambda>s. (sub_id s, s)) all))
      in List.map_filter m (remdups (map sub_id all)))"

definition refreshed :: "subscription list \<Rightarrow> string \<Rightarrow> bool" where
  "refreshed updated i \<longleftrightarrow> list_ex (\<lambda>u. sub_id u = i \<and> sub_error u = []) updated"

definition refresh_finish ::
    "(subscription list \<Rightarrow> subscription list) \<Rightarrow> server list \<Rightarrow> subscription list \<Rightarrow> catalogue \<Rightarrow> catalogue" where
  "refresh_finish order fresh updated c =
     c\<lparr>c_subs := order (subs_by_id (c_subs c) updated),
       c_servers :=
         filter (\<lambda>s. srv_subscription s = [] \<or> \<not> refreshed updated (srv_subscription s)) (c_servers c) @
         Merge (c_servers c) fresh\<rparr>"

definition refresh_count :: "string \<Rightarrow> subscription list \<Rightarrow> nat option" where
  "refresh_count onlyID updated =
     (let n = length (filter (\<lambda>u. sub_error u = []) updated) in if onlyID \<noteq> [] \<and> n = 0 then None else Some n)"

section \<open>What a body yields\<close>

lemma checked_valid: "checked rnd s = Inr s' \<Longrightarrow> server_validate s' = Inr ()"
  by (auto simp: checked_def Let_def split: sum.splits)

lemma ss_server_valid: "ss_server rnd name m p hp = Inr s \<Longrightarrow> server_validate s = Inr ()"
  by (auto simp: ss_server_def split: if_splits sum.splits dest: checked_valid)

lemma ss_step_valid: "ss_step rnd link = Inr (Inr s) \<Longrightarrow> server_validate s = Inr ()"
  by (auto simp: ss_step_def Let_def split: prod.splits option.splits if_splits dest: ss_server_valid)

lemma parseShadowsocks_valid:
  assumes "parseShadowsocks rnd link = Some (Inr s)"
  shows "server_validate s = Inr ()"
proof -
  have "r = Inr s \<longrightarrow> server_validate s = Inr ()" if "parseShadowsocks rnd link = Some r" for r
  proof (rule parseShadowsocks.raw_induct [OF _ that, of "\<lambda>_ _ r. r = Inr s \<longrightarrow> server_validate s = Inr ()"], rule impI)
    fix rec rnd link r
    assume "\<And>rnd link r. rec rnd link = Some r \<Longrightarrow> r = Inr s \<longrightarrow> server_validate s = Inr ()"
      and "(case ss_step rnd link of Inl link' \<Rightarrow> rec rnd link' | Inr v \<Rightarrow> Some v) = Some r" and "r = Inr s"
    then show "server_validate s = Inr ()" by (auto split: sum.splits dest: ss_step_valid)
  qed
  with assms show ?thesis by blast
qed

lemma parseVLESS_valid: "parseVLESS ip6 rnd link = Inr s \<Longrightarrow> server_validate s = Inr ()"
  by (auto simp: parseVLESS_def Let_def split: option.splits sum.splits if_splits dest: checked_valid)

lemma parseTrojan_valid: "parseTrojan ip6 rnd link = Inr s \<Longrightarrow> server_validate s = Inr ()"
  by (auto simp: parseTrojan_def Let_def split: option.splits sum.splits if_splits prod.splits dest: checked_valid)

lemma parseVMess_valid: "parseVMess unjson rnd link = Inr s \<Longrightarrow> server_validate s = Inr ()"
  by (auto simp: parseVMess_def Let_def split: option.splits sum.splits if_splits dest: checked_valid)

lemma ParseShareLink_valid: "ParseShareLink ip6 unjson rnd link = Some (Inr s) \<Longrightarrow> server_validate s = Inr ()"
  unfolding ParseShareLink_def Let_def
  by (auto split: if_splits dest: parseVLESS_valid parseTrojan_valid parseVMess_valid parseShadowsocks_valid)

lemma server_key_sub [simp]: "server_key (s\<lparr>srv_subscription := sid\<rparr>) = server_key s"
  by (simp add: server_key_def)

lemma validate_sub [simp]: "server_validate (s\<lparr>srv_subscription := sid\<rparr>) = server_validate s"
  by (simp add: server_validate_def)

lemma parse_links_result:
  assumes "parse_links parse sid j seen ls = Some ss"
    and "\<And>j l s. parse j l = Some (Inr s) \<Longrightarrow> server_validate s = Inr ()"
  shows "distinct (map server_key ss) \<and> set (map server_key ss) \<inter> set seen = {} \<and>
    list_all (\<lambda>s. server_validate s = Inr () \<and> srv_subscription s = sid) ss \<and> length ss \<le> length ls"
  using assms(1)
proof (induction ls arbitrary: j seen ss)
  case (Cons l ls)
  from Cons.prems consider
      (skip) "parse_links parse sid (j + 1) seen ls = Some ss"
    | (keep) s rest where "parse j l = Some (Inr s)" "server_key s \<notin> set seen"
        "parse_links parse sid (j + 1) (server_key s # seen) ls = Some rest" "ss = s\<lparr>srv_subscription := sid\<rparr> # rest"
    by (auto split: option.splits sum.splits if_splits)
  then show ?case
  proof cases
    case skip
    then show ?thesis using Cons.IH [of "j + 1" seen ss] by simp
  next
    case keep
    then show ?thesis using Cons.IH [OF keep(3)] assms(2) by auto
  qed
qed simp

text \<open>
  What an update of a subscription yields is fit to be stored: at least one server, all of them valid,
  tagged with the subscription and with different keys, whatever the network answered.
\<close>

theorem subscription_servers_valid:
  assumes "UpdateOne (\<lambda>j. ParseShareLink ip6 unjson (rnd j)) fetch sub = Some (Inr res)"
  shows "ur_servers res \<noteq> [] \<and> distinct (map server_key (ur_servers res)) \<and>
    list_all (\<lambda>s. server_validate s = Inr () \<and> srv_subscription s = sub_id sub) (ur_servers res)"
proof -
  let ?parse = "\<lambda>j. ParseShareLink ip6 unjson (rnd j)"
  obtain links where links: "parse_links ?parse (sub_id sub) 0 [] links = Some (ur_servers res)" and ne: "ur_servers res \<noteq> []"
    using assms by (auto simp: UpdateOne_def parseBody_def Let_def split: sum.splits option.splits if_splits)
  have "distinct (map server_key (ur_servers res)) \<and> set (map server_key (ur_servers res)) \<inter> set [] = {} \<and>
    list_all (\<lambda>s. server_validate s = Inr () \<and> srv_subscription s = sub_id sub) (ur_servers res) \<and>
    length (ur_servers res) \<le> length links"
    by (rule parse_links_result [OF links]) (rule ParseShareLink_valid)
  with ne show ?thesis by blast
qed

section \<open>Identity across a merge\<close>

lemma by_key_mem: "by_key ss k = Some s \<Longrightarrow> s \<in> set ss \<and> server_key s = k"
  by (auto simp: by_key_def find_Some_iff) (metis nth_mem set_rev length_rev)

lemma keep_local_key [simp]: "server_key (keep_local old f) = server_key f"
  by (simp add: keep_local_def server_key_def)

lemma keep_local_twice [simp]: "keep_local old (keep_local old f) = keep_local old f"
  by (simp add: keep_local_def)

lemma merge_keys [simp]: "map server_key (Merge existing fresh) = map server_key fresh"
  by (simp add: Merge_def split: option.split)

text \<open>
  Merging keeps identities: the merged list describes the fetched servers in their order, merging again
  changes nothing, every server that was stored keeps its local data, and no two servers get the same identity
  when the fetched keys differ and the stored identities are distinct from each other and from the fresh ones.
\<close>

theorem merge_keeps_identity:
  assumes "distinct (map server_key fresh)" "distinct (map srv_id existing)" "distinct (map srv_id fresh)"
    and "set (map srv_id existing) \<inter> set (map srv_id fresh) = {}"
  shows "map server_key (Merge existing fresh) = map server_key fresh \<and>
    Merge existing (Merge existing fresh) = Merge existing fresh \<and>
    distinct (map srv_id (Merge existing fresh))"
proof (intro conjI)
  let ?m = "\<lambda>f. case by_key existing (server_key f) of Some old \<Rightarrow> keep_local old f | None \<Rightarrow> f"
  show "Merge existing (Merge existing fresh) = Merge existing fresh"
    unfolding Merge_def by (simp split: option.split)
  have inj: "s = t" if "s \<in> set existing" "t \<in> set existing" "srv_id s = srv_id t" for s t
    using that assms(2) by (auto simp: distinct_map dest: inj_onD)
  have "inj_on (\<lambda>f. srv_id (?m f)) (set fresh)"
  proof (rule inj_onI)
    fix f g assume fg: "f \<in> set fresh" "g \<in> set fresh" "srv_id (?m f) = srv_id (?m g)"
    have fresh_id: "srv_id h \<notin> srv_id ` set existing" if "h \<in> set fresh" for h
      using that assms(4) by auto
    show "f = g"
    proof (cases "by_key existing (server_key f)"; cases "by_key existing (server_key g)")
      fix a b assume ab: "by_key existing (server_key f) = Some a" "by_key existing (server_key g) = Some b"
      then have "srv_id a = srv_id b" using fg(3) by (simp add: keep_local_def)
      with by_key_mem [OF ab(1)] by_key_mem [OF ab(2)] have "a = b" using inj by blast
      with by_key_mem [OF ab(1)] by_key_mem [OF ab(2)] have "server_key f = server_key g" by simp
      with fg(1,2) assms(1) show ?thesis by (auto simp: distinct_map dest: inj_onD)
    next
      assume "by_key existing (server_key f) = None" "by_key existing (server_key g) = None"
      with fg assms(3) show ?thesis by (auto simp: distinct_map dest: inj_onD)
    next
      fix a assume a: "by_key existing (server_key f) = Some a" "by_key existing (server_key g) = None"
      then have "srv_id g = srv_id a" using fg(3) by (simp add: keep_local_def)
      with by_key_mem [OF a(1)] fresh_id [OF fg(2)] show ?thesis by blast
    next
      fix b assume b: "by_key existing (server_key f) = None" "by_key existing (server_key g) = Some b"
      then have "srv_id f = srv_id b" using fg(3) by (simp add: keep_local_def)
      with by_key_mem [OF b(2)] fresh_id [OF fg(1)] show ?thesis by blast
    qed
  qed
  moreover have "distinct fresh" using assms(1) by (simp add: distinct_map)
  ultimately show "distinct (map srv_id (Merge existing fresh))"
    by (simp add: Merge_def distinct_map comp_def inj_on_def)
qed simp

definition stored :: "string \<Rightarrow> string \<Rightarrow> server" where
  "stored i host = (new_server ProtocolTrojan)\<lparr>srv_id := i, srv_address := host, srv_port := 443, srv_password := ''p''\<rparr>"

theorem merge_keeps_identity_witness:
  "map srv_id (Merge [stored ''1'' ''a'', stored ''2'' ''b''] [stored ''3'' ''b'', stored ''4'' ''c'']) = [''2'', ''4''] \<and>
   distinct (map srv_id (Merge [stored ''1'' ''a'', stored ''2'' ''b''] [stored ''3'' ''b'', stored ''4'' ''c'']))"
proof -
  have "map srv_id (Merge [stored ''1'' ''a'', stored ''2'' ''b''] [stored ''3'' ''b'', stored ''4'' ''c'']) = [''2'', ''4'']"
    by code_simp
  moreover have "distinct (map server_key [stored ''3'' ''b'', stored ''4'' ''c''])"
    "distinct (map srv_id [stored ''1'' ''a'', stored ''2'' ''b''])" "distinct (map srv_id [stored ''3'' ''b'', stored ''4'' ''c''])"
    "set (map srv_id [stored ''1'' ''a'', stored ''2'' ''b'']) \<inter> set (map srv_id [stored ''3'' ''b'', stored ''4'' ''c'']) = {}"
    by code_simp+
  note merge_keeps_identity [OF this]
  ultimately show ?thesis by blast
qed

definition sample_sub :: subscription where
  "sample_sub =
     \<lparr>sub_id = ''s'', sub_name = ''S'', sub_url = ''http://u'', sub_more = [], sub_agent = [], sub_enabled = True,
      sub_interval = 0, sub_last_update = None, sub_traffic = no_traffic, sub_count = 0, sub_error = []\<rparr>"

lemma sample_update:
  "case UpdateOne (\<lambda>j. ParseShareLink (\<lambda>_. False) (\<lambda>_. None) []) (\<lambda>_. Inr (''trojan://p@h:443'', [])) sample_sub of
     Some (Inr res) \<Rightarrow> map srv_address (ur_servers res) = [''h''] | _ \<Rightarrow> False"
proof -
  let ?parse = "\<lambda>j. ParseShareLink (\<lambda>_. False) (\<lambda>_. None) []"
  have "sub_validate sample_sub = Inr ()" "SplitLinks ''trojan://p@h:443'' = [''trojan://p@h:443'']" by code_simp+
  moreover have "trim_space ''trojan://p@h:443'' = ''trojan://p@h:443''" "lower_runes (schemeOf ''trojan://p@h:443'') = ''trojan''"
    "case parseTrojan (\<lambda>_. False) [] ''trojan://p@h:443'' of Inr s \<Rightarrow> srv_address s = ''h'' | _ \<Rightarrow> False" by code_simp+
  then have "case ?parse j ''trojan://p@h:443'' of Some (Inr s) \<Rightarrow> srv_address s = ''h'' | _ \<Rightarrow> False" for j :: nat
    by (simp add: ParseShareLink_def Let_def del: lower_runes.simps)
  moreover have "sub_more sample_sub = []" "sub_id sample_sub = ''s''" by (simp_all add: sample_sub_def)
  ultimately show ?thesis
    by (auto simp: UpdateOne_def parseBody_def Let_def split: option.splits sum.splits)
qed

theorem subscription_servers_valid_witness:
  "\<exists>res. UpdateOne (\<lambda>j. ParseShareLink (\<lambda>_. False) (\<lambda>_. None) []) (\<lambda>_. Inr (''trojan://p@h:443'', [])) sample_sub = Some (Inr res) \<and>
     list_all (\<lambda>s. server_validate s = Inr () \<and> srv_subscription s = ''s'') (ur_servers res)"
proof -
  obtain res where res: "UpdateOne (\<lambda>j. ParseShareLink (\<lambda>_. False) (\<lambda>_. None) []) (\<lambda>_. Inr (''trojan://p@h:443'', [])) sample_sub = Some (Inr res)"
    using sample_update by (auto split: option.splits sum.splits)
  have "sub_id sample_sub = ''s''" by (simp add: sample_sub_def)
  with subscription_servers_valid [of "\<lambda>_. False" "\<lambda>_. None" "\<lambda>_. []", OF res] res show ?thesis by metis
qed

section \<open>Where updates lose servers\<close>

text \<open>
  A refresh drops the servers of a disabled subscription: it is not fetched, but counted as refreshed
  because its copy carries no error, so its stored servers are neither fetched again nor kept.
\<close>

theorem refresh_drops_disabled:
  assumes "\<not> sub_enabled d" "sub_error d = []" "sub_id d \<noteq> []"
  shows "\<exists>updated. update_all parse fetch now render i [d] = Some ([], updated) \<and>
    list_all (\<lambda>s. srv_subscription s \<noteq> sub_id d) (c_servers (refresh_finish order [] updated c))"
  using assms by (auto simp: refresh_finish_def Merge_def refreshed_def list_all_iff)

definition disabled_sub :: subscription where "disabled_sub = sample_sub\<lparr>sub_enabled := False\<rparr>"

definition disabled_catalogue :: catalogue where
  "disabled_catalogue = \<lparr>c_subs = [disabled_sub], c_servers = [(stored ''1'' ''a'')\<lparr>srv_subscription := ''s''\<rparr>]\<rparr>"

theorem refresh_drops_disabled_witness:
  "\<exists>updated. update_all (\<lambda>_ _ _. None) (\<lambda>_. Inl NoId) (\<lambda>_. 0) (\<lambda>_. ''e'') 0 [disabled_sub] = Some ([], updated) \<and>
     map srv_id (c_servers disabled_catalogue) = [''1''] \<and>
     c_servers (refresh_finish (\<lambda>x. x) [] updated disabled_catalogue) = []"
proof -
  have "\<not> sub_enabled disabled_sub" "sub_error disabled_sub = []" "sub_id disabled_sub \<noteq> []"
    by (simp_all add: disabled_sub_def sample_sub_def)
  from refresh_drops_disabled [OF this, of "\<lambda>_ _ _. None" "\<lambda>_. Inl NoId" "\<lambda>_. 0" "\<lambda>_. ''e''" 0 "\<lambda>x. x" disabled_catalogue]
  obtain updated where
    u: "update_all (\<lambda>_ _ _. None) (\<lambda>_. Inl NoId) (\<lambda>_. 0) (\<lambda>_. ''e'') 0 [disabled_sub] = Some ([], updated)"
    and none: "list_all (\<lambda>s. srv_subscription s \<noteq> sub_id disabled_sub) (c_servers (refresh_finish (\<lambda>x. x) [] updated disabled_catalogue))"
    by blast
  have "set (c_servers (refresh_finish (\<lambda>x. x) [] updated c)) \<subseteq> set (c_servers c)" for c :: catalogue
    by (simp add: refresh_finish_def Merge_def)
  then have sub: "s \<in> set (c_servers (refresh_finish (\<lambda>x. x) [] updated disabled_catalogue)) \<Longrightarrow> s \<in> set (c_servers disabled_catalogue)" for s
    by blast
  have tagged: "s \<in> set (c_servers disabled_catalogue) \<Longrightarrow> srv_subscription s = sub_id disabled_sub" for s
    by (simp add: disabled_catalogue_def disabled_sub_def sample_sub_def)
  have "set (c_servers (refresh_finish (\<lambda>x. x) [] updated disabled_catalogue)) = {}"
  proof (rule equals0I)
    fix s assume s: "s \<in> set (c_servers (refresh_finish (\<lambda>x. x) [] updated disabled_catalogue))"
    with none have "srv_subscription s \<noteq> sub_id disabled_sub" unfolding list_all_iff by simp
    with tagged [OF sub [OF s]] show False by simp
  qed
  then have empty: "c_servers (refresh_finish (\<lambda>x. x) [] updated disabled_catalogue) = []" by (rule set_empty [THEN iffD1])
  have ids: "map srv_id (c_servers disabled_catalogue) = [''1'']" by (simp add: disabled_catalogue_def stored_def)
  show ?thesis by (rule exI [of _ updated], intro conjI, rule u, rule ids, rule empty)
qed

text \<open>The links of a base64 body are lost when an extra address adds a readable link to it.\<close>

lemma mirror_hides_body:
  "SplitLinks (b64_encode False ''trojan://p@a:1'') = [''trojan://p@a:1'']"
  "SplitLinks (b64_encode False ''trojan://p@a:1'' @ mirror_text (\<lambda>_. Inr (''trojan://p@b:1'', [])) ''http://m'') = [''trojan://p@b:1'']"
  by code_simp+

text \<open>A fetched server that equals a local one takes over its identity, and both stay in the list.\<close>

lemma refresh_duplicates_identity:
  "map srv_id (c_servers (refresh_finish (\<lambda>x. x) [(stored ''2'' ''a'')\<lparr>srv_subscription := ''s''\<rparr>] [sample_sub]
      \<lparr>c_subs = [sample_sub], c_servers = [stored ''1'' ''a'']\<rparr>)) = [''1'', ''1'']"
  by code_simp

end
