(* ===== verification/Configgen.thy ===== *)
theory Configgen
  imports Servers "HOL-Library.AList"
begin

text \<open>
  The generation of sing-box configurations (\<open>configgen/configgen.go\<close>). The code builds nested
  \<open>map[string]any\<close> values and renders them with \<open>json.MarshalIndent\<close>; the model stops at the value,
  whose rendering cannot fail. A map is an association list with one entry for each key.
\<close>

datatype json = JStr string | JNum int | JBool bool | JArr "json list" | JObj "(string \<times> json) list"

abbreviation JStrs :: "string list \<Rightarrow> json" where
  "JStrs ss \<equiv> JArr (map JStr ss)"

fun field :: "string \<Rightarrow> json \<Rightarrow> json option" where
  "field k (JObj kvs) = map_of kvs k"
| "field k _ = None"

fun put :: "string \<Rightarrow> json \<Rightarrow> json \<Rightarrow> json" where
  "put k v (JObj kvs) = JObj (AList.update k v kvs)"
| "put k v j = j"

definition ModeGlobal :: string where "ModeGlobal = ''global''"
definition ModeRules :: string where "ModeRules = ''rules''"

record options =
  o_mixed_port :: int
  o_tun :: bool
  o_mode :: string
  o_log_level :: string
  o_clash_port :: int
  o_clash_secret :: string
  o_test_url :: string
  o_test_interval :: int
  o_mtu :: int
  o_exclude :: "string list"
  o_split_mode :: string
  o_split_apps :: "string list"
  o_dns_mode :: string

definition DefaultOptions :: options where
  "DefaultOptions =
     \<lparr>o_mixed_port = 10808, o_tun = False, o_mode = ModeGlobal, o_log_level = ''info'', o_clash_port = 0,
      o_clash_secret = [], o_test_url = [], o_test_interval = 0, o_mtu = 0, o_exclude = [], o_split_mode = [],
      o_split_apps = [], o_dns_mode = []\<rparr>"

datatype config_error =
    InvalidServer server_error
  | MissingCredentials string
  | ProtocolNotImplemented string
  | NoServers
  | OfServer string config_error

section \<open>Outbounds\<close>

definition tlsConfig :: "server \<Rightarrow> json option" where
  "tlsConfig s =
     (if srv_security s \<noteq> SecurityTLS \<and> srv_security s \<noteq> SecurityReality then None
      else
        let t0 = JObj [(''enabled'', JBool True), (''server_name'', JStr (firstNonEmpty [srv_sni s, srv_address s]))];
            t1 = if srv_alpn s \<noteq> [] then put ''alpn'' (JStrs [srv_alpn s]) t0 else t0;
            t2 = if srv_fp s \<noteq> []
                 then put ''utls'' (JObj [(''enabled'', JBool True), (''fingerprint'', JStr (srv_fp s))]) t1 else t1
        in Some (if srv_security s = SecurityReality
                 then put ''reality'' (JObj [(''enabled'', JBool True), (''public_key'', JStr (srv_pubkey s)),
                                             (''short_id'', JStr (srv_shortid s))]) t2
                 else t2))"

definition transportConfig :: "server \<Rightarrow> json option" where
  "transportConfig s =
     (if srv_transport s = TransportWS then
        let t = JObj [(''type'', JStr ''ws''), (''path'', JStr (firstNonEmpty [srv_path s, ''/'']))]
        in Some (if srv_host s \<noteq> [] then put ''headers'' (JObj [(''Host'', JStr (srv_host s))]) t else t)
      else if srv_transport s = TransportGRPC then
        Some (JObj [(''type'', JStr ''grpc''), (''service_name'', JStr (firstNonEmpty [srv_service s, ''grpc'']))])
      else if srv_transport s = TransportH2 then
        Some (JObj [(''type'', JStr ''http''), (''path'', JStr (firstNonEmpty [srv_path s, ''/'']))])
      else None)"

text \<open>The protocol's own fields, in the order of the switch of \<open>outboundFor\<close>.\<close>

definition protocol_fields :: "server \<Rightarrow> json \<Rightarrow> (config_error, json) res" where
  "protocol_fields s j =
     (if srv_protocol s = ProtocolVLESS then
        if srv_uuid s = [] then Inl (MissingCredentials ''vless'')
        else
          let j1 = put ''uuid'' (JStr (srv_uuid s)) (put ''type'' (JStr ''vless'') j);
              j2 = if srv_flow s \<noteq> [] then put ''flow'' (JStr (srv_flow s)) j1 else j1
          in Inr (put ''packet_encoding'' (JStr ''xudp'') j2)
      else if srv_protocol s = ProtocolVMess then
        if srv_uuid s = [] then Inl (MissingCredentials ''vmess'')
        else Inr (put ''packet_encoding'' (JStr ''xudp'') (put ''security'' (JStr ''auto'')
                   (put ''uuid'' (JStr (srv_uuid s)) (put ''type'' (JStr ''vmess'') j))))
      else if srv_protocol s = ProtocolTrojan then
        if srv_password s = [] then Inl (MissingCredentials ''trojan'')
        else Inr (put ''password'' (JStr (srv_password s)) (put ''type'' (JStr ''trojan'') j))
      else if srv_protocol s = ProtocolShadowsocks then
        if srv_method s = [] \<or> srv_password s = [] then Inl (MissingCredentials ''shadowsocks'')
        else Inr (put ''password'' (JStr (srv_password s)) (put ''method'' (JStr (srv_method s))
                   (put ''type'' (JStr ''shadowsocks'') j)))
      else Inl (ProtocolNotImplemented (srv_protocol s)))"

definition put_opt :: "string \<Rightarrow> json option \<Rightarrow> json \<Rightarrow> json" where
  "put_opt k v j = (case v of None \<Rightarrow> j | Some x \<Rightarrow> put k x j)"

definition outboundFor :: "server \<Rightarrow> string \<Rightarrow> (config_error, json) res" where
  "outboundFor s tag =
     (case server_validate s of
        Inl e \<Rightarrow> Inl (InvalidServer e)
      | Inr _ \<Rightarrow>
          (case protocol_fields s (JObj [(''tag'', JStr tag), (''server'', JStr (srv_address s)),
                                         (''server_port'', JNum (srv_port s))]) of
             Inl e \<Rightarrow> Inl e
           | Inr j \<Rightarrow> Inr (put_opt ''transport'' (transportConfig s) (put_opt ''tls'' (tlsConfig s) j))))"

definition systemOutbounds :: "json list" where
  "systemOutbounds =
     [JObj [(''type'', JStr ''direct''), (''tag'', JStr ''direct'')],
      JObj [(''type'', JStr ''block''), (''tag'', JStr ''block'')]]"

section \<open>Inbounds, DNS and routing\<close>

definition inbounds :: "options \<Rightarrow> json list" where
  "inbounds opts =
     (if o_mixed_port opts > 0
      then [JObj [(''type'', JStr ''mixed''), (''tag'', JStr ''mixed-in''), (''listen'', JStr ''127.0.0.1''),
                  (''listen_port'', JNum (o_mixed_port opts))]]
      else []) @
     (if o_tun opts
      then
        let mtu = if o_mtu opts \<le> 0 then 9000 else o_mtu opts;
            tun = JObj [(''type'', JStr ''tun''), (''tag'', JStr ''tun-in''), (''interface_name'', JStr ''connective0''),
                        (''mtu'', JNum mtu), (''auto_route'', JBool True), (''strict_route'', JBool True),
                        (''stack'', JStr ''system''),
                        (''address'', JStrs [''172.19.0.1/30'', ''fdfe:dcba:9876::1/126''])]
        in [if o_exclude opts \<noteq> [] then put ''route_exclude_address'' (JStrs (o_exclude opts)) tun else tun]
      else [])"

definition dnsConfig :: "string \<Rightarrow> json" where
  "dnsConfig m =
     (let local = JObj [(''tag'', JStr ''local-dns''), (''type'', JStr ''local''), (''detour'', JStr ''direct'')]
      in if m = ''system''
         then JObj [(''servers'', JArr [local]), (''rules'', JArr []), (''final'', JStr ''local-dns'')]
         else JObj [(''servers'', JArr [JObj [(''tag'', JStr ''proxy-dns''), (''type'', JStr ''tls''),
                                              (''server'', JStr ''8.8.8.8''), (''detour'', JStr ''proxy'')], local]),
                    (''rules'', JArr [JObj [(''clash_mode'', JStr ''direct''), (''server'', JStr ''local-dns'')]]),
                    (''final'', JStr ''proxy-dns'')])"

fun clean_apps :: "nat \<Rightarrow> string list \<Rightarrow> string list" where
  "clean_apps n [] = []"
| "clean_apps n (s # ss) =
     (let t = trim_space s
      in if t = [] then clean_apps n ss
         else if n + 1 \<ge> 200 then [t]
         else t # clean_apps (n + 1) ss)"

definition cleanSplitApps :: "string list \<Rightarrow> string list" where
  "cleanSplitApps ss = clean_apps 0 ss"

definition sniff_rule :: json where
  "sniff_rule = JObj [(''action'', JStr ''sniff'')]"

definition direct_rule :: "string \<Rightarrow> json \<Rightarrow> json" where
  "direct_rule k v = JObj [(k, v), (''action'', JStr ''route''), (''outbound'', JStr ''direct'')]"

text \<open>The rules for single programs, the default outbound they leave, and whether the global DNS rule stays.\<close>

definition split_rules :: "string \<Rightarrow> string \<Rightarrow> string list \<Rightarrow> json list \<times> string \<times> bool" where
  "split_rules dflt mode apps =
     (if mode = ''bypass'' then
        (if apps \<noteq> [] then [direct_rule ''process_name'' (JStrs apps)] else [], dflt, True)
      else if mode = ''only'' \<and> apps \<noteq> [] then
        let target = if dflt = [] then ''proxy'' else dflt
        in ([sniff_rule,
             JObj [(''process_name'', JStrs apps), (''protocol'', JStr ''dns''), (''action'', JStr ''hijack-dns'')],
             JObj [(''process_name'', JStrs apps), (''action'', JStr ''route''), (''outbound'', JStr target)]],
            ''direct'', False)
      else ([], dflt, True))"

definition routeConfig :: "string \<Rightarrow> string \<Rightarrow> string \<Rightarrow> string list \<Rightarrow> json" where
  "routeConfig mode dflt splitMode splitApps =
     (let (split, dflt1, hijack) = split_rules dflt splitMode (cleanSplitApps splitApps);
          global = if hijack then [sniff_rule, JObj [(''protocol'', JStr ''dns''), (''action'', JStr ''hijack-dns'')]] else [];
          lan = if mode = ModeRules then direct_rule ''ip_is_private'' (JBool True)
                else direct_rule ''ip_cidr'' (JStrs [''127.0.0.0/8'', ''::1/128'', ''fe80::/10''])
      in JObj [(''rules'', JArr (split @ global @ [lan])),
               (''final'', JStr (if dflt1 = [] then ''proxy'' else dflt1)),
               (''auto_detect_interface'', JBool True),
               (''default_domain_resolver'', JStr ''local-dns'')])"

definition baseConfig :: "options \<Rightarrow> json" where
  "baseConfig opts =
     (let cfg = JObj [(''log'', JObj [(''level'', JStr (firstNonEmpty [o_log_level opts, ''info'']))]),
                      (''dns'', dnsConfig (o_dns_mode opts)),
                      (''inbounds'', JArr (inbounds opts))]
      in if o_clash_port opts > 0
         then put ''experimental''
                (JObj [(''clash_api'',
                        JObj [(''external_controller'', JStr (''127.0.0.1:'' @ int_str (o_clash_port opts))),
                              (''secret'', JStr (o_clash_secret opts))])]) cfg
         else cfg)"

section \<open>Whole configurations\<close>

definition Generate :: "server \<Rightarrow> options \<Rightarrow> (config_error, json) res" where
  "Generate s opts =
     (case outboundFor s ''proxy'' of
        Inl e \<Rightarrow> Inl e
      | Inr ob \<Rightarrow>
          Inr (put ''route'' (routeConfig (o_mode opts) ''proxy'' (o_split_mode opts) (o_split_apps opts))
                (put ''outbounds'' (JArr (ob # systemOutbounds)) (baseConfig opts))))"

definition ProxyTag :: string where "ProxyTag = ''proxy''"
definition ProxyAutoTag :: string where "ProxyAutoTag = ''proxy-auto''"

text \<open>\<open>time.Duration.String\<close> of the standard library, for the interval of the \<open>urltest\<close> group.\<close>

fun frac_digits :: "nat \<Rightarrow> nat \<Rightarrow> string" where
  "frac_digits 0 u = []"
| "frac_digits (Suc p) u = frac_digits p (u div 10) @ [digit_char (u mod 10)]"

definition frac_part :: "nat \<Rightarrow> nat \<Rightarrow> string" where
  "frac_part p u =
     (let ds = rev (dropWhile (\<lambda>c. c = CHR ''0'') (rev (frac_digits p u))) in if ds = [] then [] else CHR ''.'' # ds)"

definition duration_abs :: "nat \<Rightarrow> string" where
  "duration_abs u =
     (if u = 0 then ''0s''
      else if u < 1000 then nat_str u @ ''ns''
      else if u < 1000000 then nat_str (u div 1000) @ frac_part 3 u @ [CHR 0xC2, CHR 0xB5] @ ''s''
      else if u < 1000000000 then nat_str (u div 1000000) @ frac_part 6 u @ ''ms''
      else
        let secs = u div 1000000000; mins = secs div 60; hours = mins div 60
        in (if hours > 0 then nat_str hours @ ''h'' else []) @
           (if mins > 0 then nat_str (mins mod 60) @ ''m'' else []) @
           nat_str (secs mod 60) @ frac_part 9 u @ ''s'')"

definition duration_string :: "int \<Rightarrow> string" where
  "duration_string d = (if d < 0 then CHR ''-'' # duration_abs (nat (- d)) else duration_abs (nat d))"

definition group_tag :: "nat \<Rightarrow> string" where
  "group_tag i = ''proxy-'' @ nat_str i"

fun group_outbounds :: "nat \<Rightarrow> server list \<Rightarrow> (config_error, json list) res" where
  "group_outbounds i [] = Inr []"
| "group_outbounds i (s # ss) =
     (case outboundFor s (group_tag i) of
        Inl e \<Rightarrow> Inl (OfServer (DisplayName s) e)
      | Inr ob \<Rightarrow>
          (case group_outbounds (i + 1) ss of Inl e \<Rightarrow> Inl e | Inr obs \<Rightarrow> Inr (ob # obs)))"

text \<open>\<open>tagOf\<close> of the code: the last server with an identity decides its tag.\<close>

definition tag_of :: "server list \<Rightarrow> string \<Rightarrow> string option" where
  "tag_of ss = map_of (rev (zip (map srv_id ss) (map group_tag [0..<List.length ss])))"

definition urltest_group :: "string list \<Rightarrow> options \<Rightarrow> json" where
  "urltest_group tags opts =
     (let g = JObj [(''type'', JStr ''urltest''), (''tag'', JStr ProxyAutoTag), (''outbounds'', JStrs tags),
                    (''url'', JStr (firstNonEmpty [o_test_url opts, ''https://www.gstatic.com/generate_204''])),
                    (''interrupt_exist_connections'', JBool False), (''tolerance'', JNum 1000)]
      in if o_test_interval opts > 0 then put ''interval'' (JStr (duration_string (o_test_interval opts))) g else g)"

definition selector_group :: "string list \<Rightarrow> string option \<Rightarrow> json" where
  "selector_group tags choice =
     JObj [(''type'', JStr ''selector''), (''tag'', JStr ProxyTag), (''outbounds'', JStrs (ProxyAutoTag # tags)),
           (''interrupt_exist_connections'', JBool False),
           (''default'', JStr (case choice of Some t \<Rightarrow> t | None \<Rightarrow> ProxyAutoTag))]"

definition GenerateGroup :: "server list \<Rightarrow> string \<Rightarrow> options \<Rightarrow> (config_error, json) res" where
  "GenerateGroup ss dflt opts =
     (if ss = [] then Inl NoServers
      else
        case group_outbounds 0 ss of
          Inl e \<Rightarrow> Inl e
        | Inr obs \<Rightarrow>
            let tags = map group_tag [0..<List.length ss];
                groups = [urltest_group tags opts, selector_group tags (tag_of ss dflt)]
            in Inr (put ''route'' (routeConfig (o_mode opts) ProxyTag (o_split_mode opts) (o_split_apps opts))
                     (put ''outbounds'' (JArr (obs @ groups @ systemOutbounds)) (baseConfig opts))))"

section \<open>Which programs a configuration sends where\<close>

text \<open>
  The core reads the rules in order: a rule applies when all its conditions hold for the connection,
  \<open>sniff\<close> goes on with the next rule, \<open>hijack-dns\<close> and \<open>route\<close> end the search, and \<open>final\<close> is used when no
  rule has ended it. What a condition means for a connection is the parameter \<open>cond\<close>.
\<close>

datatype verdict = Hijack | Outbound string

definition conditions :: "string list" where
  "conditions = [''process_name'', ''protocol'', ''ip_is_private'', ''ip_cidr'']"

fun holds :: "(string \<Rightarrow> json \<Rightarrow> bool) \<Rightarrow> json \<Rightarrow> bool" where
  "holds cond (JObj kvs) = list_all (\<lambda>(k, v). k \<in> set conditions \<longrightarrow> cond k v) kvs"
| "holds cond _ = False"

definition rule_verdict :: "json \<Rightarrow> verdict option" where
  "rule_verdict r =
     (if field ''action'' r = Some (JStr ''hijack-dns'') then Some Hijack
      else if field ''action'' r = Some (JStr ''route'')
        then (case field ''outbound'' r of Some (JStr t) \<Rightarrow> Some (Outbound t) | _ \<Rightarrow> None)
      else None)"

fun decide :: "(string \<Rightarrow> json \<Rightarrow> bool) \<Rightarrow> json list \<Rightarrow> verdict \<Rightarrow> verdict" where
  "decide cond [] dflt = dflt"
| "decide cond (r # rs) dflt =
     (case (if holds cond r then rule_verdict r else None) of Some v \<Rightarrow> v | None \<Rightarrow> decide cond rs dflt)"

fun strings :: "json \<Rightarrow> string list" where
  "strings (JStr s) = [s]"
| "strings (JArr js) = List.map_filter (\<lambda>j. case j of JStr s \<Rightarrow> Some s | _ \<Rightarrow> None) js"
| "strings _ = []"

definition strings_at :: "string \<Rightarrow> json \<Rightarrow> string list" where
  "strings_at k j = (case field k j of None \<Rightarrow> [] | Some v \<Rightarrow> strings v)"

definition items :: "string \<Rightarrow> json \<Rightarrow> json list" where
  "items k j = (case field k j of Some (JArr js) \<Rightarrow> js | _ \<Rightarrow> [])"

definition route_verdict :: "(string \<Rightarrow> json \<Rightarrow> bool) \<Rightarrow> json \<Rightarrow> verdict" where
  "route_verdict cond route =
     decide cond (items ''rules'' route) (Outbound (case strings_at ''final'' route of t # _ \<Rightarrow> t | [] \<Rightarrow> []))"

text \<open>What the modes promise, stated for one connection.\<close>

definition promised :: "(string \<Rightarrow> json \<Rightarrow> bool) \<Rightarrow> string \<Rightarrow> string \<Rightarrow> string \<Rightarrow> string list \<Rightarrow> verdict" where
  "promised cond mode dflt split apps =
     (let listed = apps \<noteq> [] \<and> cond ''process_name'' (JStrs apps);
          dns = cond ''protocol'' (JStr ''dns'');
          local = (if mode = ModeRules then cond ''ip_is_private'' (JBool True)
                   else cond ''ip_cidr'' (JStrs [''127.0.0.0/8'', ''::1/128'', ''fe80::/10'']))
      in if split = ''only'' \<and> apps \<noteq> []
         then (if listed then (if dns then Hijack else Outbound dflt) else Outbound ''direct'')
         else if split = ''bypass'' \<and> listed then Outbound ''direct''
         else if dns then Hijack
         else if local then Outbound ''direct''
         else Outbound dflt)"

lemma put_obj: "put k v (JObj kvs) = JObj (AList.update k v kvs)"
  by simp

lemma field_put [simp]: "field k (put k' v (JObj kvs)) = (if k = k' then Some v else map_of kvs k)"
  by (simp add: update_conv')

lemma items_rules [simp]: "map_of kvs k = Some (JArr js) \<Longrightarrow> items k (JObj kvs) = js"
  by (simp add: items_def)

declare decide.simps(2) [simp del]

lemma sniff_skips [simp]: "decide cond (sniff_rule # rs) d = decide cond rs d"
  by (simp add: decide.simps(2) sniff_rule_def rule_verdict_def)

lemma direct_decides [simp]:
  "decide cond (direct_rule k v # rs) d =
     (if k \<in> set conditions \<longrightarrow> cond k v then Outbound ''direct'' else decide cond rs d)"
  if "k \<noteq> ''action''" "k \<noteq> ''outbound''"
  using that by (simp add: decide.simps(2) direct_rule_def rule_verdict_def conditions_def)

lemma app_rules [simp]:
  "decide cond (JObj [(''process_name'', a), (''protocol'', p), (''action'', JStr ''hijack-dns'')] # rs) d =
     (if cond ''process_name'' a \<and> cond ''protocol'' p then Hijack else decide cond rs d)"
  "decide cond (JObj [(''process_name'', a), (''action'', JStr ''route''), (''outbound'', JStr t)] # rs) d =
     (if cond ''process_name'' a then Outbound t else decide cond rs d)"
  "decide cond (JObj [(''protocol'', p), (''action'', JStr ''hijack-dns'')] # rs) d =
     (if cond ''protocol'' p then Hijack else decide cond rs d)"
  by (simp_all add: decide.simps(2) rule_verdict_def conditions_def)

lemma route_parts:
  assumes "split_rules dflt splitMode (cleanSplitApps apps) = (sp, dflt1, hijack)"
  shows "items ''rules'' (routeConfig mode dflt splitMode apps) =
      sp @ (if hijack then [sniff_rule, JObj [(''protocol'', JStr ''dns''), (''action'', JStr ''hijack-dns'')]] else []) @
      [if mode = ModeRules then direct_rule ''ip_is_private'' (JBool True)
       else direct_rule ''ip_cidr'' (JStrs [''127.0.0.0/8'', ''::1/128'', ''fe80::/10''])]"
    "strings_at ''final'' (routeConfig mode dflt splitMode apps) = [if dflt1 = [] then ''proxy'' else dflt1]"
  using assms by (simp_all add: routeConfig_def Let_def items_def strings_at_def)

lemma lan_decides:
  "decide cond [if mode = ModeRules then direct_rule ''ip_is_private'' (JBool True)
       else direct_rule ''ip_cidr'' (JStrs nets)] d =
     (if (if mode = ModeRules then cond ''ip_is_private'' (JBool True) else cond ''ip_cidr'' (JStrs nets))
      then Outbound ''direct'' else d)"
  by (cases "mode = ModeRules") (simp_all add: conditions_def)

lemma only_list:
  "decide cond [if mode = ModeRules then direct_rule ''ip_is_private'' (JBool True)
       else direct_rule ''ip_cidr'' (JStrs nets)] (Outbound ''direct'') = Outbound ''direct''"
  by (simp add: lan_decides)


section \<open>When a configuration can be generated\<close>

definition generatable :: "server \<Rightarrow> bool" where
  "generatable s \<longleftrightarrow>
     server_validate s = Inr () \<and>
     (srv_protocol s \<in> {ProtocolVLESS, ProtocolVMess} \<and> srv_uuid s \<noteq> [] \<or>
      srv_protocol s = ProtocolTrojan \<and> srv_password s \<noteq> [] \<or>
      srv_protocol s = ProtocolShadowsocks \<and> srv_method s \<noteq> [] \<and> srv_password s \<noteq> [])"

lemma protocol_fields_ok:
  "is_ok (protocol_fields s j) \<longleftrightarrow>
     (srv_protocol s \<in> {ProtocolVLESS, ProtocolVMess} \<and> srv_uuid s \<noteq> [] \<or>
      srv_protocol s = ProtocolTrojan \<and> srv_password s \<noteq> [] \<or>
      srv_protocol s = ProtocolShadowsocks \<and> srv_method s \<noteq> [] \<and> srv_password s \<noteq> [])"
  by (simp add: protocol_fields_def Let_def protocols)

lemma outboundFor_ok: "is_ok (outboundFor s tag) \<longleftrightarrow> generatable s"
  unfolding generatable_def protocol_fields_ok [symmetric, where j = "JObj [(''tag'', JStr tag), (''server'', JStr (srv_address s)),
      (''server_port'', JNum (srv_port s))]"]
  by (simp add: outboundFor_def split: sum.split)

lemma group_outbounds_ok: "is_ok (group_outbounds i ss) \<longleftrightarrow> list_all generatable ss"
proof (induction ss arbitrary: i)
  case (Cons s ss)
  show ?case
    using outboundFor_ok [of s "group_tag i"] Cons.IH [of "i + 1"]
    by (cases "outboundFor s (group_tag i)"; cases "group_outbounds (i + 1) ss") simp_all
qed simp

section \<open>References between the parts of a configuration\<close>

definition collect :: "string \<Rightarrow> json list \<Rightarrow> string list" where
  "collect k js = concat (map (strings_at k) js)"

definition part :: "string \<Rightarrow> json \<Rightarrow> json" where
  "part k j = (case field k j of Some v \<Rightarrow> v | None \<Rightarrow> JObj [])"

definition outbound_tags :: "json \<Rightarrow> string list" where
  "outbound_tags cfg = collect ''tag'' (items ''outbounds'' cfg)"

definition outbound_refs :: "json \<Rightarrow> string list" where
  "outbound_refs cfg =
     (let obs = items ''outbounds'' cfg; route = part ''route'' cfg
      in collect ''outbounds'' obs @ collect ''default'' obs @ collect ''outbound'' (items ''rules'' route) @
         strings_at ''final'' route @ collect ''detour'' (items ''servers'' (part ''dns'' cfg)))"

definition dns_tags :: "json \<Rightarrow> string list" where
  "dns_tags cfg = collect ''tag'' (items ''servers'' (part ''dns'' cfg))"

definition dns_refs :: "json \<Rightarrow> string list" where
  "dns_refs cfg =
     (let dns = part ''dns'' cfg
      in strings_at ''final'' dns @ collect ''server'' (items ''rules'' dns) @
         strings_at ''default_domain_resolver'' (part ''route'' cfg))"

definition closed_config :: "json \<Rightarrow> bool" where
  "closed_config cfg \<longleftrightarrow>
     distinct (outbound_tags cfg) \<and> set (outbound_refs cfg) \<subseteq> set (outbound_tags cfg) \<and>
     set (dns_refs cfg) \<subseteq> set (dns_tags cfg)"

lemma collect_simps [simp]:
  "collect k [] = []" "collect k (j # js) = strings_at k j @ collect k js"
  "collect k (js @ js') = collect k js @ collect k js'"
  by (simp_all add: collect_def)

lemma strings_strs [simp]: "strings (JStrs ss) = ss"
  by (simp add: map_filter_def comp_def)

lemma strings_at_obj [simp]:
  "strings_at k (JObj kvs) = (case map_of kvs k of None \<Rightarrow> [] | Some v \<Rightarrow> strings v)"
  by (simp add: strings_at_def)

lemma protocol_fields_keep:
  "protocol_fields s (JObj kvs) = Inr j \<Longrightarrow>
     \<exists>kvs'. j = JObj kvs' \<and>
       (\<forall>k. k \<notin> {''type'', ''uuid'', ''flow'', ''packet_encoding'', ''security'', ''password'', ''method''} \<longrightarrow>
            map_of kvs' k = map_of kvs k)"
  by (auto simp: protocol_fields_def Let_def update_conv' split: if_splits)

lemma put_opt_obj: "\<exists>kvs'. put_opt k v (JObj kvs) = JObj kvs' \<and> (\<forall>k'. k' \<noteq> k \<longrightarrow> map_of kvs' k' = map_of kvs k')"
  by (cases v) (auto simp: put_opt_def update_conv')

lemma outboundFor_shape:
  assumes "outboundFor s tag = Inr ob"
  shows "strings_at ''tag'' ob = [tag]" "strings_at ''outbounds'' ob = []" "strings_at ''default'' ob = []"
proof -
  let ?base = "[(''tag'', JStr tag), (''server'', JStr (srv_address s)), (''server_port'', JNum (srv_port s))]"
  obtain j where j: "protocol_fields s (JObj ?base) = Inr j"
    and ob: "ob = put_opt ''transport'' (transportConfig s) (put_opt ''tls'' (tlsConfig s) j)"
    using assms by (auto simp: outboundFor_def split: sum.splits)
  obtain k0 where k0: "j = JObj k0"
    "\<forall>k. k \<notin> {''type'', ''uuid'', ''flow'', ''packet_encoding'', ''security'', ''password'', ''method''} \<longrightarrow>
       map_of k0 k = map_of ?base k"
    using protocol_fields_keep [OF j] by blast
  obtain k1 where k1: "put_opt ''tls'' (tlsConfig s) (JObj k0) = JObj k1"
    "\<forall>k'. k' \<noteq> ''tls'' \<longrightarrow> map_of k1 k' = map_of k0 k'" using put_opt_obj by blast
  obtain k2 where k2: "put_opt ''transport'' (transportConfig s) (JObj k1) = JObj k2"
    "\<forall>k'. k' \<noteq> ''transport'' \<longrightarrow> map_of k2 k' = map_of k1 k'" using put_opt_obj by blast
  have "ob = JObj k2" using ob k0 k1 k2 by simp
  moreover have "map_of k2 ''tag'' = Some (JStr tag)" "map_of k2 ''outbounds'' = None" "map_of k2 ''default'' = None"
    using k0(2) k1(2) k2(2) by simp_all
  ultimately show "strings_at ''tag'' ob = [tag]" "strings_at ''outbounds'' ob = []" "strings_at ''default'' ob = []"
    by simp_all
qed

lemma group_outbounds_shape:
  "group_outbounds i ss = Inr obs \<Longrightarrow>
     collect ''tag'' obs = map group_tag [i..<i + List.length ss] \<and> collect ''outbounds'' obs = [] \<and> collect ''default'' obs = []"
proof (induction ss arbitrary: i obs)
  case (Cons s ss)
  then obtain ob rest where "outboundFor s (group_tag i) = Inr ob" "group_outbounds (i + 1) ss = Inr rest" "obs = ob # rest"
    by (auto split: sum.splits)
  with Cons.IH [of "i + 1" rest] outboundFor_shape [of s "group_tag i" ob] show ?case
    by (simp add: upt_conv_Cons del: upt_Suc)
qed simp

lemma group_tag_inj: "group_tag i = group_tag j \<longleftrightarrow> i = j"
  using dec_value_nat_str unfolding group_tag_def by (metis append_eq_append_conv)

lemma group_tag_other [simp]:
  "group_tag i \<noteq> ProxyTag" "group_tag i \<noteq> ProxyAutoTag" "group_tag i \<noteq> ''direct''" "group_tag i \<noteq> ''block''"
  "group_tag i \<noteq> ''proxy''"
proof -
  have "nat_str i \<noteq> ''auto''"
    using nat_str_digits [of i] by (auto simp: is_digit_def)
  then show "group_tag i \<noteq> ProxyTag" "group_tag i \<noteq> ProxyAutoTag" "group_tag i \<noteq> ''direct''" "group_tag i \<noteq> ''block''"
    "group_tag i \<noteq> ''proxy''"
    by (simp_all add: group_tag_def ProxyTag_def ProxyAutoTag_def)
qed

lemma tag_of_range: "tag_of ss d = Some t \<Longrightarrow> t \<in> set (map group_tag [0..<List.length ss])"
  unfolding tag_of_def by (auto dest!: map_of_SomeD set_zip_rightD)

lemma group_strings:
  "strings_at ''tag'' (urltest_group tags opts) = [ProxyAutoTag]"
  "strings_at ''outbounds'' (urltest_group tags opts) = tags"
  "strings_at ''default'' (urltest_group tags opts) = []"
  "strings_at ''tag'' (selector_group tags c) = [ProxyTag]"
  "strings_at ''outbounds'' (selector_group tags c) = ProxyAutoTag # tags"
  "strings_at ''default'' (selector_group tags c) = [case c of Some t \<Rightarrow> t | None \<Rightarrow> ProxyAutoTag]"
  by (simp_all add: urltest_group_def selector_group_def Let_def del: strings.simps(2) firstNonEmpty.simps)
    (simp_all del: strings.simps(2) list.map(2) add: list.map(2) [symmetric])

lemma system_strings:
  "collect ''tag'' systemOutbounds = [''direct'', ''block'']"
  "collect ''outbounds'' systemOutbounds = []" "collect ''default'' systemOutbounds = []"
  by (simp_all add: systemOutbounds_def)

lemma tag_constants [simp]:
  "ProxyTag = ''proxy''" "ProxyAutoTag \<noteq> ''proxy''" "ProxyAutoTag \<noteq> ''direct''" "ProxyAutoTag \<noteq> ''block''"
  by (simp_all add: ProxyTag_def ProxyAutoTag_def)

lemma base_config_obj:
  "\<exists>kvs. baseConfig opts = JObj kvs \<and> map_of kvs ''dns'' = Some (dnsConfig (o_dns_mode opts)) \<and>
     map_of kvs ''route'' = None \<and> map_of kvs ''outbounds'' = None"
  by (simp add: baseConfig_def Let_def update_conv')

lemma route_refs:
  assumes "dflt \<noteq> []"
  shows "set (collect ''outbound'' (items ''rules'' (routeConfig mode dflt sm apps)) @
           strings_at ''final'' (routeConfig mode dflt sm apps)) \<subseteq> {''direct'', dflt}"
    "strings_at ''default_domain_resolver'' (routeConfig mode dflt sm apps) = [''local-dns'']"
proof -
  obtain sp d1 h where p: "split_rules dflt sm (cleanSplitApps apps) = (sp, d1, h)"
    by (cases "split_rules dflt sm (cleanSplitApps apps)")
  have sp: "set (collect ''outbound'' sp) \<subseteq> {''direct'', dflt}" "d1 \<in> {''direct'', dflt}"
    using p assms by (auto simp: split_rules_def sniff_rule_def direct_rule_def split: if_splits)
  show "set (collect ''outbound'' (items ''rules'' (routeConfig mode dflt sm apps)) @
           strings_at ''final'' (routeConfig mode dflt sm apps)) \<subseteq> {''direct'', dflt}"
    using sp assms unfolding route_parts [OF p] by (auto simp: sniff_rule_def direct_rule_def)
  show "strings_at ''default_domain_resolver'' (routeConfig mode dflt sm apps) = [''local-dns'']"
    by (simp add: routeConfig_def Let_def p)
qed

lemma dns_closed:
  "set (collect ''detour'' (items ''servers'' (dnsConfig m))) \<subseteq> {''direct'', ''proxy''}"
  "set (strings_at ''final'' (dnsConfig m) @ collect ''server'' (items ''rules'' (dnsConfig m)) @ [''local-dns''])
     \<subseteq> set (collect ''tag'' (items ''servers'' (dnsConfig m)))"
  by (simp_all add: dnsConfig_def Let_def items_def)

text \<open>A configuration put together as both generators do it is closed when its outbounds are.\<close>

lemma assembled_closed:
  assumes cfg: "cfg = put ''route'' (routeConfig mode ''proxy'' sm apps) (put ''outbounds'' (JArr obs) (baseConfig opts))"
    and d: "distinct (collect ''tag'' obs)"
    and refs: "set (collect ''outbounds'' obs @ collect ''default'' obs) \<subseteq> set (collect ''tag'' obs)"
    and sys: "{''direct'', ''proxy''} \<subseteq> set (collect ''tag'' obs)"
  shows "closed_config cfg"
proof -
  obtain kvs where kvs: "baseConfig opts = JObj kvs" "map_of kvs ''dns'' = Some (dnsConfig (o_dns_mode opts))"
    using base_config_obj by blast
  have items: "items ''outbounds'' cfg = obs" "part ''route'' cfg = routeConfig mode ''proxy'' sm apps"
    "part ''dns'' cfg = dnsConfig (o_dns_mode opts)"
    using kvs(2) by (simp_all add: cfg kvs(1) items_def part_def update_conv')
  have "set (collect ''outbound'' (items ''rules'' (part ''route'' cfg)) @ strings_at ''final'' (part ''route'' cfg))
      \<subseteq> {''direct'', ''proxy''}"
    unfolding items by (rule route_refs) simp
  then have "set (collect ''outbound'' (items ''rules'' (part ''route'' cfg)) @ strings_at ''final'' (part ''route'' cfg) @
      collect ''detour'' (items ''servers'' (part ''dns'' cfg))) \<subseteq> set (collect ''tag'' obs)"
    using sys dns_closed(1) [of "o_dns_mode opts"] unfolding items set_append by blast
  then have "set (outbound_refs cfg) \<subseteq> set (outbound_tags cfg)"
    using refs unfolding outbound_refs_def outbound_tags_def Let_def items set_append by blast
  moreover have "set (dns_refs cfg) \<subseteq> set (dns_tags cfg)"
    using dns_closed(2) route_refs(2) unfolding dns_refs_def dns_tags_def Let_def items by simp
  ultimately show ?thesis using d by (simp add: closed_config_def outbound_tags_def items)
qed

text \<open>
  C32. Every generated configuration is closed: outbound tags are unique, and every outbound that a group, a
  default, a routing rule, the final rule or a DNS detour names, and every DNS server that a rule, the DNS
  default or the domain resolver names, is declared in the same configuration.
\<close>

theorem generated_references_resolve:
  assumes "Generate s opts = Inr cfg \<or> GenerateGroup ss dflt opts = Inr cfg"
  shows "closed_config cfg"
  using assms
proof
  assume "Generate s opts = Inr cfg"
  then obtain ob where ob: "outboundFor s ''proxy'' = Inr ob" and cfg: "cfg = put ''route''
      (routeConfig (o_mode opts) ''proxy'' (o_split_mode opts) (o_split_apps opts))
      (put ''outbounds'' (JArr (ob # systemOutbounds)) (baseConfig opts))"
    by (auto simp: Generate_def split: sum.splits)
  show "closed_config cfg"
    by (rule assembled_closed [OF cfg]) (simp_all add: outboundFor_shape [OF ob] systemOutbounds_def)
next
  assume g: "GenerateGroup ss dflt opts = Inr cfg"
  let ?tags = "map group_tag [0..<List.length ss]"
  obtain obs where obs: "group_outbounds 0 ss = Inr obs"
    using g by (auto simp: GenerateGroup_def split: if_splits sum.splits)
  note shape = group_outbounds_shape [OF obs]
  have dist: "distinct ?tags" by (simp add: distinct_map inj_on_def group_tag_inj)
  have choice: "(case tag_of ss dflt of Some t \<Rightarrow> t | None \<Rightarrow> ProxyAutoTag) \<in> insert ProxyAutoTag (set ?tags)"
    using tag_of_range [of ss dflt] by (simp split: option.splits)
  have cfg: "cfg = put ''route'' (routeConfig (o_mode opts) ''proxy'' (o_split_mode opts) (o_split_apps opts))
      (put ''outbounds'' (JArr (obs @ [urltest_group ?tags opts, selector_group ?tags (tag_of ss dflt)] @ systemOutbounds))
        (baseConfig opts))"
    using g obs by (simp add: GenerateGroup_def Let_def ProxyTag_def del: put.simps split: if_splits)
  show "closed_config cfg"
    by (rule assembled_closed [OF cfg])
      (use dist choice shape in \<open>auto simp: group_strings system_strings group_tag_other [symmetric]\<close>)
qed

definition sample_server :: server where
  "sample_server =
     (new_server ProtocolTrojan)\<lparr>srv_id := ''a'', srv_address := ''h'', srv_port := 443, srv_password := ''p'',
        srv_transport := TransportTCP, srv_security := SecurityTLS\<rparr>"

lemma sample_validates: "server_validate sample_server = Inr ()"
  by (simp add: server_validate_def sample_server_def new_server_def known_protocols_def known_transports_def
      known_securities_def protocols transports securities)

lemma sample_outbound: "is_ok (outboundFor sample_server t)"
  using sample_validates by (simp add: outboundFor_ok generatable_def sample_server_def new_server_def)

theorem generated_references_resolve_witness:
  "\<exists>cfg. GenerateGroup [sample_server, sample_server] ''a'' DefaultOptions = Inr cfg \<and> closed_config cfg"
proof -
  obtain obs where "group_outbounds 0 [sample_server, sample_server] = Inr obs"
    using sample_outbound [of "group_tag 0"] sample_outbound [of "group_tag 1"] by (auto simp: is_ok_iff)
  then obtain cfg where cfg: "GenerateGroup [sample_server, sample_server] ''a'' DefaultOptions = Inr cfg"
    by (auto simp: GenerateGroup_def Let_def simp del: put.simps group_outbounds.simps)
  with generated_references_resolve [OF disjI2 [OF cfg]] show ?thesis by blast
qed

text \<open>
  A group configuration is generated exactly when there is a server and every server of the group is
  valid and has the credentials its protocol needs: a single server without them fails the whole group.
\<close>

theorem group_needs_all_servers:
  "is_ok (GenerateGroup ss dflt opts) \<longleftrightarrow> ss \<noteq> [] \<and> list_all generatable ss"
  using group_outbounds_ok [of 0 ss] by (auto simp: GenerateGroup_def Let_def split: sum.splits)

end
