(* ===== verification/Selector.thy ===== *)
theory Selector
  imports Complex_Main Servers
begin

text \<open>
  Automatic server selection (\<open>selector/selector.go\<close>), the recording of a test result
  (\<open>tester/tester.go\<close>) and the candidate lists of the daemon. The code computes scores in \<open>float64\<close>; the
  model uses real numbers, so scores that differ by less than the rounding error may compare differently.
  \<open>sort.Slice\<close> is modelled by insertion, which is what it does for up to twelve elements.
\<close>

record params =
  p_max :: int
  p_latency :: real
  p_health :: real
  p_stability :: real
  p_hysteresis :: real
  p_untested :: real
  p_cap :: real

definition select_defaults :: params where
  "select_defaults =
     \<lparr>p_max = 3000, p_latency = 0.55, p_health = 0.30, p_stability = 0.15, p_hysteresis = 0.15, p_untested = 35, p_cap = 15\<rparr>"

definition latencyComponent :: "int \<Rightarrow> int \<Rightarrow> real" where
  "latencyComponent l mx = (if l < 0 then 0 else if l \<ge> mx then 0 else 100 * (1 - real_of_int l / real_of_int mx))"

definition healthComponent :: "string \<Rightarrow> real" where
  "healthComponent h =
     (if h = HealthHealthy then 100 else if h = HealthDegraded then 50 else if h = HealthUnhealthy then 0 else 60)"

definition stabilityComponent :: "int list \<Rightarrow> real" where
  "stabilityComponent xs =
     (if length xs < 2 then 60
      else
        let n = real (length xs); mean = (\<Sum>x\<leftarrow>xs. real_of_int x) / n
        in if mean \<le> 0 then 60
           else let cv = sqrt ((\<Sum>x\<leftarrow>xs. (real_of_int x - mean)\<^sup>2) / n) / mean in 100 / (1 + 3 * cv))"

definition base_score :: "params \<Rightarrow> server \<Rightarrow> int list \<Rightarrow> real" where
  "base_score p s samples =
     (if srv_health s = HealthUnhealthy then p_cap p
      else if \<not> Tested s then p_untested p
      else (p_latency p * latencyComponent (srv_latency s) (p_max p) + p_health p * healthComponent (srv_health s) +
            p_stability p * stabilityComponent samples) / (p_latency p + p_health p + p_stability p))"

definition Score :: "server \<Rightarrow> int list \<Rightarrow> bool \<Rightarrow> params \<Rightarrow> real" where
  "Score s samples incumbent p0 =
     (let p = if p_max p0 \<le> 0 then select_defaults else p0; b = base_score p s samples
      in min (if incumbent then b * (1 + p_hysteresis p) else b) 100)"

fun insert_ranked :: "server \<times> real \<Rightarrow> (server \<times> real) list \<Rightarrow> (server \<times> real) list" where
  "insert_ranked r [] = [r]"
| "insert_ranked r (q # qs) = (if snd r \<ge> snd q then r # q # qs else q # insert_ranked r qs)"

definition Rank :: "server list \<Rightarrow> (string \<Rightarrow> int list) \<Rightarrow> string \<Rightarrow> params \<Rightarrow> (server \<times> real) list" where
  "Rank ss hist incumbent p =
     (let out = foldr insert_ranked (map (\<lambda>s. (s, Score s (hist (srv_id s)) (srv_id s = incumbent) p)) ss) [];
          usable = filter (\<lambda>r. srv_health (fst r) \<noteq> HealthUnhealthy) out
      in if usable \<noteq> [] then usable else out)"

definition Select :: "server list \<Rightarrow> (string \<Rightarrow> int list) \<Rightarrow> string \<Rightarrow> params \<Rightarrow> server option" where
  "Select ss hist incumbent p = (case Rank ss hist incumbent p of [] \<Rightarrow> None | r # _ \<Rightarrow> Some (fst r))"

definition ShouldSwitch :: "real \<Rightarrow> real \<Rightarrow> params \<Rightarrow> bool" where
  "ShouldSwitch current best p0 =
     (let p = if p_hysteresis p0 \<le> 0 then select_defaults else p0 in best > current * (1 + p_hysteresis p))"

section \<open>Test results\<close>

record test_result =
  r_id :: string
  r_latency :: int
  r_failed :: bool
  r_at :: int

definition Outcome :: "test_result \<Rightarrow> server \<Rightarrow> server" where
  "Outcome r s =
     (if r_failed r then s\<lparr>srv_last_test := Some (r_at r), srv_latency := -1, srv_health := HealthUnhealthy\<rparr>
      else s\<lparr>srv_last_test := Some (r_at r), srv_latency := r_latency r,
             srv_health := (if r_latency r > 2500 then HealthDegraded else HealthHealthy)\<rparr>)"

text \<open>The first server with the tested identity is updated.\<close>

fun record_result :: "test_result \<Rightarrow> server list \<Rightarrow> server list" where
  "record_result r [] = []"
| "record_result r (s # ss) = (if srv_id s = r_id r then Outcome r s # ss else s # record_result r ss)"

definition record_results :: "test_result list \<Rightarrow> server list \<Rightarrow> server list" where
  "record_results rs ss = fold record_result rs ss"

definition usableServers :: "server list \<Rightarrow> server list" where
  "usableServers ss = (let u = filter (\<lambda>s. srv_health s \<noteq> HealthUnhealthy) ss in if u \<noteq> [] then u else ss)"

definition historiesOf :: "server list \<Rightarrow> string \<Rightarrow> int list" where
  "historiesOf ss i = (case find (\<lambda>s. srv_id s = i \<and> Tested s) (rev ss) of Some s \<Rightarrow> [srv_latency s] | None \<Rightarrow> [])"

section \<open>What is selected\<close>

lemma set_insert_ranked [simp]: "set (insert_ranked r qs) = insert r (set qs)"
  by (induction qs) auto

lemma set_ranked [simp]: "set (foldr insert_ranked rs []) = set rs"
  by (induction rs) auto

lemma sorted_insert_ranked: "sorted_wrt (\<lambda>a b. snd a \<ge> snd b) qs \<Longrightarrow> sorted_wrt (\<lambda>a b. snd a \<ge> snd b) (insert_ranked r qs)"
  by (induction qs) auto

lemma sorted_ranked: "sorted_wrt (\<lambda>a b. snd a \<ge> snd b) (foldr insert_ranked rs [])"
  by (induction rs) (simp_all add: sorted_insert_ranked)

lemma Rank_sorted: "sorted_wrt (\<lambda>a b. snd a \<ge> snd b) (Rank ss hist inc p)"
  unfolding Rank_def Let_def by (simp add: sorted_ranked sorted_wrt_filter)

lemma Rank_members:
  "set (Rank ss hist inc p) =
     (let sc = (\<lambda>s. (s, Score s (hist (srv_id s)) (srv_id s = inc) p)); u = {s \<in> set ss. srv_health s \<noteq> HealthUnhealthy}
      in if u \<noteq> {} then sc ` u else sc ` set ss)"
  unfolding Rank_def Let_def by (auto simp: filter_empty_conv)

lemma Rank_empty: "Rank ss hist inc p = [] \<longleftrightarrow> ss = []"
proof -
  have "set (Rank ss hist inc p) = {} \<longleftrightarrow> set ss = {}"
    unfolding Rank_members Let_def by auto
  then show ?thesis unfolding set_empty .
qed

lemma Select_None: "Select ss hist inc p = None \<longleftrightarrow> ss = []"
  using Rank_empty [of ss hist inc p] by (auto simp: Select_def split: list.splits)

lemma Select_best:
  assumes "Select ss hist inc p = Some s"
  shows "s \<in> set ss" "t \<in> set ss \<Longrightarrow> srv_health t \<noteq> HealthUnhealthy \<Longrightarrow> srv_health s \<noteq> HealthUnhealthy \<and>
      Score t (hist (srv_id t)) (srv_id t = inc) p \<le> Score s (hist (srv_id s)) (srv_id s = inc) p"
proof -
  obtain c rest where r: "Rank ss hist inc p = (s, c) # rest"
    using assms by (auto simp: Select_def split: list.splits)
  then have mem: "(s, c) \<in> set (Rank ss hist inc p)" by simp
  then show "s \<in> set ss" unfolding Rank_members Let_def by (auto split: if_splits)
  from mem have c: "c = Score s (hist (srv_id s)) (srv_id s = inc) p"
    unfolding Rank_members Let_def by (auto split: if_splits)
  assume t: "t \<in> set ss" "srv_health t \<noteq> HealthUnhealthy"
  then have ne: "{s \<in> set ss. srv_health s \<noteq> HealthUnhealthy} \<noteq> {}" by blast
  then have "(t, Score t (hist (srv_id t)) (srv_id t = inc) p) \<in> set (Rank ss hist inc p)"
    unfolding Rank_members Let_def using t by auto
  then have "Score t (hist (srv_id t)) (srv_id t = inc) p \<le> c"
    using Rank_sorted [of ss hist inc p] unfolding r by auto
  moreover have "srv_health s \<noteq> HealthUnhealthy"
    using mem ne unfolding Rank_members Let_def by auto
  ultimately show "srv_health s \<noteq> HealthUnhealthy \<and>
      Score t (hist (srv_id t)) (srv_id t = inc) p \<le> Score s (hist (srv_id s)) (srv_id s = inc) p"
    using c by simp
qed

lemma usable_ne [simp]: "usableServers ss = [] \<longleftrightarrow> ss = []"
  by (auto simp: usableServers_def Let_def)

lemma usable_subset: "set (usableServers ss) \<subseteq> set ss"
  by (auto simp: usableServers_def Let_def)

lemma Outcome_id [simp]: "srv_id (Outcome r s) = srv_id s"
  by (simp add: Outcome_def)

lemma record_results_ids [simp]: "map srv_id (record_results rs ss) = map srv_id ss"
proof -
  have "map srv_id (record_result r ss) = map srv_id ss" for r ss
    by (induction ss) simp_all
  then show ?thesis
    unfolding record_results_def by (induction rs arbitrary: ss) simp_all
qed

lemma record_results_ne [simp]: "record_results rs ss = [] \<longleftrightarrow> ss = []"
  using record_results_ids [of rs ss] by (metis list.map_disc_iff)

text \<open>
  Automatic selection picks a server whenever there is one, never an unhealthy one while another is left,
  and among those the one with the highest score; the incumbent's score carries its bonus, so another server
  is picked only if it reaches the incumbent's score raised by the hysteresis (or the cap of 100).
\<close>

theorem selection_is_best:
  "case Select ss hist inc p of
     None \<Rightarrow> ss = []
   | Some s \<Rightarrow> s \<in> set ss \<and>
       list_all (\<lambda>t. srv_health s \<noteq> HealthUnhealthy \<and>
           Score t (hist (srv_id t)) (srv_id t = inc) p \<le> Score s (hist (srv_id s)) (srv_id s = inc) p)
         (filter (\<lambda>t. srv_health t \<noteq> HealthUnhealthy) ss)"
proof (cases "Select ss hist inc p")
  case (Some s)
  from Select_best [OF this] Some show ?thesis unfolding list_all_iff by auto
next
  case None
  then show ?thesis using Select_None [of ss hist inc p] by simp
qed

end
