(* ===== verification/Daemon.thy ===== *)
theory Daemon
  imports Connection Settings Configgen Selector
begin

text \<open>
  The connection core of the daemon (\<open>cmd/connectived/main.go\<close>): connecting, disconnecting, the health check,
  failover, the reaction to a network change, and the marker file that records the kill switch and the TUN
  device for the next boot. Operations under \<open>connMu\<close> are functions on the daemon; an operation that works
  before it takes the lock is cut there. What the system answers is the environment, a record of outcomes;
  the system state that survives the daemon (core process, TUN device, firewall table, marker file) is the
  world, and every world the daemon passes through is kept, because the daemon may die in any of them.
  Log lines and broadcasts to the user interface are left out.
\<close>

section \<open>World, daemon and environment\<close>

text \<open>The content of \<open>applied.json\<close>: the two flags, or something that is not JSON.\<close>

datatype marker = NoMarker | Garbage | Marker bool bool

text \<open>
  \<open>w_core\<close>: the supervised core runs; \<open>w_orphans\<close>: cores that run and that nobody supervises; \<open>w_kill\<close>: the
  endpoints the firewall table allows, if the table is in force.
\<close>

record world =
  w_core :: bool
  w_orphans :: nat
  w_tun :: bool
  w_kill :: "string list option"
  w_marker :: marker

record daemon =
  d_machine :: machine
  d_settings :: settings
  d_servers :: "server list"
  d_applied_kill :: bool
  d_applied_tun :: bool
  d_core :: bool
  d_clash :: "(int \<times> string) option"
  d_resolv :: string
  d_targets :: "server list"
  d_mons :: "nat option"
  d_gen :: nat
  d_fail :: nat
  d_flap :: nat
  d_recovery :: "int option"
  d_connect_at :: "int option"
  d_session :: "int \<times> int"
  d_world :: world
  d_seen :: "world list"
  d_torn :: "world list"
  d_checks :: nat
  d_failovers :: nat
  d_net :: "bool list"
  d_net_wait :: nat

datatype connect_error =
    AlreadyConnected | Busy State | NoServersAvailable | ForeignTun | ServerNotFound string | NoUsableServer
  | BadConfig config_error | CannotWriteConfig | NoSingBox | NoHelper | NoWintun | UntrustedCore | CoreNotReady
  | TunMissing | NoDefaultRoute | KillSwitchRefused | NotConnected

text \<open>
  The core either cannot be started, or does not become ready, in which case it may survive the kill (an
  elevated core cannot be signalled) and may have created its device, or runs.
\<close>

datatype start = NotStarted | NotReady (survives: bool) (device: bool) | Started (device: bool)

text \<open>A stopped core is reaped or beyond the daemon's signals; then the helper ends it or fails to.\<close>

datatype stopped = Reaped | Unreachable (helper_ends: bool)

text \<open>A helper run succeeds, or fails with or without its effect.\<close>

datatype helper = HelperOk | HelperFailed (took_effect: bool)

text \<open>A write of the marker file succeeds, fails before it touched the file, or leaves it cut off.\<close>

datatype written = Written | Untouched | CutOff

datatype marker_write = SetKill | SetTun | ClearKill | ClearTun

record env =
  e_now :: int
  e_foreign :: bool
  e_ping :: "server \<Rightarrow> (bool \<times> int) option"
  e_ping_again :: "server \<Rightarrow> (bool \<times> int) option"
  e_edit :: "settings option"
  e_secret :: string
  e_parse_ip :: "string \<Rightarrow> (bool \<times> string) option"
  e_lookup :: "string \<Rightarrow> (bool \<times> string) list option"
  e_lookup_kill :: "string \<Rightarrow> (bool \<times> string) list option"
  e_resolver :: "string option"
  e_config_written :: bool
  e_sing_box :: bool
  e_helper :: bool
  e_wintun :: bool
  e_trusted :: bool
  e_start :: start
  e_routes :: bool
  e_stop :: stopped
  e_abort :: stopped
  e_tun_stays :: bool
  e_kill_on :: helper
  e_kill_off :: helper
  e_tun_off :: helper
  e_totals :: "(int \<times> int) option"
  e_switch :: "string \<Rightarrow> bool"
  e_probe :: bool
  e_write :: "marker_write \<Rightarrow> written"
  e_text :: "connect_error \<Rightarrow> string"

section \<open>Machine and world\<close>

text \<open>The daemon drops the error of every transition.\<close>

definition trans :: "env \<Rightarrow> State \<Rightarrow> string \<Rightarrow> daemon \<Rightarrow> daemon" where
  "trans e t why d = d\<lparr>d_machine := try_transitions (e_now e) why [t] (d_machine d)\<rparr>"

definition set_server :: "string \<Rightarrow> daemon \<Rightarrow> daemon" where
  "set_server i d = d\<lparr>d_machine := SetServer i (d_machine d)\<rparr>"

definition state_of :: "daemon \<Rightarrow> State" where
  "state_of d = mstate (d_machine d)"

definition connected :: "daemon \<Rightarrow> bool" where
  "connected d = Connected (d_machine d)"

definition set_world :: "world \<Rightarrow> daemon \<Rightarrow> daemon" where
  "set_world w d = d\<lparr>d_world := w, d_seen := d_seen d @ [w]\<rparr>"

section \<open>The marker of what is in force\<close>

text \<open>
  \<open>os.WriteFile\<close> truncates the file before it writes: a crash in between leaves it cut off, which is the
  world added to \<open>d_torn\<close>.
\<close>

definition save_marker :: "env \<Rightarrow> marker_write \<Rightarrow> daemon \<Rightarrow> daemon" where
  "save_marker e k d =
     (let w = d_world d; torn = w\<lparr>w_marker := Garbage\<rparr>
      in if \<not> d_applied_kill d \<and> \<not> d_applied_tun d
         then (case e_write e k of Written \<Rightarrow> set_world (w\<lparr>w_marker := NoMarker\<rparr>) d | _ \<Rightarrow> d)
         else
           (case e_write e k of
              Written \<Rightarrow> set_world (w\<lparr>w_marker := Marker (d_applied_kill d) (d_applied_tun d)\<rparr>) (d\<lparr>d_torn := d_torn d @ [torn]\<rparr>)
            | Untouched \<Rightarrow> d
            | CutOff \<Rightarrow> set_world torn d))"

definition setApplied :: "env \<Rightarrow> marker_write \<Rightarrow> daemon \<Rightarrow> daemon" where
  "setApplied e k d =
     save_marker e k (d\<lparr>d_applied_kill := d_applied_kill d \<or> k = SetKill, d_applied_tun := d_applied_tun d \<or> k = SetTun\<rparr>)"

definition clearApplied :: "env \<Rightarrow> marker_write \<Rightarrow> daemon \<Rightarrow> daemon" where
  "clearApplied e k d =
     save_marker e k (d\<lparr>d_applied_kill := d_applied_kill d \<and> k \<noteq> ClearKill, d_applied_tun := d_applied_tun d \<and> k \<noteq> ClearTun\<rparr>)"

definition killswitch_off :: "env \<Rightarrow> daemon \<Rightarrow> daemon" where
  "killswitch_off e d =
     (case e_kill_off e of
        HelperOk \<Rightarrow> clearApplied e ClearKill (set_world ((d_world d)\<lparr>w_kill := None\<rparr>) d)
      | HelperFailed eff \<Rightarrow> if eff then set_world ((d_world d)\<lparr>w_kill := None\<rparr>) d else d)"

definition tun_cleanup :: "env \<Rightarrow> daemon \<Rightarrow> daemon" where
  "tun_cleanup e d =
     (case e_tun_off e of
        HelperOk \<Rightarrow> clearApplied e ClearTun (set_world ((d_world d)\<lparr>w_tun := False\<rparr>) d)
      | HelperFailed eff \<Rightarrow> if eff then set_world ((d_world d)\<lparr>w_tun := False\<rparr>) d else d)"

definition cleanupApplied :: "env \<Rightarrow> daemon \<Rightarrow> daemon" where
  "cleanupApplied e d =
     (let d1 = if d_applied_kill d then killswitch_off e d else d
      in if d_applied_tun d then tun_cleanup e d1 else d1)"

text \<open>At boot the flags come from the file; a file that cannot be read as JSON is removed.\<close>

definition reconcileApplied :: "env \<Rightarrow> daemon \<Rightarrow> daemon" where
  "reconcileApplied e d =
     (case w_marker (d_world d) of
        NoMarker \<Rightarrow> d
      | Garbage \<Rightarrow> set_world ((d_world d)\<lparr>w_marker := NoMarker\<rparr>) d
      | Marker k t \<Rightarrow>
          if \<not> k \<and> \<not> t then set_world ((d_world d)\<lparr>w_marker := NoMarker\<rparr>) d
          else
            let d0 = d\<lparr>d_applied_kill := k, d_applied_tun := t\<rparr>;
                d1 = if k then killswitch_off e d0 else d0
            in if t then tun_cleanup e d1 else d1)"

section \<open>Core and monitors\<close>

definition ensureCoreGone :: "stopped \<Rightarrow> bool \<Rightarrow> world \<Rightarrow> world" where
  "ensureCoreGone r stays w =
     (if \<not> w_core w then w
      else if r = Reaped \<or> helper_ends r then w\<lparr>w_core := False, w_tun := w_tun w \<and> stays\<rparr>
      else w\<lparr>w_core := False, w_orphans := Suc (w_orphans w)\<rparr>)"

definition stopCore :: "stopped \<Rightarrow> bool \<Rightarrow> daemon \<Rightarrow> daemon" where
  "stopCore r stays d =
     (if \<not> d_core d then d else set_world (ensureCoreGone r stays (d_world d)) (d\<lparr>d_core := False\<rparr>))"

definition stopMonitors :: "daemon \<Rightarrow> daemon" where
  "stopMonitors d = d\<lparr>d_mons := None\<rparr>"

definition startMonitors :: "daemon \<Rightarrow> daemon" where
  "startMonitors d = d\<lparr>d_gen := Suc (d_gen d), d_mons := Some (Suc (d_gen d))\<rparr>"

definition noteRecovery :: "env \<Rightarrow> daemon \<Rightarrow> daemon" where
  "noteRecovery e d = d\<lparr>d_recovery := Some (e_now e)\<rparr>"

definition recoveryUnderway :: "daemon \<Rightarrow> bool" where
  "recoveryUnderway d \<longleftrightarrow>
     state_of d \<in> {StTesting, StSelecting, StConnecting, StStartingCore, StInitializingTUN, StApplyingRouting,
                   StReconnecting, StSwitchingServer, StDisconnecting}"

text \<open>What the supervision of the core reports (\<open>core.Manager.Running\<close>).\<close>

definition running :: "daemon \<Rightarrow> bool" where
  "running d \<longleftrightarrow> d_core d \<and> w_core (d_world d)"

text \<open>
  Starting the core: the guards of \<open>startCore\<close>, then the process. The device can appear only if the
  configuration asks for it; only an elevated core survives being killed.
\<close>

definition launch :: "env \<Rightarrow> settings \<Rightarrow> daemon \<Rightarrow> connect_error option \<times> daemon" where
  "launch e st d =
     (case e_start e of
        NotStarted \<Rightarrow> (Some CoreNotReady, d)
      | NotReady alive dev \<Rightarrow>
          (Some CoreNotReady,
           if alive \<and> (TunEnabled st \<or> KillSwitch st)
           then set_world ((d_world d)\<lparr>w_orphans := Suc (w_orphans (d_world d)), w_tun := w_tun (d_world d) \<or> dev \<and> TunEnabled st\<rparr>) d
           else d)
      | Started dev \<Rightarrow> (None, set_world ((d_world d)\<lparr>w_core := True, w_tun := w_tun (d_world d) \<or> dev \<and> TunEnabled st\<rparr>) d))"

definition startCore :: "env \<Rightarrow> daemon \<Rightarrow> connect_error option \<times> daemon" where
  "startCore e d =
     (let st = d_settings d
      in if \<not> e_sing_box e then (Some NoSingBox, d)
         else if TunEnabled st \<or> KillSwitch st then
           if \<not> e_helper e then (Some NoHelper, d)
           else if \<not> e_wintun e \<and> TunEnabled st then (Some NoWintun, d)
           else if \<not> e_trusted e then (Some UntrustedCore, d)
           else launch e st d
         else launch e st d)"

section \<open>Tests and configuration\<close>

definition ping_results :: "env \<Rightarrow> (server \<Rightarrow> (bool \<times> int) option) \<Rightarrow> server list \<Rightarrow> test_result list" where
  "ping_results e ping ss =
     List.map_filter (\<lambda>s. map_option (\<lambda>(failed, l). \<lparr>r_id = srv_id s, r_latency = l, r_failed = failed, r_at = e_now e\<rparr>) (ping s)) ss"

definition quickTest :: "env \<Rightarrow> (server \<Rightarrow> (bool \<times> int) option) \<Rightarrow> server list \<Rightarrow> daemon \<Rightarrow> daemon" where
  "quickTest e ping ss d = d\<lparr>d_servers := record_results (ping_results e ping ss) (d_servers d)\<rparr>"

definition cidr :: "bool \<times> string \<Rightarrow> string" where
  "cidr a = snd a @ (if fst a then ''/32'' else ''/128'')"

fun add_new :: "string list \<Rightarrow> string list \<Rightarrow> string list" where
  "add_new acc [] = acc"
| "add_new acc (x # xs) = add_new (if x \<in> set acc then acc else acc @ [x]) xs"

definition tunExcludes :: "env \<Rightarrow> server list \<Rightarrow> string list" where
  "tunExcludes e ss =
     add_new [] (concat (map (\<lambda>s. case e_parse_ip e (srv_address s) of
                                    Some a \<Rightarrow> [cidr a]
                                  | None \<Rightarrow> (case e_lookup e (srv_address s) of None \<Rightarrow> [] | Some ips \<Rightarrow> map cidr ips)) ss))"

definition allow_keys :: "env \<Rightarrow> server list \<Rightarrow> string list" where
  "allow_keys e ss =
     add_new [] (concat (map (\<lambda>s. case e_lookup_kill e (srv_address s) of
                                    None \<Rightarrow> []
                                  | Some ips \<Rightarrow> map (\<lambda>a. snd a @ '':'' @ int_str (srv_port s)) ips) ss))"

definition config_options :: "env \<Rightarrow> server list \<Rightarrow> settings \<Rightarrow> options" where
  "config_options e targets st =
     \<lparr>o_mixed_port = MixedPort st, o_tun = TunEnabled st,
      o_mode = (if RoutingMode st = ''rules'' then ModeRules else ModeGlobal), o_log_level = [],
      o_clash_port = ClashAPIPort st, o_clash_secret = e_secret e,
      o_test_url = ''https://www.gstatic.com/generate_204'', o_test_interval = URLTestIntervalMin st * 60000000000,
      o_mtu = MTU st, o_exclude = tunExcludes e targets, o_split_mode = SplitMode st, o_split_apps = SplitApps st,
      o_dns_mode = DNSMode st\<rparr>"

definition renderConfig :: "env \<Rightarrow> server list \<Rightarrow> string \<Rightarrow> daemon \<Rightarrow> (config_error, json) res" where
  "renderConfig e targets active d =
     (let opts = config_options e targets (d_settings d)
      in case targets of [s] \<Rightarrow> Generate s opts | _ \<Rightarrow> GenerateGroup targets active opts)"

section \<open>Connecting\<close>

text \<open>The error path of \<open>bringUp\<close>: stop the core, then report.\<close>

definition give_up :: "env \<Rightarrow> connect_error \<Rightarrow> daemon \<Rightarrow> connect_error option \<times> daemon" where
  "give_up e err d = (Some err, trans e StError (e_text e err) (stopCore (e_abort e) (e_tun_stays e) d))"

definition killswitch_on :: "env \<Rightarrow> server list \<Rightarrow> daemon \<Rightarrow> bool \<times> daemon" where
  "killswitch_on e targets d =
     (let on = set_world ((d_world d)\<lparr>w_kill := Some (allow_keys e targets)\<rparr>) d
      in case e_kill_on e of HelperOk \<Rightarrow> (True, on) | HelperFailed eff \<Rightarrow> (False, if eff then on else d))"

text \<open>From \<open>applyKillSwitch\<close> to the connected state.\<close>

definition declare_connected :: "env \<Rightarrow> server \<Rightarrow> daemon \<Rightarrow> connect_error option \<times> daemon" where
  "declare_connected e pick d =
     (let d1 = trans e StConnected (DisplayName pick) d
      in (None, d1\<lparr>d_connect_at := Some (e_now e), d_fail := 0, d_flap := 0,
                   d_session := (case e_totals e of Some tot \<Rightarrow> tot | None \<Rightarrow> d_session d1)\<rparr>))"

definition lock_egress :: "env \<Rightarrow> server list \<Rightarrow> server \<Rightarrow> settings \<Rightarrow> daemon \<Rightarrow> connect_error option \<times> daemon" where
  "lock_egress e targets pick st d =
     (if KillSwitch st then
        case killswitch_on e targets (setApplied e SetKill d) of
          (False, d1) \<Rightarrow> give_up e KillSwitchRefused d1
        | (True, d1) \<Rightarrow> declare_connected e pick d1
      else declare_connected e pick d)"

definition verify_session :: "env \<Rightarrow> server list \<Rightarrow> server \<Rightarrow> settings \<Rightarrow> daemon \<Rightarrow> connect_error option \<times> daemon" where
  "verify_session e targets pick st d =
     (let d1 = trans e StInitializingTUN [] d
      in if TunEnabled st \<and> \<not> w_tun (d_world d1) then give_up e TunMissing d1
         else
           let d2 = trans e StApplyingRouting [] d1
           in if \<not> e_routes e then give_up e NoDefaultRoute d2 else lock_egress e targets pick st d2)"

definition bringUp :: "env \<Rightarrow> server list \<Rightarrow> server \<Rightarrow> settings \<Rightarrow> daemon \<Rightarrow> connect_error option \<times> daemon" where
  "bringUp e targets pick st d =
     (case startCore e (trans e StStartingCore (DisplayName pick) d) of
        (Some err, d1) \<Rightarrow> (Some err, trans e StError (e_text e err) d1)
      | (None, d1) \<Rightarrow>
          let d2 = d1\<lparr>d_core := True, d_clash := Some (ClashAPIPort (d_settings d1), e_secret e), d_targets := targets\<rparr>;
              d3 = if TunEnabled st then setApplied e SetTun d2 else d2
          in verify_session e targets pick st d3)"

text \<open>From the selected server to the monitors, shared by \<open>connectLocked\<close> and \<open>reconnectWith\<close>.\<close>

definition fail_with :: "env \<Rightarrow> connect_error \<Rightarrow> daemon \<Rightarrow> connect_error option \<times> daemon" where
  "fail_with e err d = (Some err, trans e StError (e_text e err) d)"

definition go_online :: "env \<Rightarrow> server list \<Rightarrow> server \<Rightarrow> settings \<Rightarrow> bool \<Rightarrow> daemon \<Rightarrow> connect_error option \<times> daemon" where
  "go_online e targets pick st snapshot d =
     (let d1 = set_server (srv_id pick) (trans e StConnecting (DisplayName pick) d)
      in case renderConfig e targets (srv_id pick) d1 of
           Inl err \<Rightarrow> fail_with e (BadConfig err) d1
         | Inr cfg \<Rightarrow>
             if \<not> e_config_written e then fail_with e CannotWriteConfig d1
             else
               let d2 = (if snapshot then (case e_resolver e of Some h \<Rightarrow> d1\<lparr>d_resolv := h\<rparr> | None \<Rightarrow> d1) else d1)
               in case bringUp e targets pick st d2 of
                    (Some err, d3) \<Rightarrow> (Some err, d3)
                  | (None, d3) \<Rightarrow> (None, startMonitors d3))"

text \<open>
  \<open>connectLocked\<close>. The settings are read at the start, and again when the configuration is rendered and the
  core is started; the user may store others while the servers are tested (\<open>e_edit\<close>).
\<close>

definition edited :: "env \<Rightarrow> daemon \<Rightarrow> daemon" where
  "edited e d = (case e_edit e of None \<Rightarrow> d | Some st \<Rightarrow> d\<lparr>d_settings := st\<rparr>)"

definition manual_targets :: "string \<Rightarrow> server list \<Rightarrow> server list \<Rightarrow> server list option" where
  "manual_targets i ss all =
     (if i \<noteq> [] \<and> i \<noteq> ''auto'' then map_option (\<lambda>s. [s]) (find (\<lambda>s. srv_id s = i) ss) else Some all)"

definition connectLocked :: "env \<Rightarrow> string \<Rightarrow> string \<Rightarrow> daemon \<Rightarrow> connect_error option \<times> daemon" where
  "connectLocked e i why d =
     (let st = d_settings d; before = usableServers (d_servers d)
      in if before = [] then (Some NoServersAvailable, trans e StError ''no servers available'' d)
         else if TunEnabled st \<and> e_foreign e then fail_with e ForeignTun d
         else
           let d1 = edited e (quickTest e (e_ping e) before (trans e StSelecting why d));
               all = usableServers (d_servers d1)
           in case manual_targets i (d_servers d1) all of
                None \<Rightarrow> (Some (ServerNotFound i), trans e StError ''server not found'' d1)
              | Some targets \<Rightarrow>
                  (case Select targets (historiesOf all) (serverID (d_machine d1)) select_defaults of
                     None \<Rightarrow> (Some NoUsableServer, trans e StError ''no usable server'' d1)
                   | Some pick \<Rightarrow> go_online e targets pick st True d1))"

definition Connect :: "env \<Rightarrow> string \<Rightarrow> daemon \<Rightarrow> connect_error option \<times> daemon" where
  "Connect e i d =
     (if connected d then (Some AlreadyConnected, d)
      else if state_of d \<noteq> StDisconnected \<and> state_of d \<noteq> StError then (Some (Busy (state_of d)), d)
      else connectLocked e i ''user'' (noteRecovery e d))"

section \<open>Disconnecting\<close>

definition teardown :: "env \<Rightarrow> daemon \<Rightarrow> daemon" where
  "teardown e d = cleanupApplied e (stopCore (e_stop e) (e_tun_stays e) (stopMonitors d))"

definition disconnect :: "env \<Rightarrow> string \<Rightarrow> daemon \<Rightarrow> connect_error option \<times> daemon" where
  "disconnect e why d =
     (if state_of d = StDisconnected then (Some NotConnected, d)
      else if state_of d = StError \<or> recoveryUnderway d then
        let d1 = teardown e d in (None, d1\<lparr>d_machine := Reset (e_now e) why (d_machine d1)\<rparr>)
      else (None, trans e StDisconnected why (teardown e (trans e StDisconnecting why d))))"

definition Disconnect :: "env \<Rightarrow> string \<Rightarrow> daemon \<Rightarrow> connect_error option \<times> daemon" where
  "Disconnect e why d = disconnect e why d"

text \<open>On a termination signal \<open>run\<close> disconnects a connected daemon and returns.\<close>

definition shutdown :: "env \<Rightarrow> daemon \<Rightarrow> daemon" where
  "shutdown e d = (if connected d then snd (disconnect e ''shutdown'' d) else d)"

section \<open>Reconnecting\<close>

text \<open>
  The candidates are pointers into the server list taken before the test, so the test's results show in them:
  they are kept as positions.
\<close>

definition usable_positions :: "server list \<Rightarrow> nat list" where
  "usable_positions ss =
     (let u = filter (\<lambda>k. srv_health (ss ! k) \<noteq> HealthUnhealthy) [0..<length ss] in if u \<noteq> [] then u else [0..<length ss])"

definition reconnectWith :: "env \<Rightarrow> string \<Rightarrow> daemon \<Rightarrow> connect_error option \<times> daemon" where
  "reconnectWith e i d =
     (let ps = usable_positions (d_servers d);
          d1 = quickTest e (e_ping e) (map ((!) (d_servers d)) ps) d;
          targets = map ((!) (d_servers d1)) ps;
          incumbent = if i \<noteq> [] \<and> i \<in> set (map srv_id targets) then i else []
      in case Select targets (historiesOf targets) incumbent select_defaults of
           None \<Rightarrow> (Some NoUsableServer, trans e StError ''no usable server'' d1)
         | Some pick \<Rightarrow> go_online e targets pick (d_settings d1) False d1)"

definition reconnectLocked :: "env \<Rightarrow> daemon \<Rightarrow> daemon" where
  "reconnectLocked e d =
     snd (reconnectWith e (serverID (d_machine d)) (stopCore (e_stop e) (e_tun_stays e) (stopMonitors d)))"

section \<open>Health checks and failover\<close>

definition probeURLs :: "settings \<Rightarrow> string list" where
  "probeURLs st =
     (let primary = ConnectionTestURL st; fallback = ''http://www.gstatic.com/generate_204''
      in if primary = [] \<or> primary = fallback then [fallback] else [primary, fallback])"

definition proxyURL :: "settings \<Rightarrow> string" where
  "proxyURL st = (if MixedPort st \<le> 0 then [] else ''http://127.0.0.1:'' @ int_str (MixedPort st))"

fun mark_first :: "string \<Rightarrow> (server \<Rightarrow> server) \<Rightarrow> server list \<Rightarrow> server list" where
  "mark_first i f [] = []"
| "mark_first i f (s # ss) = (if srv_id s = i then f s # ss else s # mark_first i f ss)"

definition markCurrentUnhealthy :: "env \<Rightarrow> daemon \<Rightarrow> daemon" where
  "markCurrentUnhealthy e d =
     d\<lparr>d_servers := mark_first (serverID (d_machine d))
         (\<lambda>s. s\<lparr>srv_health := HealthUnhealthy, srv_last_test := Some (e_now e)\<rparr>) (d_servers d)\<rparr>"

text \<open>The verdict of a health check; the failover it asks for waits for the lock.\<close>

definition verdict :: "env \<Rightarrow> bool \<Rightarrow> daemon \<Rightarrow> daemon" where
  "verdict e healthy d =
     (if healthy then
        let d1 = d\<lparr>d_fail := 0, d_flap := 0\<rparr>
        in if state_of d1 = StDegraded then trans e StConnected ''recovered'' d1 else d1
      else
        let d1 = d\<lparr>d_fail := Suc (d_fail d)\<rparr>;
            d2 = if state_of d1 = StConnected then trans e StDegraded ''probe failed'' d1 else d1
        in if d_fail d2 \<ge> 2 then (markCurrentUnhealthy e d2)\<lparr>d_failovers := Suc (d_failovers d2)\<rparr> else d2)"

text \<open>\<open>checkHealth\<close> up to its probe, and from there.\<close>

definition check_begin :: "env \<Rightarrow> daemon \<Rightarrow> daemon" where
  "check_begin e d =
     (if \<not> connected d then d
      else if \<not> running d then verdict e False d
      else d\<lparr>d_checks := Suc (d_checks d)\<rparr>)"

definition check_end :: "env \<Rightarrow> daemon \<Rightarrow> daemon" where
  "check_end e d = (if d_checks d = 0 then d else verdict e (e_probe e) (d\<lparr>d_checks := d_checks d - 1\<rparr>))"

definition groupTagFor :: "server list \<Rightarrow> server \<Rightarrow> string" where
  "groupTagFor targets best =
     (case find (\<lambda>k. srv_id (targets ! k) = srv_id best) [0..<length targets] of
        Some k \<Rightarrow> group_tag k
      | None \<Rightarrow> ProxyAutoTag)"

definition reviveCheck :: "env \<Rightarrow> daemon \<Rightarrow> bool \<times> daemon" where
  "reviveCheck e d =
     (if d_servers d = [] then (False, d)
      else
        let d1 = quickTest e (e_ping_again e) (d_servers d) d
        in (list_ex (\<lambda>s. srv_health s = HealthHealthy \<or> srv_health s = HealthDegraded) (d_servers d1), d1))"

definition retry_current :: "env \<Rightarrow> daemon \<Rightarrow> daemon" where
  "retry_current e d =
     (if d_flap d \<ge> 2 then d\<lparr>d_fail := 0\<rparr>
      else reconnectLocked e (trans e StReconnecting ''retry current'' (d\<lparr>d_flap := Suc (d_flap d), d_fail := 0\<rparr>)))"

text \<open>Switching: inside the running group configuration if the core accepts that, by a restart otherwise.\<close>

definition switch_to_best :: "env \<Rightarrow> server \<Rightarrow> daemon \<Rightarrow> daemon" where
  "switch_to_best e best d =
     (let d1 = trans e StSwitchingServer (DisplayName best) (d\<lparr>d_flap := Suc (d_flap d)\<rparr>)
      in if d_clash d1 \<noteq> None \<and> e_switch e (groupTagFor (d_targets d1) best) then
           let d2 = (set_server (srv_id best) d1)\<lparr>d_fail := 0\<rparr>
           in if e_probe e then trans e StConnected (DisplayName best) (d2\<lparr>d_flap := 0\<rparr>)
              else trans e StDegraded ''new path bad'' (d2\<lparr>d_fail := 1\<rparr>)
         else
           let d2 = set_server (srv_id best) (stopCore (e_stop e) (e_tun_stays e) (stopMonitors d1))
           in snd (reconnectWith e (srv_id best) (trans e StReconnecting (DisplayName best) d2)))"

definition failover :: "env \<Rightarrow> daemon \<Rightarrow> daemon" where
  "failover e d0 =
     (if d_failovers d0 = 0 then d0
      else
        let d = d0\<lparr>d_failovers := d_failovers d0 - 1\<rparr>
        in if \<not> connected d then d\<lparr>d_fail := 0\<rparr>
           else
             let d1 = noteRecovery e d;
                 candidates = filter (\<lambda>s. srv_id s \<noteq> serverID (d_machine d1)) (usableServers (d_servers d1))
             in if candidates = [] then retry_current e d1
                else
                  case Select candidates (historiesOf candidates) [] select_defaults of
                    None \<Rightarrow> d1
                  | Some best \<Rightarrow>
                      if d_flap d1 \<ge> 2 then
                        (case reviveCheck e d1 of
                           (True, d2) \<Rightarrow> switch_to_best e best (d2\<lparr>d_flap := 0\<rparr>)
                         | (False, d2) \<Rightarrow> d2\<lparr>d_fail := 0\<rparr>)
                      else switch_to_best e best d1)"

section \<open>Network changes\<close>

text \<open>
  \<open>onNetworkChange\<close> up to its probes (a change within the cooldown is remembered as such), the two failed
  probes, and the recovery once it has the lock.
\<close>

definition net_begin :: "env \<Rightarrow> daemon \<Rightarrow> daemon" where
  "net_begin e d =
     (if \<not> connected d \<or> recoveryUnderway d then d
      else d\<lparr>d_net := d_net d @ [case d_recovery d of None \<Rightarrow> False | Some t \<Rightarrow> e_now e - t < 90000000000]\<rparr>)"

definition net_probed :: "env \<Rightarrow> bool \<Rightarrow> bool \<Rightarrow> daemon \<Rightarrow> daemon" where
  "net_probed e ok1 ok2 d =
     (case d_net d of
        [] \<Rightarrow> d
      | cool # rest \<Rightarrow>
          let d1 = d\<lparr>d_net := rest\<rparr>
          in if ok1 \<or> ok2 then d1
             else if cool then d1
             else d1\<lparr>d_recovery := Some (e_now e), d_net_wait := Suc (d_net_wait d1)\<rparr>)"

definition net_recover :: "env \<Rightarrow> daemon \<Rightarrow> daemon" where
  "net_recover e d =
     (if d_net_wait d = 0 then d
      else reconnectLocked e (trans e StReconnecting ''network change'' (d\<lparr>d_net_wait := d_net_wait d - 1\<rparr>)))"

section \<open>Runs\<close>

definition fresh_daemon :: "settings \<Rightarrow> server list \<Rightarrow> world \<Rightarrow> daemon" where
  "fresh_daemon st ss w =
     \<lparr>d_machine = NewMachine, d_settings = st, d_servers = ss, d_applied_kill = False, d_applied_tun = False,
      d_core = False, d_clash = None, d_resolv = [], d_targets = [], d_mons = None, d_gen = 0, d_fail = 0,
      d_flap = 0, d_recovery = None, d_connect_at = None, d_session = (0, 0), d_world = w, d_seen = [w], d_torn = [],
      d_checks = 0, d_failovers = 0, d_net = [], d_net_wait = 0\<rparr>"

text \<open>A daemon process starts: it loads its documents and cleans up what the marker records.\<close>

definition boot :: "env \<Rightarrow> settings \<Rightarrow> server list \<Rightarrow> world \<Rightarrow> daemon" where
  "boot e st ss w = reconcileApplied e (fresh_daemon st ss w)"

text \<open>
  One step of a running daemon: a call of the user, a tick or a change seen by a monitor, an edit of the
  settings or of the server list, the core process ending by itself (its device may stay).
\<close>

inductive dstep :: "env \<Rightarrow> daemon \<Rightarrow> daemon \<Rightarrow> bool" for e where
  connect: "dstep e d (snd (Connect e i d))"
| disconnected: "dstep e d (snd (Disconnect e ''user'' d))"
| check: "d_mons d \<noteq> None \<Longrightarrow> dstep e d (check_begin e d)"
| checked: "dstep e d (check_end e d)"
| failed_over: "dstep e d (failover e d)"
| net_change: "dstep e d (net_begin e d)"
| net_probes: "dstep e d (net_probed e ok1 ok2 d)"
| net_reconnect: "dstep e d (net_recover e d)"
| subscriber: "dstep e d (d\<lparr>d_machine := Subscribe (d_machine d)\<rparr>)"
| edit: "dstep e d (d\<lparr>d_settings := st, d_servers := ss\<rparr>)"
| core_ends: "dstep e d (set_world ((d_world d)\<lparr>w_core := False, w_tun := w_tun (d_world d) \<and> e_tun_stays e\<rparr>) d)"
| stop: "dstep e d (shutdown e d)"

text \<open>
  When the daemon process ends, the core ends with it or goes on unsupervised, and its device may go.
\<close>

definition left_behind :: "bool \<Rightarrow> bool \<Rightarrow> world \<Rightarrow> world" where
  "left_behind survives_it stays w =
     (if w_core w \<and> survives_it then w\<lparr>w_core := False, w_orphans := Suc (w_orphans w)\<rparr>
      else w\<lparr>w_core := False, w_tun := w_tun w \<and> stays\<rparr>)"

text \<open>
  Everything that can happen to an installation. The daemon may die in any world it has passed; with
  \<open>torn\<close> also in the middle of a write of the marker. Environments are taken from \<open>E\<close>.
\<close>

inductive dreach :: "env set \<Rightarrow> bool \<Rightarrow> daemon \<Rightarrow> bool" for E torn where
  first: "e \<in> E \<Longrightarrow> dreach E torn (boot e st ss \<lparr>w_core = False, w_orphans = 0, w_tun = False, w_kill = None, w_marker = NoMarker\<rparr>)"
| step: "dreach E torn d \<Longrightarrow> e \<in> E \<Longrightarrow> dstep e d d' \<Longrightarrow> dreach E torn d'"
| reboot: "dreach E torn d \<Longrightarrow> e \<in> E \<Longrightarrow> w \<in> set (d_seen d) \<or> torn \<and> w \<in> set (d_torn d) \<Longrightarrow>
    dreach E torn (boot e st ss (left_behind sv stays w))"

inductive_cases dstepE: "dstep e d d'"

end
