(* ===== verification/Daemon_Safety.thy ===== *)
theory Daemon_Safety
  imports Daemon
begin

text \<open>
  What holds of the daemon in every run: its connection machine only makes runs of the machine of
  \<open>Connection\<close>; a kill switch in force is recorded for the next boot; between operations the machine rests in
  one of four states, with a supervised core exactly while it is connected.
\<close>

lemma trans_sel [simp]:
  "d_settings (trans e t why d) = d_settings d" "d_servers (trans e t why d) = d_servers d"
  "d_applied_kill (trans e t why d) = d_applied_kill d" "d_applied_tun (trans e t why d) = d_applied_tun d"
  "d_core (trans e t why d) = d_core d" "d_clash (trans e t why d) = d_clash d"
  "d_targets (trans e t why d) = d_targets d" "d_mons (trans e t why d) = d_mons d"
  "d_world (trans e t why d) = d_world d" "d_seen (trans e t why d) = d_seen d" "d_torn (trans e t why d) = d_torn d"
  "d_flap (trans e t why d) = d_flap d" "d_fail (trans e t why d) = d_fail d"
  "d_net (trans e t why d) = d_net d" "d_net_wait (trans e t why d) = d_net_wait d" "d_checks (trans e t why d) = d_checks d"
  "d_failovers (trans e t why d) = d_failovers d"
  by (simp_all add: trans_def)

lemma set_world_sel [simp]:
  "d_settings (set_world w d) = d_settings d" "d_servers (set_world w d) = d_servers d"
  "d_applied_kill (set_world w d) = d_applied_kill d" "d_applied_tun (set_world w d) = d_applied_tun d"
  "d_core (set_world w d) = d_core d" "d_machine (set_world w d) = d_machine d" "d_mons (set_world w d) = d_mons d"
  "d_world (set_world w d) = w" "d_seen (set_world w d) = d_seen d @ [w]" "d_torn (set_world w d) = d_torn d"
  "d_net_wait (set_world w d) = d_net_wait d" "d_net (set_world w d) = d_net d" "d_targets (set_world w d) = d_targets d"
  by (simp_all add: set_world_def)

section \<open>The machine makes runs of the connection machine\<close>

definition mrun :: "machine \<Rightarrow> machine \<Rightarrow> bool" where
  "mrun m m' = mstep\<^sup>*\<^sup>* m m'"

named_theorems moves \<open>operations that only make steps of the machine\<close>

lemma mrun_refl [moves]: "mrun m m"
  by (simp add: mrun_def)

lemma mrun_step: "mrun m m1 \<Longrightarrow> mstep m1 m2 \<Longrightarrow> mrun m m2"
  unfolding mrun_def by (rule rtranclp.rtrancl_into_rtrancl)

lemma mstep_try: "mstep m (try_transitions now why [t] m)"
  by (cases "Transition now t why m") (auto intro: mstep.transition mstep.refused)

lemma mrun_transition [moves]: "mrun m (d_machine d1) \<Longrightarrow> mrun m (d_machine (trans e t why d1))"
  by (erule mrun_step) (simp add: trans_def mstep_try del: try_transitions.simps)

lemma mrun_set_server [moves]: "mrun m (d_machine d1) \<Longrightarrow> mrun m (d_machine (set_server i d1))"
  by (erule mrun_step) (simp add: set_server_def mstep.setserver)

lemma quiet [simp]:
  "d_machine (save_marker e k d) = d_machine d" "d_machine (setApplied e k d) = d_machine d"
  "d_machine (clearApplied e k d) = d_machine d" "d_machine (killswitch_off e d) = d_machine d"
  "d_machine (tun_cleanup e d) = d_machine d" "d_machine (cleanupApplied e d) = d_machine d"
  "d_machine (reconcileApplied e d) = d_machine d" "d_machine (stopCore r stays d) = d_machine d"
  "d_machine (stopMonitors d) = d_machine d" "d_machine (startMonitors d) = d_machine d"
  "d_machine (noteRecovery e d) = d_machine d" "d_machine (quickTest e ping ss d) = d_machine d"
  "d_machine (edited e d) = d_machine d" "d_machine (snd (launch e st d)) = d_machine d"
  "d_machine (snd (startCore e d)) = d_machine d" "d_machine (snd (killswitch_on e ts d)) = d_machine d"
  "d_machine (markCurrentUnhealthy e d) = d_machine d" "d_machine (snd (reviveCheck e d)) = d_machine d"
  "d_machine (teardown e d) = d_machine d"
proof -
  show 1: "d_machine (save_marker e k d) = d_machine d" for e k d
    by (simp add: save_marker_def Let_def set_world_def split: written.splits)
  show 2: "d_machine (clearApplied e k d) = d_machine d" "d_machine (setApplied e k d) = d_machine d" for e k d
    by (simp_all add: clearApplied_def setApplied_def 1)
  show 3: "d_machine (killswitch_off e d) = d_machine d" "d_machine (tun_cleanup e d) = d_machine d" for e d
    by (simp_all add: killswitch_off_def tun_cleanup_def 2 set_world_def split: helper.splits)
  show 4: "d_machine (cleanupApplied e d) = d_machine d" "d_machine (reconcileApplied e d) = d_machine d" for d
    by (simp_all add: cleanupApplied_def reconcileApplied_def Let_def 3 set_world_def split: marker.splits)
  show 5: "d_machine (stopCore r stays d) = d_machine d" "d_machine (stopMonitors d) = d_machine d" for r stays d
    by (simp_all add: stopCore_def stopMonitors_def set_world_def)
  show "d_machine (teardown e d) = d_machine d" by (simp add: teardown_def 4 5)
  show 6: "d_machine (snd (launch e st d)) = d_machine d" for st
    by (simp add: launch_def set_world_def split: start.splits)
  show "d_machine (snd (startCore e d)) = d_machine d" by (simp add: startCore_def Let_def 6)
  show 7: "d_machine (quickTest e ping ss d) = d_machine d" for ping ss by (simp add: quickTest_def)
  then show "d_machine (snd (reviveCheck e d)) = d_machine d" by (simp add: reviveCheck_def Let_def)
  show "d_machine (snd (killswitch_on e ts d)) = d_machine d"
    by (simp add: killswitch_on_def Let_def set_world_def split: helper.splits)
qed (simp_all add: startMonitors_def noteRecovery_def edited_def markCurrentUnhealthy_def split: option.splits)

lemma quiet_pairs:
  "startCore e d1 = (r, d2) \<Longrightarrow> d_machine d2 = d_machine d1"
  "killswitch_on e ts d1 = (b, d2) \<Longrightarrow> d_machine d2 = d_machine d1"
  "reviveCheck e d1 = (b, d2) \<Longrightarrow> d_machine d2 = d_machine d1"
  using quiet(15) [of e d1] quiet(16) [of e ts d1] quiet(18) [of e d1] by simp_all

lemma mrun_give_up [moves]: "mrun m (d_machine d1) \<Longrightarrow> mrun m (d_machine (snd (give_up e err d1)))"
  by (simp add: give_up_def moves)

lemma mrun_fail_with [moves]: "mrun m (d_machine d1) \<Longrightarrow> mrun m (d_machine (snd (fail_with e err d1)))"
  by (simp add: fail_with_def moves)

lemma mrun_declare [moves]: "mrun m (d_machine d1) \<Longrightarrow> mrun m (d_machine (snd (declare_connected e pick d1)))"
  by (simp add: declare_connected_def Let_def moves)

lemma mrun_lock [moves]: "mrun m (d_machine d1) \<Longrightarrow> mrun m (d_machine (snd (lock_egress e ts pick st d1)))"
  by (auto simp: lock_egress_def quiet_pairs intro!: moves split: prod.splits bool.splits dest: quiet_pairs(2))

lemma mrun_verify [moves]: "mrun m (d_machine d1) \<Longrightarrow> mrun m (d_machine (snd (verify_session e ts pick st d1)))"
  by (auto simp: verify_session_def Let_def intro!: moves)

lemma mrun_bringUp [moves]: "mrun m (d_machine d1) \<Longrightarrow> mrun m (d_machine (snd (bringUp e ts pick st d1)))"
proof -
  assume f: "mrun m (d_machine d1)"
  obtain r d2 where s: "startCore e (trans e StStartingCore (DisplayName pick) d1) = (r, d2)" by fastforce
  have "mrun m (d_machine d2)" using mrun_transition [OF f] quiet_pairs(1) [OF s] by simp
  then show ?thesis
    by (auto simp: bringUp_def s Let_def intro!: moves split: option.splits)
qed

lemma mrun_online [moves]: "mrun m (d_machine d1) \<Longrightarrow> mrun m (d_machine (snd (go_online e ts pick st b d1)))"
proof -
  assume f: "mrun m (d_machine d1)"
  let ?d1 = "set_server (srv_id pick) (trans e StConnecting (DisplayName pick) d1)"
  let ?d2 = "if b then (case e_resolver e of Some h \<Rightarrow> ?d1\<lparr>d_resolv := h\<rparr> | None \<Rightarrow> ?d1) else ?d1"
  have f1: "mrun m (d_machine ?d1)" by (intro moves f)
  then have "mrun m (d_machine ?d2)" by (auto split: option.splits)
  then have "mrun m (d_machine (snd (bringUp e ts pick st ?d2)))" by (rule moves)
  then show ?thesis
    using f1 unfolding go_online_def Let_def
    by (auto split: option.splits sum.splits prod.splits intro: moves)
qed

lemma mrun_connectLocked [moves]: "mrun m (d_machine d1) \<Longrightarrow> mrun m (d_machine (snd (connectLocked e i why d1)))"
  unfolding connectLocked_def Let_def by (auto intro!: moves split: option.splits)

lemma mrun_Connect [moves]: "mrun m (d_machine d1) \<Longrightarrow> mrun m (d_machine (snd (Connect e i d1)))"
  unfolding Connect_def by (auto intro!: moves)

lemma mrun_disconnect [moves]: "mrun m (d_machine d1) \<Longrightarrow> mrun m (d_machine (snd (disconnect e why d1)))"
  unfolding disconnect_def Let_def
  by (auto intro!: moves intro: mrun_step [OF _ mstep.reset [of _ "e_now e" why]])

lemma mrun_reconnectWith [moves]: "mrun m (d_machine d1) \<Longrightarrow> mrun m (d_machine (snd (reconnectWith e i d1)))"
  unfolding reconnectWith_def Let_def by (auto intro!: moves split: option.splits)

lemma mrun_reconnectLocked [moves]: "mrun m (d_machine d1) \<Longrightarrow> mrun m (d_machine (reconnectLocked e d1))"
  unfolding reconnectLocked_def by (intro moves) simp

lemma mrun_verdict [moves]: "mrun m (d_machine d1) \<Longrightarrow> mrun m (d_machine (verdict e h d1))"
  unfolding verdict_def Let_def by (auto intro!: moves)

lemma mrun_retry [moves]: "mrun m (d_machine d1) \<Longrightarrow> mrun m (d_machine (retry_current e d1))"
  unfolding retry_current_def by (auto intro!: moves)

lemma mrun_switch [moves]: "mrun m (d_machine d1) \<Longrightarrow> mrun m (d_machine (switch_to_best e best d1))"
  unfolding switch_to_best_def Let_def by (auto intro!: moves)

lemma mrun_failover [moves]: "mrun m (d_machine d1) \<Longrightarrow> mrun m (d_machine (failover e d1))"
  unfolding failover_def Let_def
  by (auto intro!: moves split: option.splits prod.splits bool.splits dest!: quiet_pairs(3))

lemma dstep_follows: "dstep e d d' \<Longrightarrow> mrun (d_machine d) (d_machine d')"
proof (induction rule: dstep.induct)
  case (subscriber d)
  show ?case by (rule mrun_step [OF mrun_refl]) (simp add: mstep.subscribe)
qed (auto simp: Disconnect_def check_begin_def check_end_def net_begin_def net_probed_def net_recover_def Let_def
       shutdown_def intro!: moves split: list.splits)

lemma mreach_run: "mstep\<^sup>*\<^sup>* m m' \<Longrightarrow> mreach m \<Longrightarrow> mreach m'"
  by (induction rule: rtranclp_induct) (auto intro: mreach.step)

lemma boot_machine [simp]: "d_machine (boot e st ss w) = NewMachine"
  by (simp add: boot_def fresh_daemon_def)

lemma dreach_mreach: "dreach E torn d \<Longrightarrow> mreach (d_machine d)"
proof (induction rule: dreach.induct)
  case (step d e d')
  then show ?case using mreach_run [of "d_machine d" "d_machine d'"] dstep_follows [of e d d'] by (simp add: mrun_def)
qed (simp_all add: mreach.start)

section \<open>A kill switch in force is recorded\<close>

definition recorded :: "world \<Rightarrow> bool" where
  "recorded w \<longleftrightarrow> w_marker w \<noteq> Garbage \<and> (w_kill w \<noteq> None \<longrightarrow> (\<exists>t. w_marker w = Marker True t))"

definition sync_on :: "world \<Rightarrow> world list \<Rightarrow> bool \<Rightarrow> bool \<Rightarrow> bool" where
  "sync_on w seen k t \<longleftrightarrow>
     w_marker w = (if \<not> k \<and> \<not> t then NoMarker else Marker k t) \<and> (w_kill w \<noteq> None \<longrightarrow> k) \<and> (\<forall>v \<in> set seen. recorded v)"

abbreviation sync :: "daemon \<Rightarrow> bool" where
  "sync d \<equiv> sync_on (d_world d) (d_seen d) (d_applied_kill d) (d_applied_tun d)"

definition writes_ok :: "env \<Rightarrow> bool" where
  "writes_ok e \<longleftrightarrow> (\<forall>k. e_write e k = Written)"

lemma writes_okD: "writes_ok e \<Longrightarrow> e_write e k = Written"
  by (simp add: writes_ok_def)

lemma sync_recorded: "sync_on w seen k t \<Longrightarrow> recorded w"
  by (auto simp: sync_on_def recorded_def split: if_splits)

named_theorems synced \<open>operations that keep marker, flags and firewall in step\<close>

lemma sync_save:
  "writes_ok e \<Longrightarrow> \<forall>v \<in> set (d_seen d). recorded v \<Longrightarrow> (w_kill (d_world d) \<noteq> None \<longrightarrow> d_applied_kill d) \<Longrightarrow> sync (save_marker e k d)"
  by (auto simp: save_marker_def Let_def writes_okD sync_on_def recorded_def set_world_def)

lemma sync_set [synced]: "writes_ok e \<Longrightarrow> sync d \<Longrightarrow> k = SetKill \<or> k = SetTun \<Longrightarrow> sync (setApplied e k d)"
  unfolding setApplied_def by (rule sync_save) (auto simp: sync_on_def)

lemma sync_clear:
  "writes_ok e \<Longrightarrow> sync d \<Longrightarrow> k = ClearKill \<and> w_kill (d_world d) = None \<or> k = ClearTun \<Longrightarrow> sync (clearApplied e k d)"
  unfolding clearApplied_def by (rule sync_save) (auto simp: sync_on_def)

lemma sync_world:
  "sync d \<Longrightarrow> w_marker w = w_marker (d_world d) \<Longrightarrow> w_kill w = None \<or> w_kill w = w_kill (d_world d) \<or> d_applied_kill d \<Longrightarrow>
   sync (set_world w d)"
  by (auto simp: sync_on_def recorded_def split: if_splits)

lemma sync_off [synced]: "writes_ok e \<Longrightarrow> sync d \<Longrightarrow> sync (killswitch_off e d)"
proof -
  assume we: "writes_ok e" and d: "sync d"
  have s: "sync (set_world ((d_world d)\<lparr>w_kill := None\<rparr>) d)" by (rule sync_world [OF d]) simp_all
  have "sync (clearApplied e ClearKill (set_world ((d_world d)\<lparr>w_kill := None\<rparr>) d))" by (rule sync_clear [OF we s]) simp
  with s d show ?thesis by (simp add: killswitch_off_def split: helper.split)
qed

lemma sync_tun [synced]: "writes_ok e \<Longrightarrow> sync d \<Longrightarrow> sync (tun_cleanup e d)"
proof -
  assume we: "writes_ok e" and d: "sync d"
  have s: "sync (set_world ((d_world d)\<lparr>w_tun := False\<rparr>) d)" by (rule sync_world [OF d]) simp_all
  have "sync (clearApplied e ClearTun (set_world ((d_world d)\<lparr>w_tun := False\<rparr>) d))" by (rule sync_clear [OF we s]) simp
  with s d show ?thesis by (simp add: tun_cleanup_def split: helper.split)
qed

lemma sync_cleanup [synced]: "writes_ok e \<Longrightarrow> sync d \<Longrightarrow> sync (cleanupApplied e d)"
  unfolding cleanupApplied_def Let_def by (cases "d_applied_kill d"; cases "d_applied_tun d") (simp_all add: synced)

lemma sync_stop [synced]: "sync d \<Longrightarrow> sync (stopCore r stays d)"
proof -
  assume d: "sync d"
  then have "sync (d\<lparr>d_core := False\<rparr>)" by simp
  from sync_world [OF this, of "ensureCoreGone r stays (d_world d)"] d show ?thesis
    by (simp add: stopCore_def ensureCoreGone_def)
qed

lemma sync_launch [synced]: "sync d \<Longrightarrow> sync (snd (launch e st d))"
  using sync_world [of d] by (simp add: launch_def split: start.splits)

lemma sync_start [synced]: "sync d \<Longrightarrow> sync (snd (startCore e d))"
  unfolding startCore_def Let_def by (simp add: synced)

lemma sync_on_kill: "sync d \<Longrightarrow> d_applied_kill d \<Longrightarrow> sync (snd (killswitch_on e ts d))"
  using sync_world [of d] by (simp add: killswitch_on_def Let_def split: helper.splits)

lemma set_server_sel [simp]:
  "d_world (set_server i d) = d_world d" "d_seen (set_server i d) = d_seen d" "d_core (set_server i d) = d_core d"
  "d_applied_kill (set_server i d) = d_applied_kill d" "d_applied_tun (set_server i d) = d_applied_tun d"
  "d_settings (set_server i d) = d_settings d" "d_mons (set_server i d) = d_mons d" "d_servers (set_server i d) = d_servers d"
  by (simp_all add: set_server_def)

lemma bookkeeping_sel [simp]:
  "d_world (startMonitors d) = d_world d" "d_seen (startMonitors d) = d_seen d" "d_core (startMonitors d) = d_core d"
  "d_applied_kill (startMonitors d) = d_applied_kill d" "d_applied_tun (startMonitors d) = d_applied_tun d"
  "d_world (stopMonitors d) = d_world d" "d_seen (stopMonitors d) = d_seen d" "d_core (stopMonitors d) = d_core d"
  "d_applied_kill (stopMonitors d) = d_applied_kill d" "d_applied_tun (stopMonitors d) = d_applied_tun d"
  "d_world (quickTest e ping ss d) = d_world d" "d_seen (quickTest e ping ss d) = d_seen d" "d_core (quickTest e ping ss d) = d_core d"
  "d_applied_kill (quickTest e ping ss d) = d_applied_kill d" "d_applied_tun (quickTest e ping ss d) = d_applied_tun d"
  "d_world (noteRecovery e d) = d_world d" "d_seen (noteRecovery e d) = d_seen d" "d_core (noteRecovery e d) = d_core d"
  "d_applied_kill (noteRecovery e d) = d_applied_kill d" "d_applied_tun (noteRecovery e d) = d_applied_tun d"
  "d_world (markCurrentUnhealthy e d) = d_world d" "d_seen (markCurrentUnhealthy e d) = d_seen d"
  "d_core (markCurrentUnhealthy e d) = d_core d" "d_mons (markCurrentUnhealthy e d) = d_mons d"
  "d_applied_kill (markCurrentUnhealthy e d) = d_applied_kill d" "d_applied_tun (markCurrentUnhealthy e d) = d_applied_tun d"
  "d_settings (quickTest e ping ss d) = d_settings d" "d_mons (quickTest e ping ss d) = d_mons d"
  "d_settings (noteRecovery e d) = d_settings d" "d_servers (noteRecovery e d) = d_servers d" "d_mons (noteRecovery e d) = d_mons d"
  "d_servers (stopMonitors d) = d_servers d" "d_settings (stopMonitors d) = d_settings d"
  "d_mons (startMonitors d) = Some (Suc (d_gen d))" "d_mons (stopMonitors d) = None"
  by (simp_all add: startMonitors_def stopMonitors_def quickTest_def noteRecovery_def markCurrentUnhealthy_def)

lemma edited_sel [simp]:
  "d_world (edited e d) = d_world d" "d_seen (edited e d) = d_seen d" "d_core (edited e d) = d_core d"
  "d_applied_kill (edited e d) = d_applied_kill d" "d_applied_tun (edited e d) = d_applied_tun d"
  "d_servers (edited e d) = d_servers d" "d_mons (edited e d) = d_mons d"
  by (simp_all add: edited_def split: option.splits)

lemma revive_sel [simp]:
  "d_world (snd (reviveCheck e d)) = d_world d" "d_seen (snd (reviveCheck e d)) = d_seen d"
  "d_core (snd (reviveCheck e d)) = d_core d" "d_applied_kill (snd (reviveCheck e d)) = d_applied_kill d"
  "d_applied_tun (snd (reviveCheck e d)) = d_applied_tun d" "d_mons (snd (reviveCheck e d)) = d_mons d"
  by (simp_all add: reviveCheck_def Let_def)

lemma setApplied_kill [simp]: "d_applied_kill (setApplied e SetKill d)"
  by (simp add: setApplied_def save_marker_def Let_def set_world_def split: written.splits)

lemma sync_give_up [synced]: "sync d \<Longrightarrow> sync (snd (give_up e err d))"
  by (simp add: give_up_def synced)

lemma sync_fail [synced]: "sync d \<Longrightarrow> sync (snd (fail_with e err d))"
  by (simp add: fail_with_def)

lemma sync_declare [synced]: "sync d \<Longrightarrow> sync (snd (declare_connected e pick d))"
  by (simp add: declare_connected_def Let_def)

lemma sync_lock [synced]:
  assumes "writes_ok e" "sync d"
  shows "sync (snd (lock_egress e ts pick st d))"
proof -
  obtain b d1 where k: "killswitch_on e ts (setApplied e SetKill d) = (b, d1)" by fastforce
  have "sync d1" using sync_on_kill [OF sync_set [OF assms, of SetKill], of e ts] k by simp
  then show ?thesis using assms(2) by (simp add: lock_egress_def k synced split: bool.splits)
qed

lemma sync_verify [synced]: "writes_ok e \<Longrightarrow> sync d \<Longrightarrow> sync (snd (verify_session e ts pick st d))"
  by (simp add: verify_session_def Let_def synced)

lemma sync_bringUp [synced]:
  assumes "writes_ok e" "sync d"
  shows "sync (snd (bringUp e ts pick st d))"
proof -
  obtain r d1 where s: "startCore e (trans e StStartingCore (DisplayName pick) d) = (r, d1)" by fastforce
  have d1: "sync d1" using sync_start [of "trans e StStartingCore (DisplayName pick) d" e] assms(2) s by simp
  let ?d2 = "d1\<lparr>d_core := True, d_clash := Some (ClashAPIPort (d_settings d1), e_secret e), d_targets := ts\<rparr>"
  have "sync (if TunEnabled st then setApplied e SetTun ?d2 else ?d2)" using d1 assms(1) by (simp add: synced)
  then show ?thesis
    using d1 assms(1) unfolding bringUp_def s by (simp add: Let_def synced split: option.splits)
qed

lemma sync_online [synced]:
  assumes "writes_ok e" "sync d"
  shows "sync (snd (go_online e ts pick st b d))"
proof -
  let ?d1 = "set_server (srv_id pick) (trans e StConnecting (DisplayName pick) d)"
  let ?d2 = "if b then (case e_resolver e of Some h \<Rightarrow> ?d1\<lparr>d_resolv := h\<rparr> | None \<Rightarrow> ?d1) else ?d1"
  have d2: "sync ?d2" using assms(2) by (simp split: option.splits)
  obtain r d3 where bu: "bringUp e ts pick st ?d2 = (r, d3)" by fastforce
  have "sync d3" using sync_bringUp [OF assms(1) d2, of ts pick st] unfolding bu by simp
  then show ?thesis
    using assms(2) unfolding go_online_def Let_def bu by (simp add: synced split: option.split sum.split)
qed

lemma sync_connectLocked [synced]: "writes_ok e \<Longrightarrow> sync d \<Longrightarrow> sync (snd (connectLocked e i why d))"
  unfolding connectLocked_def Let_def by (simp add: synced split: option.split)

lemma sync_Connect [synced]: "writes_ok e \<Longrightarrow> sync d \<Longrightarrow> sync (snd (Connect e i d))"
  unfolding Connect_def by (simp add: synced)

lemma sync_disconnect [synced]: "writes_ok e \<Longrightarrow> sync d \<Longrightarrow> sync (snd (disconnect e why d))"
  unfolding disconnect_def Let_def teardown_def by (simp add: synced)

lemma sync_reconnectWith [synced]: "writes_ok e \<Longrightarrow> sync d \<Longrightarrow> sync (snd (reconnectWith e i d))"
  unfolding reconnectWith_def Let_def by (simp add: synced split: option.split)

lemma sync_reconnectLocked [synced]: "writes_ok e \<Longrightarrow> sync d \<Longrightarrow> sync (reconnectLocked e d)"
  unfolding reconnectLocked_def by (simp add: synced)

lemma sync_verdict [synced]: "sync d \<Longrightarrow> sync (verdict e h d)"
  unfolding verdict_def Let_def by simp

lemma sync_retry [synced]: "writes_ok e \<Longrightarrow> sync d \<Longrightarrow> sync (retry_current e d)"
  unfolding retry_current_def by (simp add: synced)

lemma sync_switch [synced]: "writes_ok e \<Longrightarrow> sync d \<Longrightarrow> sync (switch_to_best e best d)"
  unfolding switch_to_best_def Let_def by (simp add: synced)

lemma sync_failover [synced]:
  assumes "writes_ok e" "sync d"
  shows "sync (failover e d)"
proof -
  let ?d1 = "noteRecovery e (d\<lparr>d_failovers := d_failovers d - 1\<rparr>)"
  obtain b d2 where r: "reviveCheck e ?d1 = (b, d2)" by fastforce
  have "sync d2" using revive_sel [of e ?d1] assms(2) unfolding r by simp
  with assms show ?thesis
    unfolding failover_def Let_def r by (simp add: synced split: option.split bool.split)
qed

lemma dstep_sync: "dstep e d d' \<Longrightarrow> writes_ok e \<Longrightarrow> sync d \<Longrightarrow> sync d'"
proof (induction rule: dstep.induct)
  case (core_ends d)
  then show ?case by (intro sync_world) simp_all
qed (simp_all add: Disconnect_def check_begin_def check_end_def net_begin_def net_probed_def net_recover_def Let_def
       shutdown_def synced split: list.split)

lemma sync_boot:
  assumes we: "writes_ok e" and "recorded w"
  shows "sync (boot e st ss w)"
proof -
  let ?d = "fresh_daemon st ss w"
  have f: "d_world ?d = w" "d_seen ?d = [w]" "\<not> d_applied_kill ?d" "\<not> d_applied_tun ?d" by (simp_all add: fresh_daemon_def)
  show ?thesis
  proof (cases "w_marker w")
    case (Marker k t)
    show ?thesis
    proof (cases "k \<or> t")
      case True
      let ?d0 = "?d\<lparr>d_applied_kill := k, d_applied_tun := t\<rparr>"
      have d0: "sync ?d0" using True assms(2) Marker by (auto simp: f sync_on_def recorded_def)
      have "sync (if k then killswitch_off e ?d0 else ?d0)"
        using sync_off [OF we d0] d0 by (cases k) simp_all
      from this sync_tun [OF we this] show ?thesis using Marker True
        by (cases k; cases t) (simp_all add: boot_def reconcileApplied_def f Let_def)
    qed (use assms Marker in \<open>auto simp: boot_def reconcileApplied_def f sync_on_def recorded_def set_world_def\<close>)
  qed (use assms in \<open>auto simp: boot_def reconcileApplied_def f sync_on_def recorded_def set_world_def\<close>)
qed

lemma recorded_left [simp]: "recorded (left_behind sv stays w) = recorded w"
  by (simp add: left_behind_def recorded_def)

lemma dreach_sync: "dreach E False d \<Longrightarrow> \<forall>e \<in> E. writes_ok e \<Longrightarrow> sync d"
proof (induction rule: dreach.induct)
  case (first e st ss)
  then show ?case by (intro sync_boot) (simp_all add: recorded_def)
next
  case (step d e d')
  then show ?case using dstep_sync [of e d d'] by blast
next
  case (reboot d e w st ss sv stays)
  then have "recorded w" by (auto simp: sync_on_def)
  with reboot show ?case by (intro sync_boot) simp_all
qed

section \<open>What a successful connect has established\<close>

lemma trans_state [simp]:
  "mstate (d_machine (trans e t why d)) = (if t \<in> set (allowed (mstate (d_machine d))) then t else mstate (d_machine d))"
  by (simp add: trans_def Transition_def)

lemma trans_server [simp]: "serverID (d_machine (trans e t why d)) = serverID (d_machine d)"
  by (simp add: trans_def Transition_def)

lemma set_server_machine [simp]:
  "mstate (d_machine (set_server i d)) = mstate (d_machine d)" "serverID (d_machine (set_server i d)) = i"
  by (simp_all add: set_server_def SetServer_def)

lemma stopCore_sel [simp]: "\<not> d_core (stopCore r stays d)" "d_mons (stopCore r stays d) = d_mons d"
  "d_settings (stopCore r stays d) = d_settings d" "d_servers (stopCore r stays d) = d_servers d"
  by (simp_all add: stopCore_def)

lemma save_marker_sel [simp]:
  "d_core (save_marker e k d) = d_core d" "d_mons (save_marker e k d) = d_mons d" "d_settings (save_marker e k d) = d_settings d"
  "d_applied_kill (save_marker e k d) = d_applied_kill d" "d_applied_tun (save_marker e k d) = d_applied_tun d"
  "d_targets (save_marker e k d) = d_targets d"
  "w_core (d_world (save_marker e k d)) = w_core (d_world d)" "w_tun (d_world (save_marker e k d)) = w_tun (d_world d)"
  "w_kill (d_world (save_marker e k d)) = w_kill (d_world d)" "w_orphans (d_world (save_marker e k d)) = w_orphans (d_world d)"
  by (simp_all add: save_marker_def Let_def set_world_def split: written.splits)

lemma setApplied_sel [simp]:
  "d_core (setApplied e k d) = d_core d" "d_mons (setApplied e k d) = d_mons d" "d_settings (setApplied e k d) = d_settings d"
  "d_targets (setApplied e k d) = d_targets d"
  "d_applied_tun (setApplied e SetTun d)" "d_applied_tun (setApplied e SetKill d) = d_applied_tun d"
  "d_applied_kill (setApplied e SetTun d) = d_applied_kill d"
  "w_core (d_world (setApplied e k d)) = w_core (d_world d)" "w_tun (d_world (setApplied e k d)) = w_tun (d_world d)"
  "w_kill (d_world (setApplied e k d)) = w_kill (d_world d)"
  by (simp_all add: setApplied_def)

lemma startCore_sel:
  assumes "startCore e d = (r, d')"
  shows "d_core d' = d_core d" "d_mons d' = d_mons d" "d_settings d' = d_settings d" "d_servers d' = d_servers d"
    "r = None \<Longrightarrow> w_core (d_world d')" "d_applied_kill d' = d_applied_kill d" "d_applied_tun d' = d_applied_tun d"
  using assms by (auto simp: startCore_def launch_def Let_def split: if_splits start.splits)

lemma killswitch_on_sel:
  assumes "killswitch_on e ts d = (b, d')"
  shows "d_core d' = d_core d" "d_mons d' = d_mons d" "d_applied_kill d' = d_applied_kill d" "d_applied_tun d' = d_applied_tun d"
    "d_targets d' = d_targets d" "w_core (d_world d') = w_core (d_world d)" "w_tun (d_world d') = w_tun (d_world d)"
    "b \<Longrightarrow> w_kill (d_world d') = Some (allow_keys e ts)"
  using assms by (auto simp: killswitch_on_def Let_def split: helper.splits if_splits)

text \<open>How an attempt to go online ends: all of it done and checked, or the core stopped again and an error.\<close>

definition online :: "env \<Rightarrow> server list \<Rightarrow> server \<Rightarrow> settings \<Rightarrow> daemon \<Rightarrow> bool" where
  "online e ts pick st d \<longleftrightarrow>
     state_of d = StConnected \<and> running d \<and> e_routes e \<and> serverID (d_machine d) = srv_id pick \<and> d_targets d = ts \<and>
     (TunEnabled st \<longrightarrow> w_tun (d_world d) \<and> d_applied_tun d) \<and>
     (KillSwitch st \<longrightarrow> w_kill (d_world d) = Some (allow_keys e ts) \<and> d_applied_kill d)"

definition offline :: "daemon \<Rightarrow> bool" where
  "offline d \<longleftrightarrow> state_of d = StError \<and> \<not> d_core d"

lemma give_up_result:
  "give_up e err d = (r, d') \<Longrightarrow> StError \<in> set (allowed (state_of d)) \<Longrightarrow> r \<noteq> None \<and> offline d' \<and> d_mons d' = d_mons d"
  by (auto simp: give_up_def offline_def state_of_def)

lemma declare_result:
  "declare_connected e pick d = (r, d') \<Longrightarrow> StConnected \<in> set (allowed (state_of d)) \<Longrightarrow>
   r = None \<and> state_of d' = StConnected \<and> d_core d' = d_core d \<and> d_world d' = d_world d \<and> d_targets d' = d_targets d \<and>
   serverID (d_machine d') = serverID (d_machine d) \<and> d_applied_kill d' = d_applied_kill d \<and> d_applied_tun d' = d_applied_tun d"
  by (auto simp: declare_connected_def Let_def state_of_def)

lemma lock_result:
  assumes "lock_egress e ts pick st d = (r, d')" and "state_of d = StApplyingRouting" and "running d" and "e_routes e"
    and "serverID (d_machine d) = srv_id pick" and "d_targets d = ts" and "TunEnabled st \<longrightarrow> w_tun (d_world d) \<and> d_applied_tun d"
  shows "if r = None then online e ts pick st d' else offline d' \<and> d_mons d' = d_mons d"
proof (cases "KillSwitch st")
  case False
  with assms(1) have "declare_connected e pick d = (r, d')" by (simp add: lock_egress_def)
  from declare_result [OF this] assms False show ?thesis by (simp add: online_def running_def)
next
  case True
  obtain b d1 where k: "killswitch_on e ts (setApplied e SetKill d) = (b, d1)" by fastforce
  note sel = killswitch_on_sel [OF k] quiet_pairs(2) [OF k]
  show ?thesis
  proof (cases b)
    case False
    with assms(1) True k have "give_up e KillSwitchRefused d1 = (r, d')" by (simp add: lock_egress_def)
    from give_up_result [OF this] assms(2) sel show ?thesis by (auto simp: state_of_def)
  next
    case b: True
    with assms(1) True k have "declare_connected e pick d1 = (r, d')" by (simp add: lock_egress_def)
    from declare_result [OF this] assms sel b show ?thesis by (simp add: online_def running_def state_of_def)
  qed
qed

lemma verify_result:
  assumes "verify_session e ts pick st d = (r, d')" and "state_of d = StStartingCore" and "running d"
    and "serverID (d_machine d) = srv_id pick" and "d_targets d = ts" and "TunEnabled st \<longrightarrow> d_applied_tun d"
  shows "if r = None then online e ts pick st d' else offline d' \<and> d_mons d' = d_mons d"
proof -
  let ?d1 = "trans e StInitializingTUN [] d"
  let ?d2 = "trans e StApplyingRouting [] ?d1"
  show ?thesis
  proof (cases "(TunEnabled st \<longrightarrow> w_tun (d_world ?d1)) \<and> e_routes e")
    case True
    with assms(1) have l: "lock_egress e ts pick st ?d2 = (r, d')" by (auto simp: verify_session_def Let_def)
    have "if r = None then online e ts pick st d' else offline d' \<and> d_mons d' = d_mons ?d2"
      by (rule lock_result [OF l]) (use assms True in \<open>auto simp: state_of_def running_def\<close>)
    then show ?thesis by simp
  next
    case False
    with assms(1) have "give_up e TunMissing ?d1 = (r, d') \<or> give_up e NoDefaultRoute ?d2 = (r, d')"
      by (auto simp: verify_session_def Let_def split: if_splits)
    then show ?thesis using give_up_result [of e _ ?d1 r d'] give_up_result [of e _ ?d2 r d'] assms(2)
      by (auto simp: state_of_def)
  qed
qed

lemma bringUp_result:
  assumes "bringUp e ts pick st d = (r, d')" and "state_of d = StConnecting" and "\<not> d_core d"
    and "serverID (d_machine d) = srv_id pick"
  shows "if r = None then online e ts pick st d' else offline d' \<and> d_mons d' = d_mons d"
proof -
  obtain r1 d1 where s: "startCore e (trans e StStartingCore (DisplayName pick) d) = (r1, d1)" by fastforce
  note sel = startCore_sel [OF s] quiet_pairs(1) [OF s]
  show ?thesis
  proof (cases r1)
    case (Some err)
    with assms(1) s have "r = Some err" "d' = trans e StError (e_text e err) d1" by (auto simp: bringUp_def)
    then show ?thesis using sel assms(2,3) by (simp add: offline_def state_of_def)
  next
    case None
    let ?d2 = "d1\<lparr>d_core := True, d_clash := Some (ClashAPIPort (d_settings d1), e_secret e), d_targets := ts\<rparr>"
    let ?d3 = "if TunEnabled st then setApplied e SetTun ?d2 else ?d2"
    from assms(1) s None have v: "verify_session e ts pick st ?d3 = (r, d')" by (simp add: bringUp_def Let_def)
    have "if r = None then online e ts pick st d' else offline d' \<and> d_mons d' = d_mons ?d3"
      by (rule verify_result [OF v]) (use sel assms None in \<open>auto simp: state_of_def running_def\<close>)
    then show ?thesis using sel by simp
  qed
qed

lemma go_online_result:
  assumes "go_online e ts pick st b d = (r, d')" and "StConnecting \<in> set (allowed (state_of d))" and "\<not> d_core d"
  shows "if r = None then online e ts pick st d' \<and> d_mons d' \<noteq> None \<and> is_ok (renderConfig e ts (srv_id pick) d)
         else offline d' \<and> d_mons d' = d_mons d"
proof -
  let ?d1 = "set_server (srv_id pick) (trans e StConnecting (DisplayName pick) d)"
  let ?d2 = "if b then (case e_resolver e of Some h \<Rightarrow> ?d1\<lparr>d_resolv := h\<rparr> | None \<Rightarrow> ?d1) else ?d1"
  have st1: "mstate (d_machine ?d1) = StConnecting" using assms(2) by (simp add: state_of_def)
  have cfg: "renderConfig e ts i ?d1 = renderConfig e ts i d" for i by (simp add: renderConfig_def)
  show ?thesis
  proof (cases "\<exists>err. go_online e ts pick st b d = fail_with e err ?d1")
    case True
    then show ?thesis using assms st1 by (auto simp: fail_with_def offline_def state_of_def)
  next
    case False
    then obtain c where c: "renderConfig e ts (srv_id pick) d = Inr c" and w: "e_config_written e"
      unfolding go_online_def Let_def cfg by (cases "renderConfig e ts (srv_id pick) d") (auto split: if_splits)
    obtain r3 d3 where bu: "bringUp e ts pick st ?d2 = (r3, d3)" by fastforce
    have "if r3 = None then online e ts pick st d3 else offline d3 \<and> d_mons d3 = d_mons ?d2"
      by (rule bringUp_result [OF bu]) (use st1 assms(3) in \<open>auto simp: state_of_def split: option.splits\<close>)
    moreover have "r = r3 \<and> d' = (if r3 = None then startMonitors d3 else d3)"
      using assms(1) c w unfolding go_online_def Let_def cfg bu by (auto split: option.splits)
    moreover have "d_mons ?d2 = d_mons d" by (simp split: option.split)
    moreover have "online e ts pick st d3 \<Longrightarrow> online e ts pick st (startMonitors d3)"
      by (simp add: online_def state_of_def running_def) (simp add: startMonitors_def)
    ultimately show ?thesis using c by (simp split: if_splits)
  qed
qed

definition chosen_for :: "string \<Rightarrow> server list \<Rightarrow> server \<Rightarrow> bool" where
  "chosen_for i ts pick \<longleftrightarrow> pick \<in> set ts \<and>
     (if i \<noteq> [] \<and> i \<noteq> ''auto'' then ts = [pick] \<and> srv_id pick = i else ts = usableServers ts)"

lemma connectLocked_result:
  assumes "connectLocked e i why d = (r, d')" and "state_of d = StDisconnected \<or> state_of d = StError" and "\<not> d_core d"
  shows "if r = None
         then d_mons d' \<noteq> None \<and> (\<exists>ts pick. online e ts pick (d_settings d) d' \<and> chosen_for i ts pick)
         else (state_of d' = StDisconnected \<or> state_of d' = StError) \<and> \<not> d_core d' \<and> d_mons d' = d_mons d"
proof -
  let ?before = "usableServers (d_servers d)"
  let ?d1 = "edited e (quickTest e (e_ping e) ?before (trans e StSelecting why d))"
  let ?all = "usableServers (d_servers ?d1)"
  have st1: "state_of ?d1 = StSelecting" using assms(2) by (auto simp: state_of_def)
  consider (early) err why' where "r = Some err" "d' = trans e StError why' d"
    | (chosen) err why' where "r = Some err" "d' = trans e StError why' ?d1"
    | (go) ts pick where "manual_targets i (d_servers ?d1) ?all = Some ts"
        "Select ts (historiesOf ?all) (serverID (d_machine ?d1)) select_defaults = Some pick"
        "go_online e ts pick (d_settings d) True ?d1 = (r, d')"
    using assms(1) unfolding connectLocked_def Let_def
    by (auto simp: fail_with_def split: if_splits option.splits)
  then show ?thesis
  proof cases
    case early
    then show ?thesis using assms(2,3) by (auto simp: state_of_def)
  next
    case chosen
    then show ?thesis using st1 assms(3) by (auto simp: state_of_def)
  next
    case go
    have o: "if r = None then online e ts pick (d_settings d) d' \<and> d_mons d' \<noteq> None \<and> is_ok (renderConfig e ts (srv_id pick) ?d1)
          else offline d' \<and> d_mons d' = d_mons ?d1"
      by (rule go_online_result [OF go(3)]) (use st1 assms(3) in \<open>auto\<close>)
    moreover have "pick \<in> set ts" by (rule Select_best(1) [OF go(2)])
    moreover have "if i \<noteq> [] \<and> i \<noteq> ''auto'' then ts = [pick] \<and> srv_id pick = i else ts = usableServers ts"
    proof (cases "i \<noteq> [] \<and> i \<noteq> ''auto''")
      case True
      with go(1) obtain s where "find (\<lambda>s. srv_id s = i) (d_servers ?d1) = Some s" "ts = [s]"
        by (auto simp: manual_targets_def)
      with \<open>pick \<in> set ts\<close> True show ?thesis by (auto simp: find_Some_iff)
    next
      case False
      with go(1) have "ts = ?all" by (auto simp: manual_targets_def)
      then show ?thesis using False by (auto simp: usableServers_def Let_def)
    qed
    ultimately have "chosen_for i ts pick" by (simp add: chosen_for_def)
    with o show ?thesis using assms(3) by (cases r) (auto simp: offline_def)
  qed
qed

lemma reconnectWith_result:
  assumes "reconnectWith e i d = (r, d')" and "StConnecting \<in> set (allowed (state_of d))" and "\<not> d_core d"
    and "state_of d = StDisconnected \<or> StError \<in> set (allowed (state_of d))"
  shows "if r = None then d_mons d' \<noteq> None \<and> (\<exists>ts pick. online e ts pick (d_settings d) d')
         else (state_of d' = StDisconnected \<or> state_of d' = StError) \<and> \<not> d_core d' \<and> d_mons d' = d_mons d"
proof -
  let ?ps = "usable_positions (d_servers d)"
  let ?d1 = "quickTest e (e_ping e) (map ((!) (d_servers d)) ?ps) d"
  let ?ts = "map ((!) (d_servers ?d1)) ?ps"
  consider (none) why' where "r = Some NoUsableServer" "d' = trans e StError why' ?d1"
    | (go) pick where "go_online e ?ts pick (d_settings d) False ?d1 = (r, d')"
    using assms(1) unfolding reconnectWith_def Let_def by (auto split: option.splits)
  then show ?thesis
  proof cases
    case none
    then show ?thesis using assms(3,4) by (auto simp: state_of_def)
  next
    case go
    have "if r = None then online e ?ts pick (d_settings d) d' \<and> d_mons d' \<noteq> None \<and> is_ok (renderConfig e ?ts (srv_id pick) ?d1)
          else offline d' \<and> d_mons d' = d_mons ?d1"
      by (rule go_online_result [OF go]) (use assms(2,3) in \<open>auto simp: state_of_def\<close>)
    then show ?thesis unfolding offline_def by (cases r) (simp_all, blast)
  qed
qed

section \<open>Where the daemon rests\<close>

definition rest :: "daemon \<Rightarrow> bool" where
  "rest d \<longleftrightarrow> state_of d \<in> {StDisconnected, StConnected, StDegraded, StError} \<and>
     d_core d = (state_of d = StConnected \<or> state_of d = StDegraded) \<and> (d_mons d \<noteq> None) = d_core d"

lemma connected_iff: "connected d \<longleftrightarrow> state_of d = StConnected \<or> state_of d = StDegraded"
  by (simp add: connected_def Connected_def state_of_def)

lemma online_rest: "online e ts pick st d \<Longrightarrow> d_mons d \<noteq> None \<Longrightarrow> rest d"
  by (simp add: online_def rest_def running_def)

lemma rest_Connect: "rest d \<Longrightarrow> rest (snd (Connect e i d))"
proof -
  assume r: "rest d"
  show ?thesis
  proof (cases "\<not> connected d \<and> (state_of d = StDisconnected \<or> state_of d = StError)")
    case True
    obtain err d' where c: "connectLocked e i ''user'' (noteRecovery e d) = (err, d')" by fastforce
    from True r have "\<not> d_core d" "d_mons d = None" by (auto simp: rest_def)
    with True connectLocked_result [OF c] have "rest d'"
      by (auto simp: state_of_def rest_def online_def running_def split: if_splits)
    with True c show ?thesis by (auto simp: Connect_def)
  qed (use r in \<open>auto simp: Connect_def\<close>)
qed

lemma cleanup_sel [simp]:
  "d_core (cleanupApplied e d) = d_core d" "d_mons (cleanupApplied e d) = d_mons d"
  by (simp_all add: cleanupApplied_def killswitch_off_def tun_cleanup_def clearApplied_def Let_def split: helper.split)

lemma teardown_sel [simp]: "\<not> d_core (teardown e d)" "d_mons (teardown e d) = None"
  by (simp_all add: teardown_def)

lemma rest_disconnect: "rest d \<Longrightarrow> rest (snd (disconnect e why d))"
proof -
  assume r: "rest d"
  have u: "\<not> recoveryUnderway d" using r by (auto simp: rest_def recoveryUnderway_def split: if_splits)
  consider "state_of d = StDisconnected" | "state_of d = StError" | "state_of d = StConnected \<or> state_of d = StDegraded"
    using r by (cases "state_of d") (auto simp: rest_def)
  then show ?thesis
  proof cases
    case 3
    then show ?thesis using u by (auto simp: disconnect_def rest_def state_of_def)
  qed (use r in \<open>auto simp: disconnect_def rest_def state_of_def Reset_def Let_def\<close>)
qed

lemma rest_reconnectWith:
  assumes "state_of d \<in> {StReconnecting, StSwitchingServer, StDisconnected}" and "\<not> d_core d" and "d_mons d = None"
  shows "rest (snd (reconnectWith e i d))"
proof -
  obtain r d' where w: "reconnectWith e i d = (r, d')" by fastforce
  from reconnectWith_result [OF w] assms have
    "if r = None then d_mons d' \<noteq> None \<and> (\<exists>ts pick. online e ts pick (d_settings d) d')
     else (state_of d' = StDisconnected \<or> state_of d' = StError) \<and> \<not> d_core d' \<and> d_mons d' = None" by auto
  then show ?thesis by (auto simp: w rest_def online_def running_def split: if_splits)
qed

lemma rest_reconnectLocked: "state_of d \<in> {StReconnecting, StSwitchingServer, StDisconnected} \<Longrightarrow> rest (reconnectLocked e d)"
  unfolding reconnectLocked_def by (rule rest_reconnectWith) (auto simp: state_of_def)

lemma rest_verdict: "rest d \<Longrightarrow> rest (verdict e h d)"
  by (auto simp: verdict_def rest_def state_of_def Let_def)

lemma rest_retry:
  assumes "rest d" "connected d"
  shows "rest (retry_current e d)"
proof -
  let ?d1 = "trans e StReconnecting ''retry current'' (d\<lparr>d_flap := Suc (d_flap d), d_fail := 0\<rparr>)"
  have "state_of ?d1 \<in> {StReconnecting, StSwitchingServer, StDisconnected}"
    using assms(2) by (auto simp: connected_iff state_of_def)
  from rest_reconnectLocked [OF this] have "rest (reconnectLocked e ?d1)" .
  moreover have "rest (d\<lparr>d_fail := 0\<rparr>)" using assms(1) by (simp add: rest_def state_of_def)
  ultimately show ?thesis unfolding retry_current_def by simp
qed

lemma rest_switch:
  assumes "rest d" "connected d"
  shows "rest (switch_to_best e best d)"
proof -
  let ?d1 = "trans e StSwitchingServer (DisplayName best) (d\<lparr>d_flap := Suc (d_flap d)\<rparr>)"
  have s: "mstate (d_machine ?d1) = StSwitchingServer" "d_core ?d1" "d_mons ?d1 \<noteq> None"
    using assms by (auto simp: connected_iff rest_def state_of_def)
  let ?d2 = "set_server (srv_id best) (stopCore (e_stop e) (e_tun_stays e) (stopMonitors ?d1))"
  have "rest (snd (reconnectWith e (srv_id best) (trans e StReconnecting (DisplayName best) ?d2)))"
    by (rule rest_reconnectWith) (use s in \<open>auto simp: state_of_def\<close>)
  then show ?thesis
    using s unfolding switch_to_best_def Let_def by (auto simp: rest_def state_of_def)
qed

lemma rest_failover: "rest d \<Longrightarrow> rest (failover e d)"
proof -
  assume r: "rest d"
  let ?d = "d\<lparr>d_failovers := d_failovers d - 1\<rparr>"
  let ?d1 = "noteRecovery e ?d"
  have r1: "rest ?d1" using r by (simp add: rest_def state_of_def)
  have c1: "connected ?d1 = connected d" by (simp add: connected_def)
  obtain b d2 where rev: "reviveCheck e ?d1 = (b, d2)" by fastforce
  have r2: "rest d2" and c2: "connected d2 = connected d"
    using r1 c1 quiet_pairs(3) [OF rev] revive_sel(3,6) [of e ?d1] unfolding rev
    by (simp_all add: rest_def state_of_def connected_def)
  have z: "rest (x\<lparr>d_fail := 0\<rparr>) = rest x" "rest (x\<lparr>d_flap := 0\<rparr>) = rest x" "connected (x\<lparr>d_flap := 0\<rparr>) = connected x" for x
    by (simp_all add: rest_def state_of_def connected_def)
  have cd: "connected ?d = connected d" and rd: "rest ?d" using r by (simp_all add: connected_def rest_def state_of_def)
  show ?thesis
    unfolding failover_def Let_def rev cd
    using r rd r1 r2 c1 c2 by (auto simp: z intro!: rest_switch rest_retry split: option.split bool.split)
qed

lemma rest_recover:
  assumes "rest d"
  shows "rest (net_recover e d)"
proof -
  let ?d1 = "trans e StReconnecting ''network change'' (d\<lparr>d_net_wait := d_net_wait d - 1\<rparr>)"
  have "state_of ?d1 \<in> {StReconnecting, StSwitchingServer, StDisconnected}"
    using assms by (auto simp: rest_def state_of_def split: if_splits)
  from rest_reconnectLocked [OF this] assms show ?thesis by (simp add: net_recover_def)
qed

lemma dstep_rest: "dstep e d d' \<Longrightarrow> rest d \<Longrightarrow> rest d'"
proof (induction rule: dstep.induct)
  case (check d) then show ?case using rest_verdict [of d e False] by (auto simp: check_begin_def rest_def state_of_def)
next
  case (checked d)
  then have "rest (d\<lparr>d_checks := d_checks d - 1\<rparr>)" by (simp add: rest_def state_of_def)
  from rest_verdict [OF this] checked show ?case by (simp add: check_end_def)
next
  case (net_change d) then show ?case by (simp add: net_begin_def rest_def state_of_def)
next
  case (net_probes d ok1 ok2) then show ?case by (simp add: net_probed_def Let_def rest_def state_of_def split: list.split)
next
  case (subscriber d) then show ?case by (simp add: rest_def state_of_def Subscribe_def)
next
  case (edit d) then show ?case by (simp add: rest_def state_of_def)
next
  case (core_ends d) then show ?case by (simp add: rest_def state_of_def)
qed (simp_all add: Disconnect_def shutdown_def rest_Connect rest_disconnect rest_failover rest_recover)

end
