(* ===== verification/Daemon_Props.thy ===== *)
theory Daemon_Props
  imports Daemon_Safety
begin

text \<open>
  The properties of the daemon's connection core: when connecting succeeds and what it then guarantees, what
  disconnecting restores, what survives a crash, and the runs that go wrong.
\<close>

section \<open>Boot and rest\<close>

lemma reconcile_sel [simp]:
  "d_core (reconcileApplied e d) = d_core d" "d_mons (reconcileApplied e d) = d_mons d"
  by (simp_all add: reconcileApplied_def killswitch_off_def tun_cleanup_def clearApplied_def Let_def split: marker.split helper.split)

lemma rest_boot: "rest (boot e st ss w)"
proof -
  have "state_of (boot e st ss w) = StDisconnected" by (simp add: state_of_def NewMachine_def)
  then show ?thesis by (simp add: rest_def boot_def) (simp add: fresh_daemon_def)
qed

lemma dreach_rest: "dreach E torn d \<Longrightarrow> rest d"
proof (induction rule: dreach.induct)
  case (step d e d')
  then show ?case using dstep_rest by blast
qed (rule rest_boot)+

section \<open>A benign environment\<close>

definition benign :: "env \<Rightarrow> bool" where
  "benign e \<longleftrightarrow> \<not> e_foreign e \<and> e_edit e = None \<and> e_config_written e \<and> e_sing_box e \<and> e_helper e \<and> e_wintun e \<and>
     e_trusted e \<and> e_start e = Started True \<and> e_routes e \<and> e_kill_on e = HelperOk"

lemma bringUp_benign:
  assumes b: "benign e" and st: "d_settings d = st"
  shows "fst (bringUp e ts pick st d) = None"
proof -
  let ?d0 = "trans e StStartingCore (DisplayName pick) d"
  let ?d1 = "set_world ((d_world ?d0)\<lparr>w_core := True, w_tun := w_tun (d_world ?d0) \<or> TunEnabled st\<rparr>) ?d0"
  have s: "startCore e ?d0 = (None, ?d1)"
    using b st by (cases "TunEnabled st"; cases "KillSwitch st") (simp_all add: benign_def startCore_def launch_def Let_def)
  have l: "fst (lock_egress e ts pick st d') = None" for d'
    using b by (simp add: lock_egress_def killswitch_on_def declare_connected_def benign_def Let_def)
  have v: "fst (verify_session e ts pick st d') = None" if "TunEnabled st \<Longrightarrow> w_tun (d_world d')" for d'
    using b that by (auto simp: verify_session_def benign_def Let_def l)
  show ?thesis unfolding bringUp_def s by (simp add: Let_def v)
qed

lemma online_benign:
  assumes b: "benign e" and "d_settings d = st" and "is_ok (renderConfig e ts (srv_id pick) d)"
  shows "fst (go_online e ts pick st snap d) = None"
proof -
  let ?d1 = "set_server (srv_id pick) (trans e StConnecting (DisplayName pick) d)"
  let ?d2 = "if snap then (case e_resolver e of Some h \<Rightarrow> ?d1\<lparr>d_resolv := h\<rparr> | None \<Rightarrow> ?d1) else ?d1"
  obtain cfg where cfg: "renderConfig e ts (srv_id pick) ?d1 = Inr cfg"
    using assms(3) by (auto simp: renderConfig_def is_ok_iff)
  have "d_settings ?d2 = st" using assms(2) by (simp split: option.split)
  from bringUp_benign [OF b this, of ts pick] obtain d3 where bu: "bringUp e ts pick st ?d2 = (None, d3)"
    by (metis prod.collapse)
  show ?thesis using b cfg unfolding go_online_def Let_def bu by (simp add: benign_def)
qed

section \<open>Which servers can be used\<close>

lemma generatable_Outcome [simp]: "generatable (Outcome r s) = generatable s"
  by (simp add: generatable_def Outcome_def server_validate_def)

lemma record_results_all:
  assumes "list_all P ss" and "\<And>r s. P s \<Longrightarrow> P (Outcome r s)"
  shows "list_all P (record_results rs ss)"
proof -
  have "list_all P ss \<Longrightarrow> list_all P (record_result r ss)" for r ss
    by (induction ss) (auto simp: assms(2))
  with assms(1) show ?thesis unfolding record_results_def by (induction rs arbitrary: ss) auto
qed

lemma render_ok:
  assumes "ts \<noteq> []" and "list_all generatable ts"
  shows "is_ok (renderConfig e ts active d)"
proof (cases "\<exists>s. ts = [s]")
  case True
  then obtain s where s: "ts = [s]" ..
  with assms(2) have "is_ok (outboundFor s ''proxy'')" by (simp add: outboundFor_ok)
  then show ?thesis by (auto simp: s renderConfig_def Generate_def is_ok_iff Let_def)
next
  case False
  then have "renderConfig e ts active d = GenerateGroup ts active (config_options e ts (d_settings d))"
    by (auto simp: renderConfig_def Let_def split: list.splits)
  with assms show ?thesis by (simp add: group_needs_all_servers)
qed

text \<open>With servers that can all be used, \<open>connectLocked\<close> finds its targets and gets as far as going online.\<close>

lemma connect_targets:
  assumes "\<not> e_foreign e" and "e_edit e = None" and "d_servers d \<noteq> []" and "list_all generatable (d_servers d)"
    and i: "i = [] \<or> i = ''auto'' \<or> i \<in> srv_id ` set (d_servers d)"
  obtains ts pick where "is_ok (renderConfig e ts (srv_id pick) (quickTest e (e_ping e) (usableServers (d_servers d)) (trans e StSelecting why d)))"
    "connectLocked e i why d =
       go_online e ts pick (d_settings d) True (quickTest e (e_ping e) (usableServers (d_servers d)) (trans e StSelecting why d))"
proof -
  let ?before = "usableServers (d_servers d)"
  let ?d1 = "quickTest e (e_ping e) ?before (trans e StSelecting why d)"
  let ?all = "usableServers (d_servers ?d1)"
  have srv: "d_servers ?d1 = record_results (ping_results e (e_ping e) ?before) (d_servers d)" by (simp add: quickTest_def)
  have ids: "map srv_id (d_servers ?d1) = map srv_id (d_servers d)" unfolding srv by simp
  have ne: "d_servers ?d1 \<noteq> []" using assms(3) unfolding srv by simp
  have gen: "list_all generatable (d_servers ?d1)" unfolding srv by (rule record_results_all) (simp_all add: assms(4))
  have id1: "edited e ?d1 = ?d1" using assms(2) by (simp add: edited_def)
  obtain ts where ts: "manual_targets i (d_servers ?d1) ?all = Some ts" and sub: "set ts \<subseteq> set (d_servers ?d1)" and tne: "ts \<noteq> []"
  proof (cases "i \<noteq> [] \<and> i \<noteq> ''auto''")
    case True
    with i have "i \<in> srv_id ` set (d_servers d)" by auto
    then have "i \<in> srv_id ` set (d_servers ?d1)" using arg_cong [OF ids, of set] by simp
    then obtain s where "find (\<lambda>s. srv_id s = i) (d_servers ?d1) = Some s"
      by (metis (mono_tags, lifting) find_None_iff imageE not_None_eq)
    moreover from this have "s \<in> set (d_servers ?d1)" by (auto simp: find_Some_iff)
    ultimately show ?thesis using True that [of "[s]"] by (simp add: manual_targets_def)
  next
    case False
    then show ?thesis using that [of ?all] ne usable_subset [of "d_servers ?d1"] by (auto simp: manual_targets_def)
  qed
  obtain pick where pick: "Select ts (historiesOf ?all) (serverID (d_machine ?d1)) select_defaults = Some pick"
    using tne by (meson Select_None not_None_eq)
  have "list_all generatable ts" using gen sub by (auto simp: list_all_iff)
  then have "is_ok (renderConfig e ts (srv_id pick) ?d1)" by (rule render_ok [OF tne])
  moreover have "connectLocked e i why d = go_online e ts pick (d_settings d) True ?d1"
    using assms(1,3) ts pick unfolding connectLocked_def Let_def id1 by simp
  ultimately show ?thesis by (rule that)
qed

lemma connect_benign:
  assumes b: "benign e" and "d_servers d \<noteq> []" and "list_all generatable (d_servers d)"
    and i: "i = [] \<or> i = ''auto'' \<or> i \<in> srv_id ` set (d_servers d)"
  shows "fst (connectLocked e i why d) = None"
proof -
  have f: "\<not> e_foreign e" "e_edit e = None" using b by (simp_all add: benign_def)
  obtain ts pick where
    r: "is_ok (renderConfig e ts (srv_id pick) (quickTest e (e_ping e) (usableServers (d_servers d)) (trans e StSelecting why d)))"
    and c: "connectLocked e i why d =
       go_online e ts pick (d_settings d) True (quickTest e (e_ping e) (usableServers (d_servers d)) (trans e StSelecting why d))"
    by (rule connect_targets [OF f assms(2-4)])
  show ?thesis unfolding c by (rule online_benign [OF b _ r]) simp
qed

lemma reconnect_benign:
  assumes b: "benign e" and "d_servers d \<noteq> []" and "list_all generatable (d_servers d)"
  shows "fst (reconnectWith e i d) = None"
proof -
  let ?ps = "usable_positions (d_servers d)"
  let ?d1 = "quickTest e (e_ping e) (map ((!) (d_servers d)) ?ps) d"
  let ?ts = "map ((!) (d_servers ?d1)) ?ps"
  have srv: "d_servers ?d1 = record_results (ping_results e (e_ping e) (map ((!) (d_servers d)) ?ps)) (d_servers d)"
    by (simp add: quickTest_def)
  have len: "length (d_servers ?d1) = length (d_servers d)"
    unfolding srv by (metis length_map record_results_ids)
  have ps: "?ps \<noteq> []" "\<forall>k \<in> set ?ps. k < length (d_servers ?d1)"
    using assms(2) unfolding len by (auto simp: usable_positions_def Let_def)
  have "list_all generatable (d_servers ?d1)" unfolding srv by (rule record_results_all) (simp_all add: assms(3))
  then have gen: "list_all generatable ?ts" using ps(2) by (auto simp: list_all_iff)
  have ne: "?ts \<noteq> []" using ps(1) by simp
  have main: "\<exists>pick. Select ?ts (historiesOf ?ts) inc select_defaults = Some pick \<and>
      fst (go_online e ?ts pick (d_settings d) False ?d1) = None" for inc
  proof -
    obtain pick where "Select ?ts (historiesOf ?ts) inc select_defaults = Some pick"
      using ne by (meson Select_None not_None_eq)
    moreover have "fst (go_online e ?ts pick (d_settings d) False ?d1) = None"
      by (intro online_benign b render_ok ne gen) simp
    ultimately show ?thesis by blast
  qed
  show ?thesis
    using main [of "if i \<noteq> [] \<and> i \<in> set (map srv_id ?ts) then i else []"]
    unfolding reconnectWith_def Let_def by (auto simp del: map_map set_map)
qed

section \<open>A sample installation\<close>

definition bare :: world where
  "bare = \<lparr>w_core = False, w_orphans = 0, w_tun = False, w_kill = None, w_marker = NoMarker\<rparr>"

definition calm :: env where
  "calm = \<lparr>e_now = 0, e_foreign = False, e_ping = (\<lambda>s. Some (False, 80)), e_ping_again = (\<lambda>s. Some (False, 80)),
     e_edit = None, e_secret = ''s'', e_parse_ip = (\<lambda>a. None), e_lookup = (\<lambda>a. Some [(True, ''192.0.2.1'')]),
     e_lookup_kill = (\<lambda>a. Some [(True, ''192.0.2.1'')]), e_resolver = None, e_config_written = True,
     e_sing_box = True, e_helper = True, e_wintun = True, e_trusted = True, e_start = Started True, e_routes = True,
     e_stop = Reaped, e_abort = Reaped, e_tun_stays = False, e_kill_on = HelperOk, e_kill_off = HelperOk,
     e_tun_off = HelperOk, e_totals = None, e_switch = (\<lambda>t. True), e_probe = True, e_write = (\<lambda>k. Written),
     e_text = (\<lambda>r. ''error'')\<rparr>"

definition guarded :: settings where
  "guarded = Defaults\<lparr>KillSwitch := True\<rparr>"

definition idle :: daemon where
  "idle = boot calm guarded [sample_server] bare"

lemma calm_benign: "benign calm"
  by (simp add: benign_def calm_def)

lemma calm_writes: "writes_ok calm"
  by (simp add: writes_ok_def calm_def)

lemma sample_generatable: "generatable sample_server"
  using sample_outbound [of "''x''"] by (simp add: outboundFor_ok)

lemma idle_eq: "idle = fresh_daemon guarded [sample_server] bare"
  by (simp add: idle_def boot_def reconcileApplied_def fresh_daemon_def bare_def)

lemma idle_facts [simp]:
  "d_servers idle = [sample_server]" "d_settings idle = guarded" "state_of idle = StDisconnected" "\<not> connected idle"
  "d_applied_kill idle = False" "d_applied_tun idle = False" "d_world idle = bare"
  unfolding idle_eq by (simp_all add: fresh_daemon_def state_of_def NewMachine_def connected_def Connected_def)

lemma idle_rest [simp]: "rest idle"
  unfolding idle_def by (rule rest_boot)

lemma idle_sync [simp]: "sync_on bare (d_seen idle) False False"
  by (simp add: idle_eq fresh_daemon_def sync_on_def recorded_def) (simp add: bare_def)

lemma idle_reach: "dreach {calm} torn idle"
  unfolding idle_def bare_def by (rule dreach.first) simp

section \<open>Connecting\<close>

lemma Connect_idle:
  assumes "rest d" "\<not> connected d"
  shows "Connect e i d = connectLocked e i ''user'' (noteRecovery e d)"
  using assms by (auto simp: Connect_def rest_def connected_iff)

lemma Connect_result:
  assumes "rest d" "Connect e i d = (None, d')"
  shows "d_mons d' \<noteq> None \<and> (\<exists>ts pick. online e ts pick (d_settings d) d' \<and> chosen_for i ts pick)"
proof -
  have nc: "\<not> connected d" using assms(2) by (auto simp: Connect_def)
  have s: "state_of (noteRecovery e d) = state_of d" by (simp add: state_of_def)
  have "connectLocked e i ''user'' (noteRecovery e d) = (None, d')" using Connect_idle [OF assms(1) nc] assms(2) by simp
  from connectLocked_result [OF this] assms(1) nc show ?thesis by (simp add: s rest_def connected_iff)
qed

text \<open>
  C9. When the system cooperates, connecting works: a daemon at rest that is not connected and whose servers
  are all valid and have their credentials is connected by \<open>Connect\<close>, to any server it knows or to the best
  one, whatever the tests report about the servers.
\<close>

theorem connect_succeeds:
  assumes "benign e" and "rest d" and "\<not> connected d" and "d_servers d \<noteq> []"
    and "list_all generatable (d_servers d)" and "i = [] \<or> i = ''auto'' \<or> i \<in> srv_id ` set (d_servers d)"
  shows "fst (Connect e i d) = None \<and> connected (snd (Connect e i d)) \<and> running (snd (Connect e i d))"
proof -
  have "fst (Connect e i d) = None"
    unfolding Connect_idle [OF assms(2,3)] by (rule connect_benign [OF assms(1)]) (use assms in simp_all)
  then obtain d' where c: "Connect e i d = (None, d')" by (metis prod.collapse)
  from Connect_result [OF assms(2) c] show ?thesis by (auto simp: c online_def connected_iff)
qed

theorem connect_succeeds_witness:
  "fst (Connect calm [] idle) = None \<and> connected (snd (Connect calm [] idle)) \<and> running (snd (Connect calm [] idle))"
  by (rule connect_succeeds [OF calm_benign]) (simp_all add: sample_generatable)

text \<open>
  C5. What a successful \<open>Connect\<close> means: the state is connected, the supervised core runs, routing was
  verified, the machine names the selected server, which is the requested one or one of the usable ones; with
  TUN the device exists, with the kill switch the table allows exactly the endpoints of the rendered servers;
  and both are recorded for the cleanup, in memory and in the marker file. The monitors are running.
\<close>

theorem connect_guarantees:
  assumes "rest d" and "Connect e i d = (None, d')"
  shows "d_mons d' \<noteq> None \<and> (\<exists>ts pick. online e ts pick (d_settings d) d' \<and> chosen_for i ts pick) \<and>
    (writes_ok e \<and> sync d \<longrightarrow> (d_applied_kill d' \<or> d_applied_tun d' \<longrightarrow>
      w_marker (d_world d') = Marker (d_applied_kill d') (d_applied_tun d')))"
  using Connect_result [OF assms] sync_Connect [of e d i] assms(2) by (auto simp: sync_on_def)

theorem connect_guarantees_witness:
  "\<exists>d' ts pick. Connect calm [] idle = (None, d') \<and> online calm ts pick guarded d' \<and> w_marker (d_world d') = Marker True True"
proof -
  have "fst (Connect calm [] idle) = None"
    unfolding Connect_idle [OF idle_rest idle_facts(4)]
    by (rule connect_benign [OF calm_benign]) (simp_all add: sample_generatable)
  then obtain d' where c: "Connect calm [] idle = (None, d')" by (metis prod.collapse)
  from connect_guarantees [OF idle_rest c] obtain ts pick where o: "online calm ts pick guarded d'" by auto
  then have "d_applied_kill d'" "d_applied_tun d'" by (simp_all add: online_def guarded_def Defaults_def)
  with connect_guarantees [OF idle_rest c] calm_writes have "w_marker (d_world d') = Marker True True" by simp
  with c o show ?thesis by blast
qed

section \<open>Disconnecting\<close>

lemma cleanup_flags [simp]:
  "d_applied_kill (cleanupApplied e d) = (d_applied_kill d \<and> e_kill_off e \<noteq> HelperOk)"
  "d_applied_tun (cleanupApplied e d) = (d_applied_tun d \<and> e_tun_off e \<noteq> HelperOk)"
  by (auto simp: cleanupApplied_def killswitch_off_def tun_cleanup_def clearApplied_def Let_def split: helper.splits)

lemma clear_world [simp]: "w_tun (d_world (clearApplied e k d)) = w_tun (d_world d)"
  "w_core (d_world (clearApplied e k d)) = w_core (d_world d)" "w_orphans (d_world (clearApplied e k d)) = w_orphans (d_world d)"
  by (simp_all add: clearApplied_def)

lemma cleanup_world [simp]:
  "d_applied_tun d \<Longrightarrow> e_tun_off e = HelperOk \<Longrightarrow> \<not> w_tun (d_world (cleanupApplied e d))"
  "w_core (d_world (cleanupApplied e d)) = w_core (d_world d)"
  "w_orphans (d_world (cleanupApplied e d)) = w_orphans (d_world d)"
  by (auto simp: cleanupApplied_def killswitch_off_def tun_cleanup_def Let_def split: helper.splits)

lemma stop_flags [simp]:
  "d_applied_kill (stopCore r stays d) = d_applied_kill d" "d_applied_tun (stopCore r stays d) = d_applied_tun d"
  by (simp_all add: stopCore_def)

lemma disconnect_resting:
  assumes "rest d" "state_of d \<noteq> StDisconnected"
  shows "fst (disconnect e why d) = None \<and> state_of (snd (disconnect e why d)) = StDisconnected \<and>
    (\<exists>m. snd (disconnect e why d) = (teardown e d)\<lparr>d_machine := m\<rparr>)"
proof -
  have u: "\<not> recoveryUnderway d" using assms(1) by (auto simp: rest_def recoveryUnderway_def)
  have stop: "stopCore r stays (stopMonitors (trans e t why d)) = (stopCore r stays (stopMonitors d))\<lparr>d_machine := d_machine (trans e t why d)\<rparr>"
    for r stays t by (simp add: stopCore_def stopMonitors_def set_world_def trans_def)
  have save: "save_marker e k (d'\<lparr>d_machine := m\<rparr>) = (save_marker e k d')\<lparr>d_machine := m\<rparr>" for k d' m
    by (simp add: save_marker_def set_world_def Let_def split: written.split)
  have clear: "clearApplied e k (d'\<lparr>d_machine := m\<rparr>) = (clearApplied e k d')\<lparr>d_machine := m\<rparr>" for k d' m
    by (simp add: clearApplied_def save_marker_def set_world_def Let_def split: written.split)
  have setw: "set_world w (d'\<lparr>d_machine := m\<rparr>) = (set_world w d')\<lparr>d_machine := m\<rparr>" for w d' m
    by (simp add: set_world_def)
  have off: "killswitch_off e (d'\<lparr>d_machine := m\<rparr>) = (killswitch_off e d')\<lparr>d_machine := m\<rparr>"
    "tun_cleanup e (d'\<lparr>d_machine := m\<rparr>) = (tun_cleanup e d')\<lparr>d_machine := m\<rparr>" for d' m
    by (simp_all add: killswitch_off_def tun_cleanup_def setw clear split: helper.split)
  have clean: "cleanupApplied e (d'\<lparr>d_machine := m\<rparr>) = (cleanupApplied e d')\<lparr>d_machine := m\<rparr>" for d' m
    by (simp add: cleanupApplied_def off Let_def)
  have t: "\<exists>m. teardown e (trans e StDisconnecting why d) = (teardown e d)\<lparr>d_machine := m\<rparr>"
    unfolding teardown_def stop clean by blast
  show ?thesis
  proof (cases "state_of d = StError")
    case True
    then show ?thesis by (auto simp: disconnect_def Let_def state_of_def Reset_def)
  next
    case False
    with assms have c: "state_of d = StConnected \<or> state_of d = StDegraded" by (auto simp: rest_def)
    from t obtain m where m: "teardown e (trans e StDisconnecting why d) = (teardown e d)\<lparr>d_machine := m\<rparr>" ..
    have "state_of (trans e StDisconnected why (teardown e (trans e StDisconnecting why d))) = StDisconnected"
      using c by (auto simp: state_of_def)
    moreover have "trans e StDisconnected why ((teardown e d)\<lparr>d_machine := m\<rparr>) =
        (teardown e d)\<lparr>d_machine := d_machine (trans e StDisconnected why ((teardown e d)\<lparr>d_machine := m\<rparr>))\<rparr>"
      by (simp add: trans_def)
    ultimately show ?thesis using c u unfolding disconnect_def by (auto simp: m)
  qed
qed

text \<open>
  C8. \<open>Disconnect\<close> always gets a daemon that is not disconnected back to the disconnected state, without a
  supervised core and without monitors. The kill switch and the TUN device it had applied are gone when their
  cleanup succeeded, and only then forgotten: what could not be cleaned up stays recorded, in memory and in the
  marker, for the next attempt; without a kill switch recorded none is in force.
\<close>

theorem disconnect_restores:
  assumes "rest d" and "state_of d \<noteq> StDisconnected" and "sync d" and "writes_ok e"
  shows "fst (Disconnect e why d) = None \<and>
    (let d' = snd (Disconnect e why d)
     in rest d' \<and> state_of d' = StDisconnected \<and>
        d_applied_kill d' = (d_applied_kill d \<and> e_kill_off e \<noteq> HelperOk) \<and>
        d_applied_tun d' = (d_applied_tun d \<and> e_tun_off e \<noteq> HelperOk) \<and>
        w_marker (d_world d') = (if d_applied_kill d' \<or> d_applied_tun d' then Marker (d_applied_kill d') (d_applied_tun d') else NoMarker) \<and>
        (\<not> d_applied_kill d' \<longrightarrow> w_kill (d_world d') = None) \<and>
        (d_applied_tun d \<and> \<not> d_applied_tun d' \<longrightarrow> \<not> w_tun (d_world d')))"
proof -
  obtain m where d': "snd (Disconnect e why d) = (teardown e d)\<lparr>d_machine := m\<rparr>"
    using disconnect_resting [OF assms(1,2), of e why] by (auto simp: Disconnect_def)
  have "sync (snd (Disconnect e why d))" using sync_disconnect [OF assms(4,3)] by (simp add: Disconnect_def)
  then have s: "sync (teardown e d)" unfolding d' by simp
  have f: "d_applied_kill (teardown e d) = (d_applied_kill d \<and> e_kill_off e \<noteq> HelperOk)"
    "d_applied_tun (teardown e d) = (d_applied_tun d \<and> e_tun_off e \<noteq> HelperOk)"
    by (simp_all add: teardown_def)
  have tun: "d_applied_tun d \<Longrightarrow> e_tun_off e = HelperOk \<Longrightarrow> \<not> w_tun (d_world (teardown e d))"
    by (simp add: teardown_def)
  have r: "rest (snd (Disconnect e why d)) \<and> state_of (snd (Disconnect e why d)) = StDisconnected \<and> fst (Disconnect e why d) = None"
    using rest_disconnect [OF assms(1)] disconnect_resting [OF assms(1,2), of e why] by (simp add: Disconnect_def)
  show ?thesis
    using r s f tun unfolding Let_def d' by (auto simp: sync_on_def)
qed

definition locked_down :: daemon where
  "locked_down = snd (Connect calm [] idle)"

lemma locked_down_facts:
  "rest locked_down" "state_of locked_down = StConnected" "sync locked_down" "d_applied_kill locked_down" "d_applied_tun locked_down"
  "w_kill (d_world locked_down) \<noteq> None" "w_tun (d_world locked_down)" "dreach {calm} torn locked_down"
proof -
  have "fst (Connect calm [] idle) = None"
    unfolding Connect_idle [OF idle_rest idle_facts(4)]
    by (rule connect_benign [OF calm_benign]) (simp_all add: sample_generatable)
  then obtain d' where c: "Connect calm [] idle = (None, d')" by (metis prod.collapse)
  from Connect_result [OF idle_rest c] obtain ts pick where o: "online calm ts pick guarded d'" by auto
  have l: "locked_down = d'" by (simp add: locked_down_def c)
  show "state_of locked_down = StConnected" "d_applied_kill locked_down" "d_applied_tun locked_down"
    "w_kill (d_world locked_down) \<noteq> None" "w_tun (d_world locked_down)"
    using o by (simp_all add: l online_def guarded_def Defaults_def)
  show "rest locked_down" unfolding locked_down_def by (rule rest_Connect) simp
  show "sync locked_down" unfolding locked_down_def by (rule sync_Connect [OF calm_writes]) simp
  show "dreach {calm} torn locked_down" unfolding locked_down_def
    by (rule dreach.step [OF idle_reach _ dstep.connect]) simp
qed

theorem disconnect_restores_witness:
  "state_of (snd (Disconnect calm ''user'' locked_down)) = StDisconnected \<and>
   w_kill (d_world (snd (Disconnect calm ''user'' locked_down))) = None \<and>
   \<not> w_tun (d_world (snd (Disconnect calm ''user'' locked_down)))"
  using disconnect_restores [OF locked_down_facts(1) _ locked_down_facts(3) calm_writes, of "''user''"] locked_down_facts(2,5)
  by (simp add: Let_def calm_def)

section \<open>What survives\<close>

lemma boot_cleans:
  assumes "w_marker w = Marker True t" and "e_kill_off e = HelperOk"
  shows "w_kill (d_world (boot e st ss w)) = None"
proof -
  let ?d0 = "(fresh_daemon st ss w)\<lparr>d_applied_kill := True, d_applied_tun := t\<rparr>"
  have "w_kill (d_world (killswitch_off e ?d0)) = None"
    using assms(2) by (simp add: killswitch_off_def clearApplied_def)
  then have "w_kill (d_world (tun_cleanup e (killswitch_off e ?d0))) = None"
    by (auto simp: tun_cleanup_def clearApplied_def split: helper.split)
  with \<open>w_kill (d_world (killswitch_off e ?d0)) = None\<close> show ?thesis
    using assms(1) by (cases t) (simp_all add: boot_def reconcileApplied_def fresh_daemon_def Let_def)
qed





text \<open>
  C7. Between operations the daemon is never stuck half way: after any history it is disconnected, connected,
  degraded or in the error state; a core is supervised and monitors run exactly while it is connected or
  degraded. So no connect, failover or network change leaves it in a transient state.
\<close>

theorem daemon_rests:
  assumes "dreach E torn d"
  shows "state_of d \<in> {StDisconnected, StConnected, StDegraded, StError} \<and> \<not> recoveryUnderway d \<and>
    d_core d = connected d \<and> (d_mons d \<noteq> None) = connected d"
  using dreach_rest [OF assms] by (auto simp: rest_def recoveryUnderway_def connected_iff)

theorem daemon_rests_witness: "connected locked_down \<and> d_core locked_down \<and> d_mons locked_down \<noteq> None"
proof -
  have c: "connected locked_down" using locked_down_facts(2) by (simp add: connected_iff)
  with daemon_rests [OF locked_down_facts(8)] show ?thesis by simp
qed

section \<open>Runs that go wrong\<close>

lemma save_net [simp]: "d_net (save_marker e k d) = d_net d" "d_net_wait (save_marker e k d) = d_net_wait d"
  "d_servers (save_marker e k d) = d_servers d"
  by (simp_all add: save_marker_def Let_def set_world_def split: written.splits)

lemma teardown_net [simp]: "d_net (teardown e d) = d_net d" "d_net_wait (teardown e d) = d_net_wait d"
  "d_servers (teardown e d) = d_servers d"
  by (simp_all add: teardown_def cleanupApplied_def killswitch_off_def tun_cleanup_def clearApplied_def stopCore_def
        stopMonitors_def Let_def split: helper.split)

text \<open>
  C12. A network change can undo a disconnect. The recovery probes for seconds before it takes the lock and does
  not look at the state again: when the user disconnects in between (which makes the probes fail), the daemon
  connects again on its own.
\<close>

theorem network_change_undoes_disconnect:
  assumes "rest d" and "connected d" and "d_net d = [False]" and "benign e" and "d_servers d \<noteq> []"
    and "list_all generatable (d_servers d)"
  shows "let off = snd (Disconnect e ''user'' d)
    in state_of off = StDisconnected \<and> connected (net_recover e (net_probed e False False off))"
proof -
  let ?off = "snd (Disconnect e ''user'' d)"
  have nd: "state_of d \<noteq> StDisconnected" using assms(2) by (auto simp: connected_iff)
  obtain m where off: "?off = (teardown e d)\<lparr>d_machine := m\<rparr>" and s: "state_of ?off = StDisconnected"
    using disconnect_resting [OF assms(1) nd, of e "''user''"] by (auto simp: Disconnect_def)
  let ?p = "net_probed e False False ?off"
  have p: "d_net_wait ?p \<noteq> 0" "state_of ?p = StDisconnected" "d_servers ?p = d_servers d"
    using assms(3) s unfolding off by (simp_all add: net_probed_def state_of_def Let_def)
  let ?q = "stopCore (e_stop e) (e_tun_stays e) (stopMonitors (trans e StReconnecting ''network change'' (?p\<lparr>d_net_wait := d_net_wait ?p - 1\<rparr>)))"
  have q: "state_of ?q = StDisconnected" "d_servers ?q = d_servers d" using p by (simp_all add: state_of_def)
  have n: "net_recover e ?p = snd (reconnectWith e (serverID (d_machine ?p)) ?q)"
    using p(1) by (simp add: net_recover_def reconnectLocked_def)
  obtain d' where r: "reconnectWith e (serverID (d_machine ?p)) ?q = (None, d')"
    using reconnect_benign [OF assms(4), of ?q] assms(5,6) q(2) by (metis prod.collapse)
  have "connected d'" using reconnectWith_result [OF r] q(1) by (auto simp: online_def connected_iff)
  with s show ?thesis unfolding Let_def n r by simp
qed

theorem network_change_undoes_disconnect_witness:
  "\<exists>d. connected d \<and> (let off = snd (Disconnect calm ''user'' d)
    in state_of off = StDisconnected \<and> connected (net_recover calm (net_probed calm False False off)))"
proof -
  let ?d = "(fresh_daemon guarded [sample_server] bare)\<lparr>d_machine := session_up, d_core := True, d_mons := Some 1, d_net := [False]\<rparr>"
  have "mstate session_up = StConnected"
    by (simp add: session_up_def Transition_def Subscribe_def NewMachine_def)
  then have c: "connected ?d" and r: "rest ?d" by (simp_all add: connected_iff rest_def state_of_def)
  have f: "d_net ?d = [False]" "d_servers ?d = [sample_server]" by (simp_all add: fresh_daemon_def)
  have "let off = snd (Disconnect calm ''user'' ?d)
    in state_of off = StDisconnected \<and> connected (net_recover calm (net_probed calm False False off))"
    by (rule network_change_undoes_disconnect [OF r c f(1) calm_benign]) (simp_all only: f, simp_all add: sample_generatable)
  with c show ?thesis by blast
qed

lemma online_orphan:
  assumes "e_config_written e" "e_sing_box e" "e_helper e" "e_wintun e" "e_trusted e" "e_start e = NotReady True True"
    and "TunEnabled (d_settings d)" and "is_ok (renderConfig e ts (srv_id pick) d)" and "StConnecting \<in> set (allowed (state_of d))"
  shows "fst (go_online e ts pick st snap d) = Some CoreNotReady \<and>
    (let d' = snd (go_online e ts pick st snap d)
     in state_of d' = StError \<and> d_core d' = d_core d \<and> d_applied_kill d' = d_applied_kill d \<and> d_applied_tun d' = d_applied_tun d \<and>
        d_world d' = (d_world d)\<lparr>w_orphans := Suc (w_orphans (d_world d)), w_tun := True\<rparr>)"
proof -
  let ?d1 = "set_server (srv_id pick) (trans e StConnecting (DisplayName pick) d)"
  let ?d2 = "if snap then (case e_resolver e of Some h \<Rightarrow> ?d1\<lparr>d_resolv := h\<rparr> | None \<Rightarrow> ?d1) else ?d1"
  have d2: "d_settings ?d2 = d_settings d" "d_world ?d2 = d_world d" "d_core ?d2 = d_core d" "mstate (d_machine ?d2) = StConnecting"
    "d_applied_kill ?d2 = d_applied_kill d" "d_applied_tun ?d2 = d_applied_tun d"
    using assms(9) by (simp_all add: state_of_def split: option.split)
  let ?d3 = "trans e StStartingCore (DisplayName pick) ?d2"
  let ?d4 = "set_world ((d_world ?d3)\<lparr>w_orphans := Suc (w_orphans (d_world ?d3)), w_tun := True\<rparr>) ?d3"
  have st: "d_settings ?d3 = d_settings d" using d2 by simp
  have "startCore e ?d3 = (Some CoreNotReady, ?d4)" using assms unfolding startCore_def launch_def st by (simp add: Let_def)
  then have bu: "bringUp e ts pick st ?d2 = (Some CoreNotReady, trans e StError (e_text e CoreNotReady) ?d4)"
    by (simp only: bringUp_def option.case prod.case)
  obtain cfg where cfg: "renderConfig e ts (srv_id pick) ?d1 = Inr cfg"
    using assms(8) by (auto simp: renderConfig_def is_ok_iff)
  have "go_online e ts pick st snap d = (Some CoreNotReady, trans e StError (e_text e CoreNotReady) ?d4)"
    unfolding go_online_def Let_def bu using cfg assms(1) by simp
  then show ?thesis using d2 by (simp add: Let_def state_of_def)
qed

text \<open>
  C11. A core that does not become ready in time is lost: an elevated core survives the daemon's kill, its
  supervisor is dropped with its process id, and the TUN device it created was not recorded yet. \<open>Connect\<close>
  reports an error, and the \<open>Disconnect\<close> that the error state asks for leaves the core and its device, which
  holds the default route, as they are.
\<close>

theorem failed_start_leaves_core:
  assumes "rest d" and "\<not> connected d" and "TunEnabled (d_settings d)" and "\<not> d_applied_kill d" and "\<not> d_applied_tun d"
    and "d_servers d \<noteq> []" and "list_all generatable (d_servers d)" and "\<not> e_foreign e" and "e_edit e = None"
    and "e_config_written e" "e_sing_box e" "e_helper e" "e_wintun e" "e_trusted e" and "e_start e = NotReady True True"
  shows "fst (Connect e [] d) = Some CoreNotReady \<and>
    (let off = snd (Disconnect e ''user'' (snd (Connect e [] d)))
     in state_of off = StDisconnected \<and> w_tun (d_world off) \<and> w_orphans (d_world off) = Suc (w_orphans (d_world d)))"
proof -
  let ?n = "noteRecovery e d"
  have n: "d_servers ?n = d_servers d" "d_settings ?n = d_settings d" "d_world ?n = d_world d" "d_core ?n = d_core d"
    "d_applied_kill ?n = d_applied_kill d" "d_applied_tun ?n = d_applied_tun d" "state_of ?n = state_of d"
    by (simp_all add: state_of_def)
  let ?q = "quickTest e (e_ping e) (usableServers (d_servers ?n)) (trans e StSelecting ''user'' ?n)"
  obtain ts pick where r: "is_ok (renderConfig e ts (srv_id pick) ?q)"
    and c: "connectLocked e [] ''user'' ?n = go_online e ts pick (d_settings ?n) True ?q"
    by (rule connect_targets [OF assms(8,9), of ?n "[]" "''user''"]) (use assms n in auto)
  have "state_of d = StDisconnected \<or> state_of d = StError" using assms(1,2) by (auto simp: rest_def connected_iff)
  then have s: "StConnecting \<in> set (allowed (state_of ?q))" by (auto simp: state_of_def)
  have core: "\<not> d_core d" using assms(1,2) by (auto simp: rest_def connected_iff)
  have tun: "TunEnabled (d_settings ?q)" using assms(3) by simp
  note o = online_orphan [OF assms(10-15) tun r s, of "d_settings ?n" True]
  let ?d' = "snd (Connect e [] d)"
  have C: "Connect e [] d = go_online e ts pick (d_settings ?n) True ?q" unfolding Connect_idle [OF assms(1,2)] c ..
  have d': "state_of ?d' = StError" "\<not> d_core ?d'" "\<not> d_applied_kill ?d'" "\<not> d_applied_tun ?d'"
    "d_world ?d' = (d_world d)\<lparr>w_orphans := Suc (w_orphans (d_world d)), w_tun := True\<rparr>"
    using o core assms(4,5) unfolding C by (simp_all add: Let_def)
  have w: "d_world (teardown e ?d') = d_world ?d'"
    using d'(2-4) by (simp add: teardown_def cleanupApplied_def stopCore_def Let_def stopMonitors_def)
  have "rest ?d'" by (rule rest_Connect [OF assms(1)])
  from disconnect_resting [OF this, of e "''user''"] d'(1) w
  have "state_of (snd (Disconnect e ''user'' ?d')) = StDisconnected \<and> d_world (snd (Disconnect e ''user'' ?d')) = d_world ?d'"
    by (auto simp: Disconnect_def)
  then show ?thesis using o unfolding C [symmetric] by (simp add: Let_def d'(5))
qed

theorem failed_start_leaves_core_witness:
  "\<exists>e. fst (Connect e [] idle) = Some CoreNotReady \<and> w_tun (d_world (snd (Disconnect e ''user'' (snd (Connect e [] idle)))))"
proof -
  let ?e = "calm\<lparr>e_start := NotReady True True\<rparr>"
  have "fst (Connect ?e [] idle) = Some CoreNotReady \<and>
    (let off = snd (Disconnect ?e ''user'' (snd (Connect ?e [] idle)))
     in state_of off = StDisconnected \<and> w_tun (d_world off) \<and> w_orphans (d_world off) = Suc (w_orphans (d_world idle)))"
    by (rule failed_start_leaves_core)
       (simp_all add: calm_def sample_generatable guarded_def Defaults_def)
  then show ?thesis unfolding Let_def by blast
qed

text \<open>
  A marker write that a crash cuts in two forgets the kill switch: the file is truncated before it is
  written, at boot a file that is not JSON is removed, and then a table in force is recorded nowhere and
  \<open>Disconnect\<close> refuses to do anything about it.
\<close>

theorem torn_marker_forgets_killswitch:
  assumes "w_kill (d_world d) \<noteq> None" and "d_applied_kill d" and "e_write e SetTun = Written"
  shows "\<exists>w \<in> set (d_torn (setApplied e SetTun d)).
    let b = boot e' st ss (left_behind sv stays w)
    in w_kill (d_world b) \<noteq> None \<and> w_marker (d_world b) = NoMarker \<and> \<not> d_applied_kill b \<and>
       Disconnect e' ''user'' b = (Some NotConnected, b)"
proof
  let ?w = "(d_world d)\<lparr>w_marker := Garbage\<rparr>"
  show "?w \<in> set (d_torn (setApplied e SetTun d))"
    using assms by (simp add: setApplied_def save_marker_def Let_def)
  have "state_of (boot e' st ss (left_behind sv stays ?w)) = StDisconnected" by (simp add: state_of_def NewMachine_def)
  then show "let b = boot e' st ss (left_behind sv stays ?w)
    in w_kill (d_world b) \<noteq> None \<and> w_marker (d_world b) = NoMarker \<and> \<not> d_applied_kill b \<and>
       Disconnect e' ''user'' b = (Some NotConnected, b)"
    using assms(1) by (simp add: Let_def Disconnect_def disconnect_def) (simp add: boot_def reconcileApplied_def fresh_daemon_def left_behind_def)
qed

theorem torn_marker_forgets_killswitch_witness:
  "\<exists>w \<in> set (d_torn (setApplied calm SetTun locked_down)).
    let b = boot calm guarded [] (left_behind False False w) in w_kill (d_world b) \<noteq> None \<and> \<not> d_applied_kill b"
  using torn_marker_forgets_killswitch [OF locked_down_facts(6,4), of calm calm guarded "[]" False False]
  by (auto simp: calm_def Let_def)

end
