(* ===== verification/Handlers.thy ===== *)
theory Handlers
  imports Subscriptions Daemon_Props
begin

text \<open>
  The catalogue of the daemon: the request handlers of \<open>cmd/connectived/main.go\<close> that read or change the
  settings, the server list, the subscriptions and the selection, and the documents these are kept in
  (\<open>persistence/persistence.go\<close>). A handler runs under \<open>mu\<close>; it answers an error or a result and leaves a
  new shelf, also when it fails. A request that is not JSON of the expected shape is None. The coder of the
  documents is the standard library's and is taken to give back what was stored.
\<close>

section \<open>State and documents\<close>

record selection =
  sel_auto :: bool
  sel_server :: string

text \<open>
  A document is missing, unreadable (with what the decoder had filled in before it failed) or there; every
  write is a temporary file and a rename, so it replaces the document or leaves it.
\<close>

datatype 'a document = Missing | Corrupt 'a | Doc 'a

datatype doc_name = DocSettings | DocSubscriptions | DocServers | DocSelection

record documents =
  doc_settings :: "settings document"
  doc_subs :: "subscription list document"
  doc_servers :: "server list document"
  doc_sel :: "selection document"

record shelf =
  sh_settings :: settings
  sh_subs :: "subscription list"
  sh_servers :: "server list"
  sh_sel :: selection
  sh_docs :: documents

definition load_list :: "'a list document \<Rightarrow> 'a list" where
  "load_list doc = (case doc of Doc xs \<Rightarrow> xs | Corrupt xs \<Rightarrow> xs | Missing \<Rightarrow> [])"

definition loadState :: "documents \<Rightarrow> shelf" where
  "loadState docs =
     (let st = Validate (case doc_settings docs of Doc s \<Rightarrow> s | _ \<Rightarrow> Defaults);
          sel = (case doc_sel docs of Doc s \<Rightarrow> s | _ \<Rightarrow> \<lparr>sel_auto = True, sel_server = []\<rparr>)
      in \<lparr>sh_settings = st\<lparr>AutoMode := sel_auto sel\<rparr>, sh_subs = load_list (doc_subs docs),
          sh_servers = load_list (doc_servers docs), sh_sel = sel, sh_docs = docs\<rparr>)"

text \<open>Three documents, each of which may fail to be written; the errors are dropped.\<close>

definition persistServers :: "(doc_name \<Rightarrow> bool) \<Rightarrow> shelf \<Rightarrow> shelf" where
  "persistServers ok sh =
     (let docs = sh_docs sh;
          d1 = if ok DocServers then docs\<lparr>doc_servers := Doc (sh_servers sh)\<rparr> else docs;
          d2 = if ok DocSubscriptions then d1\<lparr>doc_subs := Doc (sh_subs sh)\<rparr> else d1;
          d3 = if ok DocSelection then d2\<lparr>doc_sel := Doc (sh_sel sh)\<rparr> else d2
      in sh\<lparr>sh_docs := d3\<rparr>)"

datatype fault =
    BadRequest | Conflicting | TooManyApps nat | InvalidApp string | NotSaved | UnknownServer string
  | BadLink link_error | NothingToAdd | BadServer server_error | NeedsId | ActiveServer | OwnedBySubscription
  | BadSubscription sub_fault | UnknownSubscription string | NoExport link_error

section \<open>Settings\<close>

fun checkSplitApps :: "string list \<Rightarrow> fault option" where
  "checkSplitApps [] = None"
| "checkSplitApps (a # as) = (if NormalizeAppID a = [] then Some (InvalidApp a) else checkSplitApps as)"

definition check_split_apps :: "string list \<Rightarrow> fault option" where
  "check_split_apps as = (if int (length as) > MaxSplitApps then Some (TooManyApps (length as)) else checkSplitApps as)"

definition hUpdateSettings :: "(doc_name \<Rightarrow> bool) \<Rightarrow> settings option \<Rightarrow> shelf \<Rightarrow> (fault, settings) res \<times> shelf" where
  "hUpdateSettings ok req sh =
     (case req of
        None \<Rightarrow> (Inl BadRequest, sh)
      | Some s \<Rightarrow>
          if Conflict s then (Inl Conflicting, sh)
          else case check_split_apps (SplitApps s) of
            Some f \<Rightarrow> (Inl f, sh)
          | None \<Rightarrow>
              let t = Validate s; sh1 = sh\<lparr>sh_settings := t\<rparr>
              in if ok DocSettings then (Inr t, sh1\<lparr>sh_docs := (sh_docs sh1)\<lparr>doc_settings := Doc t\<rparr>\<rparr>)
                 else (Inl NotSaved, sh1))"

definition hSelectServer :: "(doc_name \<Rightarrow> bool) \<Rightarrow> string option \<Rightarrow> shelf \<Rightarrow> (fault, selection) res \<times> shelf" where
  "hSelectServer ok req sh =
     (case req of
        None \<Rightarrow> (Inl BadRequest, sh)
      | Some i \<Rightarrow>
          let manual = i \<noteq> [] \<and> i \<noteq> ''auto'';
              sel = if manual then \<lparr>sel_auto = False, sel_server = i\<rparr> else \<lparr>sel_auto = True, sel_server = []\<rparr>
          in if manual \<and> i \<notin> set (map srv_id (sh_servers sh)) then (Inl (UnknownServer i), sh)
             else (Inr sel, persistServers ok (sh\<lparr>sh_sel := sel, sh_settings := (sh_settings sh)\<lparr>AutoMode := sel_auto sel\<rparr>\<rparr>)))"

section \<open>Servers\<close>

record add_request =
  a_link :: string
  a_server :: "server option"

text \<open>
  \<open>parse\<close> is the reader of share links, which may not return; \<open>rnd\<close> the random bytes of a new identity.
\<close>

definition store_server :: "(doc_name \<Rightarrow> bool) \<Rightarrow> string \<Rightarrow> server \<Rightarrow> shelf \<Rightarrow> (fault, server) res \<times> shelf" where
  "store_server ok rnd s0 sh =
     (let s = Normalize rnd s0
      in case server_validate s of
           Inl e \<Rightarrow> (Inl (BadServer e), sh)
         | Inr _ \<Rightarrow> (Inr s, persistServers ok (sh\<lparr>sh_servers := sh_servers sh @ [s]\<rparr>)))"

definition hAddServer ::
    "(doc_name \<Rightarrow> bool) \<Rightarrow> (string \<Rightarrow> (link_error, server) res option) \<Rightarrow> string \<Rightarrow> add_request option \<Rightarrow> shelf \<Rightarrow>
     ((fault, server) res \<times> shelf) option" where
  "hAddServer ok parse rnd req sh =
     (case req of
        None \<Rightarrow> Some (Inl BadRequest, sh)
      | Some r \<Rightarrow>
          if a_link r \<noteq> [] then
            (case parse (a_link r) of
               None \<Rightarrow> None
             | Some (Inl e) \<Rightarrow> Some (Inl (BadLink e), sh)
             | Some (Inr s) \<Rightarrow> Some (store_server ok rnd s sh))
          else case a_server r of
            None \<Rightarrow> Some (Inl NothingToAdd, sh)
          | Some s \<Rightarrow> Some (store_server ok rnd s sh))"

definition edited_server :: "server \<Rightarrow> server \<Rightarrow> server" where
  "edited_server old upd =
     upd\<lparr>srv_latency := srv_latency old, srv_last_test := srv_last_test old, srv_health := srv_health old,
         srv_subscription := (if srv_subscription upd = [] then srv_subscription old else srv_subscription upd)\<rparr>"

definition hUpdateServer :: "(doc_name \<Rightarrow> bool) \<Rightarrow> server option \<Rightarrow> shelf \<Rightarrow> (fault, server) res \<times> shelf" where
  "hUpdateServer ok req sh =
     (case req of
        None \<Rightarrow> (Inl BadRequest, sh)
      | Some u \<Rightarrow>
          if srv_id u = [] then (Inl NeedsId, sh)
          else
            let upd = Normalize [] u
            in case server_validate upd of
                 Inl e \<Rightarrow> (Inl (BadServer e), sh)
               | Inr _ \<Rightarrow>
                   (case find (\<lambda>s. srv_id s = srv_id upd) (sh_servers sh) of
                      None \<Rightarrow> (Inl (UnknownServer (srv_id upd)), sh)
                    | Some old \<Rightarrow>
                        (Inr (edited_server old upd),
                         persistServers ok (sh\<lparr>sh_servers := mark_first (srv_id upd) (\<lambda>s. edited_server s upd) (sh_servers sh)\<rparr>))))"

fun remove_first :: "string \<Rightarrow> server list \<Rightarrow> server list" where
  "remove_first i [] = []"
| "remove_first i (s # ss) = (if srv_id s = i then ss else s # remove_first i ss)"

definition hRemoveServer :: "(doc_name \<Rightarrow> bool) \<Rightarrow> machine \<Rightarrow> string \<Rightarrow> shelf \<Rightarrow> (fault, unit) res \<times> shelf" where
  "hRemoveServer ok m i sh =
     (if i = [] then (Inl BadRequest, sh)
      else if Connected m \<and> serverID m = i then (Inl ActiveServer, sh)
      else case find (\<lambda>s. srv_id s = i) (sh_servers sh) of
        None \<Rightarrow> (Inl (UnknownServer i), sh)
      | Some s \<Rightarrow>
          if srv_subscription s \<noteq> [] then (Inl OwnedBySubscription, sh)
          else
            let sel = if sel_server (sh_sel sh) = i then \<lparr>sel_auto = True, sel_server = []\<rparr> else sh_sel sh
            in (Inr (), persistServers ok (sh\<lparr>sh_servers := remove_first i (sh_servers sh), sh_sel := sel\<rparr>)))"

definition copy_of :: "string \<Rightarrow> server \<Rightarrow> server" where
  "copy_of rnd s =
     s\<lparr>srv_id := NewID rnd, srv_name := DisplayName s @ '' (copy)'', srv_custom := [], srv_subscription := [],
       srv_latency := -1, srv_health := HealthUnknown\<rparr>"

definition hDuplicateServer :: "(doc_name \<Rightarrow> bool) \<Rightarrow> string \<Rightarrow> string \<Rightarrow> shelf \<Rightarrow> (fault, server) res \<times> shelf" where
  "hDuplicateServer ok rnd i sh =
     (if i = [] then (Inl BadRequest, sh)
      else case find (\<lambda>s. srv_id s = i) (sh_servers sh) of
        None \<Rightarrow> (Inl (UnknownServer i), sh)
      | Some s \<Rightarrow> (Inr (copy_of rnd s), persistServers ok (sh\<lparr>sh_servers := sh_servers sh @ [copy_of rnd s]\<rparr>)))"

definition hExportServer :: "((string \<times> string) list \<Rightarrow> string) \<Rightarrow> string \<Rightarrow> shelf \<Rightarrow> (fault, string) res" where
  "hExportServer tojson i sh =
     (if i = [] then Inl BadRequest
      else case find (\<lambda>s. srv_id s = i) (sh_servers sh) of
        None \<Rightarrow> Inl (UnknownServer i)
      | Some s \<Rightarrow> (case ExportShareLink tojson s of Inl e \<Rightarrow> Inl (NoExport e) | Inr l \<Rightarrow> Inr l))"

text \<open>The servers a test covers: all, or those with one of the identities. A result is stored as it arrives.\<close>

definition test_targets :: "string list \<Rightarrow> server list \<Rightarrow> server list" where
  "test_targets ids ss = (if ids = [] then ss else filter (\<lambda>s. srv_id s \<in> set ids) ss)"

definition test_result_in :: "(doc_name \<Rightarrow> bool) \<Rightarrow> test_result \<Rightarrow> shelf \<Rightarrow> shelf" where
  "test_result_in ok r sh = persistServers ok (sh\<lparr>sh_servers := record_result r (sh_servers sh)\<rparr>)"

section \<open>Subscriptions\<close>

definition hAddSubscription :: "(doc_name \<Rightarrow> bool) \<Rightarrow> string \<Rightarrow> (string \<times> string) option \<Rightarrow> shelf \<Rightarrow> (fault, subscription) res \<times> shelf" where
  "hAddSubscription ok rnd req sh =
     (case req of
        None \<Rightarrow> (Inl BadRequest, sh)
      | Some (name, addr) \<Rightarrow>
          let sub = \<lparr>sub_id = NewID rnd, sub_name = (if name = [] then addr else name), sub_url = addr, sub_more = [],
                     sub_agent = [], sub_enabled = True, sub_interval = 0, sub_last_update = None,
                     sub_traffic = no_traffic, sub_count = 0, sub_error = []\<rparr>
          in case sub_validate sub of
               Inl e \<Rightarrow> (Inl (BadSubscription e), sh)
             | Inr _ \<Rightarrow> (Inr sub, persistServers ok (sh\<lparr>sh_subs := sh_subs sh @ [sub]\<rparr>)))"

record edit_request =
  q_id :: string
  q_name :: string
  q_url :: string
  q_enabled :: "bool option"
  q_interval :: int
  q_agent :: string

fun change_first :: "string \<Rightarrow> subscription \<Rightarrow> subscription list \<Rightarrow> subscription list" where
  "change_first i t [] = []"
| "change_first i t (s # ss) = (if sub_id s = i then t # ss else s # change_first i t ss)"

text \<open>The stored record is changed field by field; the address is checked after it has been stored.\<close>

definition hEditSubscription :: "(doc_name \<Rightarrow> bool) \<Rightarrow> edit_request option \<Rightarrow> shelf \<Rightarrow> (fault, subscription) res \<times> shelf" where
  "hEditSubscription ok req sh =
     (case req of
        None \<Rightarrow> (Inl BadRequest, sh)
      | Some q \<Rightarrow>
          if q_id q = [] then (Inl BadRequest, sh)
          else case find (\<lambda>s. sub_id s = q_id q) (sh_subs sh) of
            None \<Rightarrow> (Inl (UnknownSubscription (q_id q)), sh)
          | Some s \<Rightarrow>
              let put_back = (\<lambda>t. sh\<lparr>sh_subs := change_first (q_id q) t (sh_subs sh)\<rparr>);
                  s1 = s\<lparr>sub_name := (if q_name q \<noteq> [] then q_name q else sub_name s)\<rparr>;
                  s2 = s1\<lparr>sub_url := (if q_url q \<noteq> [] then q_url q else sub_url s1)\<rparr>
              in case (if q_url q \<noteq> [] then sub_validate s2 else Inr ()) of
                   Inl e \<Rightarrow> (Inl (BadSubscription e), put_back s2)
                 | Inr _ \<Rightarrow>
                     let s3 = s2\<lparr>sub_enabled := (case q_enabled q of Some b \<Rightarrow> b | None \<Rightarrow> sub_enabled s2),
                                 sub_interval := (if q_interval q \<ge> 0 then q_interval q * 60000000000 else sub_interval s2),
                                 sub_agent := (if q_agent q \<noteq> [] then q_agent q else sub_agent s2)\<rparr>
                     in (Inr s3, persistServers ok (put_back s3)))"

definition hRemoveSubscription :: "(doc_name \<Rightarrow> bool) \<Rightarrow> string option \<Rightarrow> shelf \<Rightarrow> (fault, unit) res \<times> shelf" where
  "hRemoveSubscription ok req sh =
     (case req of
        None \<Rightarrow> (Inl BadRequest, sh)
      | Some i \<Rightarrow>
          (Inr (), persistServers ok (sh\<lparr>sh_subs := filter (\<lambda>s. sub_id s \<noteq> i) (sh_subs sh),
                                        sh_servers := filter (\<lambda>s. srv_subscription s \<noteq> i) (sh_servers sh)\<rparr>)))"

text \<open>The end of a refresh, whose network part worked on an earlier list of subscriptions.\<close>

definition hUpdateSubscription_end ::
    "(doc_name \<Rightarrow> bool) \<Rightarrow> (subscription list \<Rightarrow> subscription list) \<Rightarrow> server list \<Rightarrow> subscription list \<Rightarrow> shelf \<Rightarrow> shelf" where
  "hUpdateSubscription_end ok order fresh updated sh =
     (let c = refresh_finish order fresh updated \<lparr>c_subs = sh_subs sh, c_servers = sh_servers sh\<rparr>
      in persistServers ok (sh\<lparr>sh_subs := c_subs c, sh_servers := c_servers c\<rparr>))"

section \<open>Runs\<close>

inductive hstep :: "shelf \<Rightarrow> shelf \<Rightarrow> bool" where
  settings: "hstep sh (snd (hUpdateSettings ok req1 sh))"
| select: "hstep sh (snd (hSelectServer ok i0 sh))"
| add: "hAddServer ok parse rnd req2 sh = Some (r, sh') \<Longrightarrow> hstep sh sh'"
| update: "hstep sh (snd (hUpdateServer ok req3 sh))"
| remove: "hstep sh (snd (hRemoveServer ok m i sh))"
| duplicate: "hstep sh (snd (hDuplicateServer ok rnd i sh))"
| tested: "hstep sh (test_result_in ok t sh)"
| add_sub: "hstep sh (snd (hAddSubscription ok rnd req4 sh))"
| edit_sub: "hstep sh (snd (hEditSubscription ok req5 sh))"
| remove_sub: "hstep sh (snd (hRemoveSubscription ok i0 sh))"
| refresh: "update_all (\<lambda>k j. ParseShareLink ip6 unjson (rnds k j)) fetch now render 0 subs = Some (fresh, updated) \<Longrightarrow>
    hstep sh (hUpdateSubscription_end ok order fresh updated sh)"
| restart: "hstep sh (loadState (sh_docs sh))"

inductive hreach :: "shelf \<Rightarrow> bool" where
  empty: "hreach (loadState \<lparr>doc_settings = Missing, doc_subs = Missing, doc_servers = Missing, doc_sel = Missing\<rparr>)"
| step: "hreach sh \<Longrightarrow> hstep sh sh' \<Longrightarrow> hreach sh'"

section \<open>What is stored stays valid\<close>

definition valid_servers :: "server list \<Rightarrow> bool" where
  "valid_servers ss \<longleftrightarrow> list_all (\<lambda>s. server_validate s = Inr ()) ss"

definition shelf_ok :: "shelf \<Rightarrow> bool" where
  "shelf_ok sh \<longleftrightarrow> valid_servers (sh_servers sh) \<and> valid_servers (load_list (doc_servers (sh_docs sh))) \<and>
     (\<exists>s. (sh_settings sh)\<lparr>AutoMode := False\<rparr> = (Validate s)\<lparr>AutoMode := False\<rparr>)"

lemma shelf_persist:
  "valid_servers (sh_servers sh) \<Longrightarrow> valid_servers (load_list (doc_servers (sh_docs sh))) \<Longrightarrow>
   \<exists>s. (sh_settings sh)\<lparr>AutoMode := False\<rparr> = (Validate s)\<lparr>AutoMode := False\<rparr> \<Longrightarrow> shelf_ok (persistServers ok sh)"
  by (simp add: shelf_ok_def persistServers_def Let_def load_list_def)

lemma valid_simps [simp]:
  "valid_servers []" "valid_servers (ss @ ts) = (valid_servers ss \<and> valid_servers ts)"
  "valid_servers (s # ss) = (server_validate s = Inr () \<and> valid_servers ss)"
  by (simp_all add: valid_servers_def)

lemma valid_filter [simp]: "valid_servers ss \<Longrightarrow> valid_servers (filter P ss)"
  by (simp add: valid_servers_def list_all_iff)

lemma valid_remove [simp]: "valid_servers ss \<Longrightarrow> valid_servers (remove_first i ss)"
  by (induction ss) auto

lemma validate_unchanged [simp]:
  "server_validate (Outcome r s) = server_validate s" "server_validate (keep_local old s) = server_validate s"
  by (simp_all add: Outcome_def keep_local_def server_validate_def)

lemma valid_result [simp]: "valid_servers ss \<Longrightarrow> valid_servers (record_result r ss)"
  by (induction ss) auto

lemma valid_edited [simp]: "server_validate (edited_server old upd) = server_validate upd"
  by (simp add: edited_server_def server_validate_def)

lemma valid_copy [simp]: "server_validate (copy_of rnd s) = server_validate s"
  by (simp add: copy_of_def server_validate_def)

lemma valid_mark [simp]: "valid_servers ss \<Longrightarrow> server_validate upd = Inr () \<Longrightarrow> valid_servers (mark_first i (\<lambda>s. edited_server s upd) ss)"
  by (induction ss) auto

lemma valid_found: "find P ss = Some s \<Longrightarrow> valid_servers ss \<Longrightarrow> server_validate s = Inr ()"
  by (auto simp: valid_servers_def list_all_iff find_Some_iff)

lemma unit_res: "server_validate s = Inr u \<Longrightarrow> server_validate s = Inr ()"
  by simp

lemma valid_merge: "valid_servers fresh \<Longrightarrow> valid_servers (Merge existing fresh)"
  by (auto simp: Merge_def valid_servers_def list_all_iff split: option.splits)

lemma valid_updates:
  "update_all (\<lambda>k j. ParseShareLink ip6 unjson (rnds k j)) fetch now render n subs = Some (fresh, updated) \<Longrightarrow> valid_servers fresh"
proof (induction subs arbitrary: n fresh updated)
  case (Cons sub subs)
  have one: "valid_servers (ur_servers r)" if h: "UpdateOne (\<lambda>j. ParseShareLink ip6 unjson (rnds n j)) fetch sub = Some (Inr r)" for r
  proof -
    obtain links where "parse_links (\<lambda>j. ParseShareLink ip6 unjson (rnds n j)) (sub_id sub) 0 [] links = Some (ur_servers r)"
      using h by (auto simp: UpdateOne_def parseBody_def Let_def split: sum.splits option.splits if_splits)
    from parse_links_result [OF this ParseShareLink_valid] show ?thesis by (auto simp: valid_servers_def list_all_iff)
  qed
  show ?case using Cons by (auto simp: one split: if_splits option.splits sum.splits)
qed simp

lemma store_server_ok: "shelf_ok sh \<Longrightarrow> shelf_ok (snd (store_server ok rnd s sh))"
  by (auto simp: store_server_def Let_def intro!: shelf_persist split: sum.split) (auto simp: shelf_ok_def)

lemma shelf_ok_step: "hstep sh sh' \<Longrightarrow> shelf_ok sh \<Longrightarrow> shelf_ok sh'"
proof (induction rule: hstep.induct)
  case (settings sh ok req1)
  have "\<exists>s. (Validate t)\<lparr>AutoMode := False\<rparr> = (Validate s)\<lparr>AutoMode := False\<rparr>" for t by blast
  with settings show ?case by (simp add: hUpdateSettings_def Let_def shelf_ok_def split: option.split)
next
  case (select sh ok i0)
  then show ?case
    by (auto simp: hSelectServer_def Let_def split: option.split intro!: shelf_persist) (auto simp: shelf_ok_def)
next
  case (add ok parse rnd req2 sh r sh')
  then show ?case using store_server_ok [OF add(2)]
    by (auto simp: hAddServer_def split: option.splits if_splits sum.splits) (metis snd_conv)+
next
  case (update sh ok req3)
  then show ?case
    by (auto simp: hUpdateServer_def Let_def split: option.split sum.split intro!: shelf_persist) (auto simp: shelf_ok_def)
next
  case (remove sh ok m i)
  then show ?case
    by (auto simp: hRemoveServer_def Let_def split: option.split intro!: shelf_persist) (auto simp: shelf_ok_def)
next
  case (duplicate sh ok rnd i)
  then show ?case
    by (auto simp: hDuplicateServer_def split: option.split intro!: shelf_persist) (auto simp: shelf_ok_def dest: valid_found)
next
  case (tested sh ok t)
  then show ?case unfolding test_result_in_def by (intro shelf_persist) (auto simp: shelf_ok_def)
next
  case (add_sub sh ok rnd req4)
  then show ?case
    by (auto simp: hAddSubscription_def Let_def split: option.split sum.split intro!: shelf_persist) (auto simp: shelf_ok_def)
next
  case (edit_sub sh ok req5)
  have keep: "shelf_ok (sh\<lparr>sh_subs := subs\<rparr>)" for subs using edit_sub by (simp add: shelf_ok_def)
  then have "shelf_ok (persistServers ok (sh\<lparr>sh_subs := subs\<rparr>))" for subs
    using keep [of subs] by (intro shelf_persist) (auto simp: shelf_ok_def)
  with keep edit_sub show ?case by (simp add: hEditSubscription_def Let_def split: option.split sum.split)
next
  case (remove_sub sh ok i0)
  then show ?case
    by (auto simp: hRemoveSubscription_def split: option.split intro!: shelf_persist) (auto simp: shelf_ok_def)
next
  case (refresh ip6 unjson rnds fetch now render subs fresh updated sh ok order)
  then have "valid_servers (Merge (sh_servers sh) fresh)" by (intro valid_merge valid_updates)
  with refresh show ?case unfolding hUpdateSubscription_end_def Let_def
    by (intro shelf_persist) (auto simp: shelf_ok_def refresh_finish_def)
next
  case (restart sh)
  then show ?case by (auto simp: loadState_def Let_def shelf_ok_def)
qed

lemma shelf_ok_reach: "hreach sh \<Longrightarrow> shelf_ok sh"
proof (induction rule: hreach.induct)
  case empty
  show ?case by (auto simp: loadState_def Let_def shelf_ok_def load_list_def)
qed (rule shelf_ok_step)

section \<open>Properties\<close>

lemma settings_fields:
  assumes "(t::settings)\<lparr>AutoMode := False\<rparr> = u\<lparr>AutoMode := False\<rparr>"
  shows "MixedPort t = MixedPort u" "HealthIntervalSec t = HealthIntervalSec u" "MTU t = MTU u" "Conflict t = Conflict u"
    "TestConcurrency t = TestConcurrency u"
  using arg_cong [OF assms, of MixedPort] arg_cong [OF assms, of HealthIntervalSec] arg_cong [OF assms, of MTU]
    arg_cong [OF assms, of Conflict] arg_cong [OF assms, of TestConcurrency]
  by (simp_all add: Conflict_def)

text \<open>
  C20. Whatever requests, tests, refreshes, failed writes and restarts an installation sees, every stored server
  passes the validation, in memory and on disk, and the settings in use are in range and never combine the kill
  switch with split tunnelling.
\<close>

theorem catalogue_stays_valid:
  assumes "hreach sh"
  shows "list_all (\<lambda>s. server_validate s = Inr ()) (sh_servers sh) \<and>
    list_all (\<lambda>s. server_validate s = Inr ()) (load_list (doc_servers (sh_docs sh))) \<and>
    \<not> Conflict (sh_settings sh) \<and> 0 \<le> MixedPort (sh_settings sh) \<and> MixedPort (sh_settings sh) \<le> 65535 \<and>
    5 \<le> HealthIntervalSec (sh_settings sh) \<and> 1280 \<le> MTU (sh_settings sh) \<and> MTU (sh_settings sh) \<le> 9000 \<and>
    1 \<le> TestConcurrency (sh_settings sh)"
proof -
  from shelf_ok_reach [OF assms] obtain s where v: "valid_servers (sh_servers sh)" "valid_servers (load_list (doc_servers (sh_docs sh)))"
    and s: "(sh_settings sh)\<lparr>AutoMode := False\<rparr> = (Validate s)\<lparr>AutoMode := False\<rparr>" by (auto simp: shelf_ok_def)
  then show ?thesis
    using settings_fields [OF s] valid_numbers [of s] valid_choices(6) [of s] by (simp add: valid_servers_def)
qed

lemma Normalize_validate [simp]: "server_validate (Normalize rnd s) = server_validate s"
proof -
  have "srv_transport (Normalize rnd s) \<in> set known_transports \<longleftrightarrow> srv_transport s \<in> set known_transports"
    by (simp add: Normalize_def known_transports_def)
  moreover have "srv_security (Normalize rnd s) \<in> set known_securities \<longleftrightarrow> srv_security s \<in> set known_securities"
    by (simp add: Normalize_def known_securities_def)
  moreover have "srv_address (Normalize rnd s) = srv_address s" "srv_port (Normalize rnd s) = srv_port s"
    "srv_protocol (Normalize rnd s) = srv_protocol s" by (simp_all add: Normalize_def)
  moreover have "srv_transport (Normalize rnd s) = srv_transport s \<or> srv_transport s = [] \<and> srv_transport s \<in> set known_transports"
    by (simp add: Normalize_def known_transports_def)
  moreover have "srv_security (Normalize rnd s) = srv_security s \<or> srv_security s = [] \<and> srv_security s \<in> set known_securities"
    by (simp add: Normalize_def known_securities_def)
  ultimately show ?thesis unfolding server_validate_def by (auto split: if_split)
qed

lemma Normalize_generatable [simp]: "generatable (Normalize rnd s) = generatable s"
  unfolding generatable_def Normalize_validate by (simp add: Normalize_def)

definition first_shelf :: shelf where
  "first_shelf = loadState \<lparr>doc_settings = Missing, doc_subs = Missing, doc_servers = Missing, doc_sel = Missing\<rparr>"

definition stocked_shelf :: shelf where
  "stocked_shelf = snd (store_server (\<lambda>_. True) [] sample_server first_shelf)"

lemma stocked_reach: "hreach stocked_shelf"
proof (rule hreach.step [OF hreach.empty hstep.add])
  show "hAddServer (\<lambda>_. True) (\<lambda>_. None) [] (Some \<lparr>a_link = [], a_server = Some sample_server\<rparr>)
      (loadState \<lparr>doc_settings = Missing, doc_subs = Missing, doc_servers = Missing, doc_sel = Missing\<rparr>) =
    Some (fst (store_server (\<lambda>_. True) [] sample_server first_shelf), stocked_shelf)"
    by (simp add: hAddServer_def stocked_shelf_def first_shelf_def)
qed

lemma stocked_servers: "sh_servers stocked_shelf = [Normalize [] sample_server]"
proof -
  have "server_validate (Normalize [] sample_server) = Inr ()" by (simp add: sample_validates)
  then show ?thesis
    by (simp add: stocked_shelf_def store_server_def Let_def persistServers_def first_shelf_def loadState_def load_list_def)
qed

theorem catalogue_stays_valid_witness:
  "sh_servers stocked_shelf \<noteq> [] \<and> list_all (\<lambda>s. server_validate s = Inr ()) (sh_servers stocked_shelf)"
  using catalogue_stays_valid [OF stocked_reach] stocked_servers by simp

lemma usable_after_good_tests:
  assumes "u \<in> set ss" and "srv_health u \<noteq> HealthUnhealthy" and "\<not> generatable u" and "list_all (\<lambda>r. \<not> r_failed r) rs"
  shows "\<exists>v \<in> set (usableServers (record_results rs ss)). \<not> generatable v"
proof -
  have step: "\<exists>v \<in> set (record_result r ss). srv_health v \<noteq> HealthUnhealthy \<and> \<not> generatable v"
    if "\<exists>v \<in> set ss. srv_health v \<noteq> HealthUnhealthy \<and> \<not> generatable v" "\<not> r_failed r" for r ss
  proof -
    have h: "srv_health (Outcome r s) \<noteq> HealthUnhealthy" if "\<not> r_failed r" for s
      using that by (simp add: Outcome_def HealthUnhealthy_def HealthDegraded_def HealthHealthy_def)
    show ?thesis using that by (induction ss) (auto simp: h)
  qed
  have "\<exists>v \<in> set (record_results rs ss). srv_health v \<noteq> HealthUnhealthy \<and> \<not> generatable v"
    if "\<exists>v \<in> set ss. srv_health v \<noteq> HealthUnhealthy \<and> \<not> generatable v" "list_all (\<lambda>r. \<not> r_failed r) rs" for ss
    using that unfolding record_results_def by (induction rs arbitrary: ss) (auto simp: step)
  with assms show ?thesis by (fastforce simp: usableServers_def Let_def)
qed

lemma render_fails:
  assumes "v \<in> set ts" "\<not> generatable v"
  shows "\<not> is_ok (renderConfig e ts active d)"
proof (cases "\<exists>s. ts = [s]")
  case True
  with assms obtain s where s: "ts = [s]" "\<not> generatable s" by auto
  then have "\<not> is_ok (outboundFor s ''proxy'')" by (simp add: outboundFor_ok)
  then show ?thesis by (auto simp: s renderConfig_def Generate_def is_ok_iff Let_def split: sum.split)
next
  case False
  then have "renderConfig e ts active d = GenerateGroup ts active (config_options e ts (d_settings d))"
    by (auto simp: renderConfig_def Let_def split: list.splits)
  then show ?thesis using assms by (auto simp: group_needs_all_servers list_all_iff)
qed

lemma connect_blocked:
  assumes "u \<in> set (d_servers d)" and "srv_health u \<noteq> HealthUnhealthy" and "\<not> generatable u"
    and "\<forall>s. \<exists>l. e_ping e s = Some (False, l)"
  shows "fst (connectLocked e [] why d) \<noteq> None"
proof -
  let ?before = "usableServers (d_servers d)"
  let ?rs = "ping_results e (e_ping e) ?before"
  let ?d1 = "edited e (quickTest e (e_ping e) ?before (trans e StSelecting why d))"
  let ?all = "usableServers (d_servers ?d1)"
  have "list_all (\<lambda>r. \<not> r_failed r) (ping_results e (e_ping e) ss)" for ss
  proof (induction ss)
    case (Cons s ss)
    obtain l where "e_ping e s = Some (False, l)" using assms(4) by blast
    then show ?case using Cons by (simp add: ping_results_def List.map_filter_simps)
  qed (simp add: ping_results_def List.map_filter_simps)
  moreover have "d_servers ?d1 = record_results ?rs (d_servers d)" by (simp add: quickTest_def)
  ultimately obtain v where v: "v \<in> set ?all" "\<not> generatable v"
    using usable_after_good_tests [OF assms(1-3), of ?rs] by auto
  obtain pick where pick: "Select ?all (historiesOf ?all) (serverID (d_machine ?d1)) select_defaults = Some pick"
    using v(1) by (metis Select_None list.set_intros(1) empty_iff list.set(1) not_None_eq)
  let ?d2 = "set_server (srv_id pick) (trans e StConnecting (DisplayName pick) ?d1)"
  have "\<not> is_ok (renderConfig e ?all (srv_id pick) ?d2)" by (rule render_fails [OF v])
  then obtain err where "renderConfig e ?all (srv_id pick) ?d2 = Inl err" by (cases "renderConfig e ?all (srv_id pick) ?d2") auto
  then have "fst (go_online e ?all pick (d_settings d) True ?d1) \<noteq> None" by (simp add: go_online_def Let_def fail_with_def)
  then show ?thesis
    using pick unfolding connectLocked_def Let_def by (simp add: manual_targets_def fail_with_def)
qed

text \<open>
  One server the generator cannot render takes automatic mode down. The handler stores every server that
  passes \<open>Validate\<close>, which accepts protocols that \<open>configgen\<close> does not implement and records without
  credentials; as long as such a server answers its test, every automatic connect fails, because the group
  configuration of all usable servers fails as a whole.
\<close>

theorem one_server_blocks_auto:
  assumes "server_validate u = Inr ()" and "\<not> generatable u" and "srv_health u = []"
    and "rest d" and "\<not> connected d" and "\<forall>s. \<exists>l. e_ping e s = Some (False, l)"
  shows "\<exists>s sh'. hAddServer ok parse rnd (Some \<lparr>a_link = [], a_server = Some u\<rparr>) sh = Some (Inr s, sh') \<and>
    (d_servers d = sh_servers sh' \<longrightarrow> fst (Connect e [] d) \<noteq> None)"
proof -
  let ?s = "Normalize rnd u"
  let ?sh' = "persistServers ok (sh\<lparr>sh_servers := sh_servers sh @ [?s]\<rparr>)"
  have a: "hAddServer ok parse rnd (Some \<lparr>a_link = [], a_server = Some u\<rparr>) sh = Some (Inr ?s, ?sh')"
    using assms(1) by (simp add: hAddServer_def store_server_def Let_def)
  have h: "srv_health ?s \<noteq> HealthUnhealthy" using assms(3) by (simp add: Normalize_def HealthUnknown_def HealthUnhealthy_def)
  have "fst (Connect e [] d) \<noteq> None" if "d_servers d = sh_servers ?sh'"
    unfolding Connect_idle [OF assms(4,5)]
    by (rule connect_blocked [OF _ h _ assms(6)]) (use that assms(2) in \<open>simp_all add: persistServers_def Let_def\<close>)
  with a show ?thesis by blast
qed

definition socks_server :: server where
  "socks_server = sample_server\<lparr>srv_protocol := ProtocolSocks, srv_health := []\<rparr>"

theorem one_server_blocks_auto_witness:
  "\<exists>s sh'. hAddServer (\<lambda>_. True) (\<lambda>_. None) [] (Some \<lparr>a_link = [], a_server = Some socks_server\<rparr>) stocked_shelf = Some (Inr s, sh') \<and>
    fst (Connect calm [] (fresh_daemon guarded (sh_servers sh') bare)) \<noteq> None"
proof -
  let ?d = "fresh_daemon guarded [Normalize [] sample_server, Normalize [] socks_server] bare"
  have v: "server_validate socks_server = Inr ()"
    by (simp add: socks_server_def sample_server_def new_server_def server_validate_def known_transports_def known_securities_def
        known_protocols_def ProtocolSocks_def)
  have g: "\<not> generatable socks_server"
    by (simp add: generatable_def socks_server_def ProtocolSocks_def ProtocolVLESS_def ProtocolVMess_def ProtocolTrojan_def
        ProtocolShadowsocks_def)
  have r: "rest ?d" "\<not> connected ?d"
    by (simp_all add: rest_def connected_def Connected_def state_of_def fresh_daemon_def NewMachine_def)
  have h: "srv_health socks_server = []" and p: "\<forall>s. \<exists>l. e_ping calm s = Some (False, l)"
    by (simp_all add: socks_server_def calm_def)
  obtain s sh' where
    a: "hAddServer (\<lambda>_. True) (\<lambda>_. None) [] (Some \<lparr>a_link = [], a_server = Some socks_server\<rparr>) stocked_shelf = Some (Inr s, sh')"
    and c: "d_servers ?d = sh_servers sh' \<longrightarrow> fst (Connect calm [] ?d) \<noteq> None"
    using one_server_blocks_auto [OF v g h r p, of "\<lambda>_. True" "\<lambda>_. None" "[]" stocked_shelf] by blast
  have "sh_servers sh' = [Normalize [] sample_server, Normalize [] socks_server]"
    using a stocked_servers v by (auto simp: hAddServer_def store_server_def Let_def persistServers_def)
  with a c show ?thesis by (auto simp: fresh_daemon_def)
qed

section \<open>Requests that do more than they say\<close>

text \<open>A rejected address stays in the stored subscription and is written with the next change.\<close>

lemma rejected_edit_is_kept:
  assumes "find (\<lambda>s. sub_id s = q_id q) (sh_subs sh) = Some s" and "q_id q \<noteq> []" and "q_url q = ''ftp''" and "trim_space (sub_id s) \<noteq> []"
  shows "\<exists>f. fst (hEditSubscription ok (Some q) sh) = Inl f \<and>
    (\<exists>t \<in> set (sh_subs (snd (hEditSubscription ok (Some q) sh))). sub_url t = ''ftp'')"
proof -
  let ?t = "s\<lparr>sub_name := (if q_name q \<noteq> [] then q_name q else sub_name s), sub_url := ''ftp''\<rparr>"
  have t: "trim_space ''ftp'' = ''ftp''" "\<not> has_prefix ''ftp'' ''http://''" "\<not> has_prefix ''ftp'' ''https://''" by code_simp+
  then have v: "sub_validate ?t = Inl (OnlyHttp (sub_name ?t))" using assms(4) by (simp add: sub_validate_def Let_def)
  have "?t \<in> set (change_first (q_id q) ?t ss)" if "find (\<lambda>s. sub_id s = q_id q) ss = Some s" for ss
    using that by (induction ss) (auto split: if_splits)
  then have "?t \<in> set (change_first (q_id q) ?t (sh_subs sh))" using assms(1) .
  moreover have "hEditSubscription ok (Some q) sh = (Inl (BadSubscription (OnlyHttp (sub_name ?t))), sh\<lparr>sh_subs := change_first (q_id q) ?t (sh_subs sh)\<rparr>)"
    using assms v by (simp add: hEditSubscription_def Let_def)
  ultimately show ?thesis by force
qed

text \<open>Removing the subscription without an identity removes every local server.\<close>

lemma empty_removal_drops_local:
  "sh_servers (snd (hRemoveSubscription ok (Some []) sh)) = filter (\<lambda>s. srv_subscription s \<noteq> []) (sh_servers sh)"
  by (simp add: hRemoveSubscription_def persistServers_def Let_def)

text \<open>Any edit that does not name an interval resets it: the absent field arrives as zero.\<close>

lemma edit_resets_interval:
  assumes "q_id q \<noteq> []" "q_interval q = 0" "fst (hEditSubscription ok (Some q) sh) = Inr t"
  shows "sub_interval t = 0"
  using assms by (auto simp: hEditSubscription_def Let_def split: option.splits sum.splits if_splits)

end
