(* ===== verification/Killswitch.thy ===== *)
theory Killswitch
  imports Daemon_Props Url_Facts
begin

text \<open>
  The privileged helper (\<open>cmd/connective-helper\<close>): its Linux kill switch as an nftables chain, the removal of
  the TUN device and the guarded kill of a core. The \<open>nft\<close> tool is a parameter: whether it is found, what its
  \<open>delete\<close> prints when it fails, and whether it loads a script; a script loads as a whole or not at all. A chain
  is evaluated as nftables documents it: the first rule that matches decides, and the policy is accept.
\<close>

datatype helper_error =
    NeedsValue string | UnknownFlag string | NoNft | TunRequired | BadAllow string | NftFailed | StateRequired
  | NoCoreGiven | IfRequired | ForeignInterface string | IpFailed | PidRequired | BadPid string | OwnPid
  | NotACore int | WouldNotDie int | PolicyUnreadable | SnapshotFailed | NetshFailed | UntrustedBinary

section \<open>Flags\<close>

record flags =
  g_tun :: string
  g_state :: string
  g_allows :: "string list"

definition no_flags :: flags where
  "no_flags = \<lparr>g_tun = [], g_state = [], g_allows = []\<rparr>"

fun parse_flags :: "flags \<Rightarrow> string list \<Rightarrow> (helper_error, flags) res" where
  "parse_flags g [] = Inr g"
| "parse_flags g [a] = Inl (if a \<in> set [''--tun'', ''--allow'', ''--state''] then NeedsValue a else UnknownFlag a)"
| "parse_flags g (a # v # as) =
     (if a = ''--tun'' then parse_flags (g\<lparr>g_tun := v\<rparr>) as
      else if a = ''--allow'' then parse_flags (g\<lparr>g_allows := g_allows g @ [v]\<rparr>) as
      else if a = ''--state'' then parse_flags (g\<lparr>g_state := v\<rparr>) as
      else Inl (UnknownFlag a))"

definition splitIPPort :: "string \<Rightarrow> (string \<times> string) option" where
  "splitIPPort a =
     (case last_index a CHR '':'' of
        None \<Rightarrow> None
      | Some i \<Rightarrow> if i = 0 \<or> i = length a - 1 then None else Some (take i a, drop (i + 1) a))"

text \<open>One \<open>--allow\<close> value: the canonical address with its family, and the port.\<close>

definition endpoint_of :: "(string \<Rightarrow> (bool \<times> string) option) \<Rightarrow> string \<Rightarrow> (helper_error, bool \<times> string \<times> int) res" where
  "endpoint_of parse_ip a =
     (case splitIPPort a of
        None \<Rightarrow> Inl (BadAllow a)
      | Some (ip, port) \<Rightarrow>
          (case parse_ip ip of
             None \<Rightarrow> Inl (BadAllow a)
           | Some (v4, canon) \<Rightarrow>
               (case atoi port of
                  None \<Rightarrow> Inl (BadAllow a)
                | Some n \<Rightarrow> if n < 1 \<or> n > 65535 then Inl (BadAllow a) else Inr (v4, canon, n))))"

fun endpoints :: "(string \<Rightarrow> (bool \<times> string) option) \<Rightarrow> string list \<Rightarrow> (helper_error, (bool \<times> string \<times> int) list) res" where
  "endpoints parse_ip [] = Inr []"
| "endpoints parse_ip (a # as) =
     (case endpoint_of parse_ip a of
        Inl e \<Rightarrow> Inl e
      | Inr p \<Rightarrow> (case endpoints parse_ip as of Inl e \<Rightarrow> Inl e | Inr ps \<Rightarrow> Inr (p # ps)))"

section \<open>The chain\<close>

datatype nft_rule =
    Established
  | OutIf string
  | Nets bool "string list"
  | TcpNew bool string int
  | UdpTo bool string int
  | UdpPort int
  | RejectAll

definition family :: "bool \<Rightarrow> string" where
  "family v4 = (if v4 then ''ip'' else ''ip6'')"

text \<open>The lines of the script.\<close>

fun rule_text :: "nft_rule \<Rightarrow> string" where
  "rule_text Established = ''add rule inet connective output ct state established,related accept''"
| "rule_text (OutIf i) = ''add rule inet connective output oifname \"'' @ i @ ''\" accept''"
| "rule_text (Nets v4 ns) = ''add rule inet connective output '' @ family v4 @ '' daddr { '' @ join_with '', '' ns @ '' } accept''"
| "rule_text (TcpNew v4 a p) =
     ''add rule inet connective output '' @ family v4 @ '' daddr '' @ a @ '' tcp dport '' @ int_str p @ '' ct state new accept''"
| "rule_text (UdpTo v4 a p) = ''add rule inet connective output '' @ family v4 @ '' daddr '' @ a @ '' udp dport '' @ int_str p @ '' accept''"
| "rule_text (UdpPort p) = ''add rule inet connective output udp dport '' @ int_str p @ '' accept''"
| "rule_text RejectAll = ''add rule inet connective output reject''"

definition lan4 :: "string list" where "lan4 = [''127.0.0.0/8'', ''10.0.0.0/8'', ''172.16.0.0/12'', ''192.168.0.0/16'']"
definition lan6 :: "string list" where "lan6 = [''::1'', ''fe80::/10'']"

definition chain :: "string \<Rightarrow> (bool \<times> string \<times> int) list \<Rightarrow> nft_rule list" where
  "chain tun eps =
     [Established, OutIf ''lo'', Nets True lan4, Nets False lan6, OutIf tun] @
     concat (map (\<lambda>(v4, a, p). [TcpNew v4 a p, UdpTo v4 a p]) eps) @
     [UdpPort 67, RejectAll]"

definition script :: "string \<Rightarrow> (bool \<times> string \<times> int) list \<Rightarrow> string" where
  "script tun eps =
     join_with [CHR 0x0A] ([''add table inet connective'',
        ''add chain inet connective output { type filter hook output priority 0; policy accept; }''] @
        map rule_text (chain tun eps)) @ [CHR 0x0A]"

section \<open>Switching\<close>

text \<open>\<open>n_delete\<close>: None if the delete succeeds, else what it printed.\<close>

record nft =
  n_found :: bool
  n_delete :: "string option"
  n_load :: "string \<Rightarrow> bool"

text \<open>Loading into a table that is still there appends to its chain.\<close>

definition killswitch_enable ::
    "(string \<Rightarrow> (bool \<times> string) option) \<Rightarrow> nft \<Rightarrow> string list \<Rightarrow> nft_rule list option \<Rightarrow>
     (helper_error, unit) res \<times> nft_rule list option" where
  "killswitch_enable parse_ip nft args tbl =
     (if \<not> n_found nft then (Inl NoNft, tbl)
      else
        case parse_flags no_flags args of
          Inl e \<Rightarrow> (Inl e, tbl)
        | Inr g \<Rightarrow>
            if g_tun g = [] then (Inl TunRequired, tbl)
            else case endpoints parse_ip (g_allows g) of
              Inl e \<Rightarrow> (Inl e, tbl)
            | Inr eps \<Rightarrow>
                let left = (if n_delete nft = None then None else tbl)
                in if n_load nft (script (g_tun g) eps)
                   then (Inr (), Some ((case left of None \<Rightarrow> [] | Some old \<Rightarrow> old) @ chain (g_tun g) eps))
                   else (Inl NftFailed, left))"

definition killswitch_disable :: "nft \<Rightarrow> nft_rule list option \<Rightarrow> (helper_error, unit) res \<times> nft_rule list option" where
  "killswitch_disable nft tbl =
     (if \<not> n_found nft then (Inl NoNft, tbl)
      else case n_delete nft of
        None \<Rightarrow> (Inr (), None)
      | Some out \<Rightarrow> if str_contains out ''No such file'' then (Inr (), tbl) else (Inl NftFailed, tbl))"

section \<open>What passes\<close>

datatype proto = TCP | UDP | OtherProto

text \<open>Whether the connection is known, new, or neither.\<close>

datatype ct = New | Known | Invalid

record packet =
  k_oif :: string
  k_v4 :: bool
  k_dst :: string
  k_proto :: proto
  k_port :: int
  k_ct :: ct

text \<open>\<open>in_net n a\<close>: whether the address \<open>a\<close> lies in the network \<open>n\<close>.\<close>

fun matches :: "(string \<Rightarrow> string \<Rightarrow> bool) \<Rightarrow> packet \<Rightarrow> nft_rule \<Rightarrow> bool" where
  "matches in_net p Established \<longleftrightarrow> k_ct p = Known"
| "matches in_net p (OutIf i) \<longleftrightarrow> k_oif p = i"
| "matches in_net p (Nets v4 ns) \<longleftrightarrow> k_v4 p = v4 \<and> list_ex (\<lambda>n. in_net n (k_dst p)) ns"
| "matches in_net p (TcpNew v4 a n) \<longleftrightarrow> k_v4 p = v4 \<and> k_dst p = a \<and> k_proto p = TCP \<and> k_port p = n \<and> k_ct p = New"
| "matches in_net p (UdpTo v4 a n) \<longleftrightarrow> k_v4 p = v4 \<and> k_dst p = a \<and> k_proto p = UDP \<and> k_port p = n"
| "matches in_net p (UdpPort n) \<longleftrightarrow> k_proto p = UDP \<and> k_port p = n"
| "matches in_net p RejectAll \<longleftrightarrow> True"

fun passes :: "(string \<Rightarrow> string \<Rightarrow> bool) \<Rightarrow> packet \<Rightarrow> nft_rule list \<Rightarrow> bool" where
  "passes in_net p [] = True"
| "passes in_net p (r # rs) = (if matches in_net p r then r \<noteq> RejectAll else passes in_net p rs)"

definition leaves :: "(string \<Rightarrow> string \<Rightarrow> bool) \<Rightarrow> packet \<Rightarrow> nft_rule list option \<Rightarrow> bool" where
  "leaves in_net p tbl = (case tbl of None \<Rightarrow> True | Some rs \<Rightarrow> passes in_net p rs)"

section \<open>What the daemon passes\<close>

definition killswitch_args :: "env \<Rightarrow> string \<Rightarrow> server list \<Rightarrow> string list" where
  "killswitch_args e state targets =
     [''--tun'', ''connective0'', ''--state'', state] @ concat (map (\<lambda>k. [''--allow'', k]) (allow_keys e targets))"

section \<open>Cores and devices\<close>

fun core_argv :: "string list \<Rightarrow> string list option" where
  "core_argv [] = None"
| "core_argv (a # as) = (if a = ''--'' then Some as else core_argv as)"

definition runCore :: "string list \<Rightarrow> (helper_error, string list) res" where
  "runCore args =
     (let argv = (case core_argv args of Some as \<Rightarrow> as | None \<Rightarrow> args) in if argv = [] then Inl NoCoreGiven else Inr argv)"

text \<open>The value of the last \<open>flag\<close> that has one.\<close>

fun flag_value :: "string \<Rightarrow> string \<Rightarrow> string list \<Rightarrow> string" where
  "flag_value flag v (a # b # as) = (if a = flag then flag_value flag b as else flag_value flag v (b # as))"
| "flag_value flag v as = v"

text \<open>\<open>ip link del\<close>: None if it succeeds, else what it printed. The result carries the device it was called for.\<close>

definition tunCleanup :: "(string \<Rightarrow> string option) \<Rightarrow> string list \<Rightarrow> (helper_error, unit) res \<times> string option" where
  "tunCleanup link_del args =
     (let name = flag_value ''--if'' [] args
      in if name = [] then (Inl IfRequired, None)
         else if name \<noteq> ''connective0'' then (Inl (ForeignInterface name), None)
         else (case link_del name of
                 None \<Rightarrow> (Inr (), Some name)
               | Some out \<Rightarrow> (if str_contains out ''Cannot find device'' then Inr () else Inl IpFailed, Some name)))"

datatype signal = SigTerm | SigKill

record processes =
  pr_self :: int
  pr_gone :: "int \<Rightarrow> bool"
  pr_cmdline :: "int \<Rightarrow> string option"
  pr_dies :: "int \<Rightarrow> signal \<Rightarrow> bool"

definition looksLikeCore :: "processes \<Rightarrow> int \<Rightarrow> bool" where
  "looksLikeCore ps pid =
     (case pr_cmdline ps pid of None \<Rightarrow> False | Some c \<Rightarrow> str_contains c ''sing-box'' \<or> str_contains c ''core.json'')"

text \<open>
  The result and the signals sent. The text must be the decimal form of the number that is read from it, so
  reading a prefix, as \<open>Sscanf\<close> does, is as good as reading all of it.
\<close>

definition helper_stop_core :: "processes \<Rightarrow> string list \<Rightarrow> (helper_error, unit) res \<times> (int \<times> signal) list" where
  "helper_stop_core ps args =
     (let s = flag_value ''--pid'' [] args
      in if s = [] then (Inl PidRequired, [])
         else case atoi s of
           None \<Rightarrow> (Inl (BadPid s), [])
         | Some pid \<Rightarrow>
             if pid \<le> 1 \<or> int_str pid \<noteq> s then (Inl (BadPid s), [])
             else if pid = pr_self ps then (Inl OwnPid, [])
             else if pr_gone ps pid then (Inr (), [])
             else if \<not> looksLikeCore ps pid then (Inl (NotACore pid), [])
             else if pr_dies ps pid SigTerm then (Inr (), [(pid, SigTerm)])
             else if pr_dies ps pid SigKill then (Inr (), [(pid, SigTerm), (pid, SigKill)])
             else (Inl (WouldNotDie pid), [(pid, SigTerm), (pid, SigKill)]))"

section \<open>From the daemon's arguments to the chain\<close>

lemma parse_allows [simp]:
  "parse_flags g (concat (map (\<lambda>k. [''--allow'', k]) ks)) = Inr (g\<lparr>g_allows := g_allows g @ ks\<rparr>)"
  by (induction ks arbitrary: g) auto

lemma parse_killswitch_args:
  "parse_flags no_flags (killswitch_args e state targets) =
     Inr \<lparr>g_tun = ''connective0'', g_state = state, g_allows = allow_keys e targets\<rparr>"
  by (simp add: killswitch_args_def no_flags_def)

lemma port_text:
  assumes "1 \<le> p" "p \<le> 65535"
  shows "int_str p = nat_str (nat p)" "CHR '':'' \<notin> set (int_str p)" "int_str p \<noteq> []" "atoi (int_str p) = Some p"
proof -
  show s: "int_str p = nat_str (nat p)" using assms(1) by (simp add: int_str_def)
  show "CHR '':'' \<notin> set (int_str p)"
    using nat_str_digits [of "nat p"] unfolding s by (auto simp: list_all_iff is_digit_def)
  show "int_str p \<noteq> []" unfolding s by simp
  show "atoi (int_str p) = Some p" unfolding s using assms by (simp add: atoi_nat_str)
qed

lemma endpoint_of_key:
  assumes "1 \<le> p" "p \<le> 65535" "snd x \<noteq> []" "parse_ip (snd x) = Some x"
  shows "endpoint_of parse_ip (snd x @ '':'' @ int_str p) = Inr (fst x, snd x, p)"
proof -
  note t = port_text [OF assms(1,2)]
  have "last_index (snd x @ '':'' @ int_str p) CHR '':'' = Some (length (snd x))"
    using last_index_sep [OF t(2), of "snd x"] by simp
  then have "splitIPPort (snd x @ '':'' @ int_str p) = Some (snd x, int_str p)"
    using assms(3) t(3) by (simp add: splitIPPort_def)
  then show ?thesis using assms t(4) by (cases x) (simp add: endpoint_of_def)
qed

lemma endpoints_ok:
  assumes "\<forall>k \<in> set ks. \<exists>q. endpoint_of parse_ip k = Inr q"
  obtains eps where "endpoints parse_ip ks = Inr eps" "set eps = {q. \<exists>k \<in> set ks. endpoint_of parse_ip k = Inr q}"
proof -
  have "\<exists>eps. endpoints parse_ip ks = Inr eps \<and> set eps = {q. \<exists>k \<in> set ks. endpoint_of parse_ip k = Inr q}"
    using assms
  proof (induction ks)
    case (Cons k ks)
    then obtain q eps where "endpoint_of parse_ip k = Inr q" "endpoints parse_ip ks = Inr eps"
      "set eps = {q. \<exists>k \<in> set ks. endpoint_of parse_ip k = Inr q}" by auto
    then show ?case by auto
  qed simp
  then show ?thesis using that by blast
qed

lemma set_add_new [simp]: "set (add_new acc xs) = set acc \<union> set xs"
  by (induction acc xs rule: add_new.induct) auto

lemma set_allow_keys:
  "set (allow_keys e ts) =
     {snd x @ '':'' @ int_str (srv_port s) | s ips x. s \<in> set ts \<and> e_lookup_kill e (srv_address s) = Some ips \<and> x \<in> set ips}"
proof -
  let ?keys = "\<lambda>s. case e_lookup_kill e (srv_address s) of None \<Rightarrow> []
      | Some ips \<Rightarrow> map (\<lambda>a. snd a @ '':'' @ int_str (srv_port s)) ips"
  have one: "k \<in> set (?keys s) \<longleftrightarrow>
      (\<exists>ips x. e_lookup_kill e (srv_address s) = Some ips \<and> x \<in> set ips \<and> k = snd x @ '':'' @ int_str (srv_port s))" for k s
    by (cases "e_lookup_kill e (srv_address s)") (simp_all add: image_iff Bex_def)
  show ?thesis
  proof (rule set_eqI)
    fix k
    have "k \<in> set (allow_keys e ts) \<longleftrightarrow> (\<exists>s \<in> set ts. k \<in> set (?keys s))" by (simp add: allow_keys_def)
    then show "k \<in> set (allow_keys e ts) \<longleftrightarrow> k \<in> {snd x @ '':'' @ int_str (srv_port s) | s ips x.
        s \<in> set ts \<and> e_lookup_kill e (srv_address s) = Some ips \<and> x \<in> set ips}"
      unfolding one mem_Collect_eq by metis
  qed
qed

text \<open>What the resolver answers is canonical: reading an address back gives the address and its family.\<close>

definition canonical_lookups :: "(string \<Rightarrow> (bool \<times> string) option) \<Rightarrow> env \<Rightarrow> bool" where
  "canonical_lookups parse_ip e \<longleftrightarrow>
     (\<forall>a ips x. e_lookup_kill e a = Some ips \<longrightarrow> x \<in> set ips \<longrightarrow> snd x \<noteq> [] \<and> parse_ip (snd x) = Some x)"

lemma endpoints_of_daemon:
  assumes "\<forall>s \<in> set ts. server_validate s = Inr ()" and "canonical_lookups parse_ip e"
  obtains eps where "endpoints parse_ip (allow_keys e ts) = Inr eps"
    "\<And>v4 a p. (v4, a, p) \<in> set eps \<longleftrightarrow>
       (\<exists>s \<in> set ts. \<exists>ips. e_lookup_kill e (srv_address s) = Some ips \<and> (v4, a) \<in> set ips \<and> p = srv_port s)"
proof -
  have port: "1 \<le> srv_port s \<and> srv_port s \<le> 65535" if "s \<in> set ts" for s
  proof -
    have "server_validate s = Inr ()" using assms(1) that by blast
    then show ?thesis by (auto simp: server_validate_def split: if_splits)
  qed
  have one: "endpoint_of parse_ip (snd x @ '':'' @ int_str (srv_port s)) = Inr (fst x, snd x, srv_port s)"
    if "s \<in> set ts" "e_lookup_kill e (srv_address s) = Some ips" "x \<in> set ips" for s ips x
    using endpoint_of_key [of "srv_port s" x parse_ip] port [OF that(1)] assms(2) that(2,3)
    unfolding canonical_lookups_def by blast
  have "\<forall>k \<in> set (allow_keys e ts). \<exists>q. endpoint_of parse_ip k = Inr q"
    unfolding set_allow_keys using one by blast
  then obtain eps where eps: "endpoints parse_ip (allow_keys e ts) = Inr eps"
    and s: "set eps = {q. \<exists>k \<in> set (allow_keys e ts). endpoint_of parse_ip k = Inr q}" by (rule endpoints_ok)
  have "(v4, a, p) \<in> set eps \<longleftrightarrow>
      (\<exists>s \<in> set ts. \<exists>ips. e_lookup_kill e (srv_address s) = Some ips \<and> (v4, a) \<in> set ips \<and> p = srv_port s)" for v4 a p
  proof
    assume "(v4, a, p) \<in> set eps"
    then obtain s ips x where "s \<in> set ts" "e_lookup_kill e (srv_address s) = Some ips" "x \<in> set ips"
      "endpoint_of parse_ip (snd x @ '':'' @ int_str (srv_port s)) = Inr (v4, a, p)"
      unfolding s set_allow_keys by blast
    moreover from one [OF this(1-3)] this(4) have "(fst x, snd x, srv_port s) = (v4, a, p)" by simp
    then have "x = (v4, a)" "p = srv_port s" by (cases x; simp)+
    ultimately show "\<exists>s \<in> set ts. \<exists>ips. e_lookup_kill e (srv_address s) = Some ips \<and> (v4, a) \<in> set ips \<and> p = srv_port s"
      by blast
  next
    assume "\<exists>s \<in> set ts. \<exists>ips. e_lookup_kill e (srv_address s) = Some ips \<and> (v4, a) \<in> set ips \<and> p = srv_port s"
    then obtain s ips where m: "s \<in> set ts" "e_lookup_kill e (srv_address s) = Some ips" "(v4, a) \<in> set ips" "p = srv_port s" by blast
    have "snd (v4, a) @ '':'' @ int_str (srv_port s) \<in> set (allow_keys e ts)" unfolding set_allow_keys using m by blast
    moreover have "endpoint_of parse_ip (snd (v4, a) @ '':'' @ int_str (srv_port s)) = Inr (v4, a, p)"
      using one [OF m(1-3)] m(4) by simp
    ultimately show "(v4, a, p) \<in> set eps" unfolding s by blast
  qed
  with eps show ?thesis by (rule that)
qed

lemma passes_accepts:
  "RejectAll \<notin> set rs \<Longrightarrow> passes in_net p (rs @ rs') \<longleftrightarrow> (\<exists>r \<in> set rs. matches in_net p r) \<or> passes in_net p rs'"
  by (induction rs) auto

lemma chain_passes:
  "passes in_net p (chain tun eps) \<longleftrightarrow>
     k_ct p = Known \<or> k_oif p = ''lo'' \<or> k_oif p = tun \<or> (\<exists>n \<in> set (if k_v4 p then lan4 else lan6). in_net n (k_dst p)) \<or>
     (k_v4 p, k_dst p, k_port p) \<in> set eps \<and> (k_proto p = UDP \<or> k_proto p = TCP \<and> k_ct p = New) \<or>
     k_proto p = UDP \<and> k_port p = 67"
proof -
  let ?base = "[Established, OutIf ''lo'', Nets True lan4, Nets False lan6, OutIf tun]"
  let ?eps = "concat (map (\<lambda>(v4, a, p). [TcpNew v4 a p, UdpTo v4 a p]) eps)"
  have r: "RejectAll \<notin> set (?base @ ?eps)" by auto
  have e: "(\<exists>r \<in> set ?eps. matches in_net p r) \<longleftrightarrow>
      (k_v4 p, k_dst p, k_port p) \<in> set eps \<and> (k_proto p = UDP \<or> k_proto p = TCP \<and> k_ct p = New)" by force
  have "passes in_net p (chain tun eps) \<longleftrightarrow>
      (\<exists>r \<in> set ?base. matches in_net p r) \<or> (\<exists>r \<in> set ?eps. matches in_net p r) \<or> k_proto p = UDP \<and> k_port p = 67"
    using passes_accepts [OF r, of in_net p "[UdpPort 67, RejectAll]"] by (auto simp: chain_def)
  also have "(\<exists>r \<in> set ?base. matches in_net p r) \<longleftrightarrow>
      k_ct p = Known \<or> k_oif p = ''lo'' \<or> k_oif p = tun \<or> (\<exists>n \<in> set (if k_v4 p then lan4 else lan6). in_net n (k_dst p))"
    by (auto simp: list_ex_iff)
  finally show ?thesis unfolding e by blast
qed

section \<open>Properties\<close>

text \<open>
  C4. The kill switch the daemon asks the helper for is the one it promises. For valid servers the helper accepts
  the daemon's arguments, and the chain it loads lets a packet out exactly if its connection is known, it leaves
  through the loopback or the tunnel device, it goes to the local network, it is DHCP, or it goes to the address
  and port of one of the rendered servers, in the family of that address.
\<close>

theorem killswitch_exact:
  assumes "\<forall>s \<in> set targets. server_validate s = Inr ()" and "canonical_lookups parse_ip e"
    and "n_found nft" and "\<forall>text. n_load nft text" and "tbl = None \<or> n_delete nft = None"
  shows "\<exists>rs. killswitch_enable parse_ip nft (killswitch_args e state targets) tbl = (Inr (), Some rs) \<and>
    (\<forall>p. passes in_net p rs \<longleftrightarrow>
       k_ct p = Known \<or> k_oif p \<in> {''lo'', ''connective0''} \<or> (\<exists>n \<in> set (if k_v4 p then lan4 else lan6). in_net n (k_dst p)) \<or>
       k_proto p = UDP \<and> k_port p = 67 \<or>
       (\<exists>s \<in> set targets. \<exists>ips. e_lookup_kill e (srv_address s) = Some ips \<and> (k_v4 p, k_dst p) \<in> set ips \<and>
          k_port p = srv_port s \<and> (k_proto p = UDP \<or> k_proto p = TCP \<and> k_ct p = New)))"
proof -
  obtain eps where eps: "endpoints parse_ip (allow_keys e targets) = Inr eps"
    and m: "\<And>v4 a p. (v4, a, p) \<in> set eps \<longleftrightarrow>
       (\<exists>s \<in> set targets. \<exists>ips. e_lookup_kill e (srv_address s) = Some ips \<and> (v4, a) \<in> set ips \<and> p = srv_port s)"
    using endpoints_of_daemon [OF assms(1,2)] by blast
  have "killswitch_enable parse_ip nft (killswitch_args e state targets) tbl = (Inr (), Some (chain ''connective0'' eps))"
    using assms(3-5) eps by (auto simp: killswitch_enable_def parse_killswitch_args)
  moreover have "passes in_net p (chain ''connective0'' eps) \<longleftrightarrow>
       k_ct p = Known \<or> k_oif p \<in> {''lo'', ''connective0''} \<or> (\<exists>n \<in> set (if k_v4 p then lan4 else lan6). in_net n (k_dst p)) \<or>
       k_proto p = UDP \<and> k_port p = 67 \<or>
       (\<exists>s \<in> set targets. \<exists>ips. e_lookup_kill e (srv_address s) = Some ips \<and> (k_v4 p, k_dst p) \<in> set ips \<and>
          k_port p = srv_port s \<and> (k_proto p = UDP \<or> k_proto p = TCP \<and> k_ct p = New))" for p
    unfolding chain_passes m insert_iff empty_iff by blast
  ultimately show ?thesis by blast
qed


definition easy_nft :: nft where
  "easy_nft = \<lparr>n_found = True, n_delete = None, n_load = (\<lambda>_. True)\<rparr>"

definition outside :: packet where
  "outside = \<lparr>k_oif = ''eth0'', k_v4 = True, k_dst = ''198.51.100.9'', k_proto = TCP, k_port = 443, k_ct = New\<rparr>"

theorem killswitch_exact_witness:
  "\<exists>rs. killswitch_enable (\<lambda>a. Some (True, a)) easy_nft (killswitch_args calm ''f'' [sample_server]) None = (Inr (), Some rs) \<and>
    passes (\<lambda>n a. False) (outside\<lparr>k_dst := ''192.0.2.1''\<rparr>) rs \<and> \<not> passes (\<lambda>n a. False) outside rs"
proof -
  have v: "\<forall>s \<in> set [sample_server]. server_validate s = Inr ()" by (simp add: sample_validates)
  have c: "canonical_lookups (\<lambda>a. Some (True, a)) calm" by (simp add: canonical_lookups_def calm_def)
  have n: "n_found easy_nft" "\<forall>text. n_load easy_nft text" by (simp_all add: easy_nft_def)
  have t: "(None::nft_rule list option) = None \<or> n_delete easy_nft = None" by simp
  from killswitch_exact [OF v c n t, of "''f''" "\<lambda>n a. False"] obtain rs where
    r: "killswitch_enable (\<lambda>a. Some (True, a)) easy_nft (killswitch_args calm ''f'' [sample_server]) None = (Inr (), Some rs)"
    and p: "\<And>p. passes (\<lambda>n a. False) p rs \<longleftrightarrow>
       k_ct p = Known \<or> k_oif p \<in> {''lo'', ''connective0''} \<or> (\<exists>n \<in> set (if k_v4 p then lan4 else lan6). False) \<or>
       k_proto p = UDP \<and> k_port p = 67 \<or>
       (\<exists>s \<in> set [sample_server]. \<exists>ips. e_lookup_kill calm (srv_address s) = Some ips \<and> (k_v4 p, k_dst p) \<in> set ips \<and>
          k_port p = srv_port s \<and> (k_proto p = UDP \<or> k_proto p = TCP \<and> k_ct p = New))" by blast
  have l: "e_lookup_kill calm a = Some [(True, ''192.0.2.1'')]" for a by (simp add: calm_def)
  have port: "srv_port sample_server = 443" by (simp add: sample_server_def new_server_def)
  have "passes (\<lambda>n a. False) (outside\<lparr>k_dst := ''192.0.2.1''\<rparr>) rs" unfolding p l by (simp add: outside_def port)
  moreover have "\<not> passes (\<lambda>n a. False) outside rs" unfolding p l by (simp add: outside_def port)
  ultimately show ?thesis using r by blast
qed

text \<open>
  The kill switch fails open when it is renewed: on every reconnect the helper deletes the table before it
  loads the new one, so a script that does not load leaves nothing in force, every packet leaves, and the helper
  only reports an error.
\<close>

theorem renewal_fails_open:
  assumes "n_found nft" and "n_delete nft = None" and "\<forall>text. \<not> n_load nft text"
    and "\<forall>s \<in> set targets. server_validate s = Inr ()" and "canonical_lookups parse_ip e"
  shows "killswitch_enable parse_ip nft (killswitch_args e state targets) tbl = (Inl NftFailed, None) \<and> leaves in_net p None"
proof -
  obtain eps where "endpoints parse_ip (allow_keys e targets) = Inr eps"
    by (rule endpoints_of_daemon [OF assms(4,5)]) (rule that)
  then show ?thesis using assms(1-3) by (simp add: killswitch_enable_def parse_killswitch_args leaves_def)
qed

theorem renewal_fails_open_witness:
  "fst (killswitch_enable (\<lambda>a. Some (True, a)) (easy_nft\<lparr>n_load := (\<lambda>_. False)\<rparr>) (killswitch_args calm ''f'' [sample_server])
     (Some (chain ''connective0'' []))) = Inl NftFailed"
proof -
  have v: "\<forall>s \<in> set [sample_server]. server_validate s = Inr ()" by (simp add: sample_validates)
  have c: "canonical_lookups (\<lambda>a. Some (True, a)) calm" by (simp add: canonical_lookups_def calm_def)
  have n: "n_found (easy_nft\<lparr>n_load := (\<lambda>_. False)\<rparr>)" "n_delete (easy_nft\<lparr>n_load := (\<lambda>_. False)\<rparr>) = None"
    "\<forall>text. \<not> n_load (easy_nft\<lparr>n_load := (\<lambda>_. False)\<rparr>) text" by (simp_all add: easy_nft_def)
  show ?thesis
    using renewal_fails_open [OF n v c, of "''f''" "Some (chain ''connective0'' [])" "\<lambda>n a. False" outside] by (simp only: fst_conv)
qed

text \<open>
  The helper runs as root, and harms nothing but its own: it signals a process only if its number is written
  in decimal in the arguments, is neither 0 nor 1 nor its own, and its command line names the core; and it
  removes no device but \<open>connective0\<close>.
\<close>

theorem helper_harms_only_its_own:
  "(case helper_stop_core ps args of (_, sent) \<Rightarrow>
      list_all (\<lambda>(pid, _). int_str pid = flag_value ''--pid'' [] args \<and> 1 < pid \<and> pid \<noteq> pr_self ps \<and> looksLikeCore ps pid) sent) \<and>
   (case tunCleanup link_del dev_args of (_, dev) \<Rightarrow> dev \<in> {None, Some ''connective0''})"
  by (auto simp: helper_stop_core_def tunCleanup_def Let_def split: option.split)

end
