(* ===== verification/Firewall_Windows.thy ===== *)
theory Firewall_Windows
  imports Killswitch
begin

text \<open>
  The kill switch on Windows: the owned allow rules and the lockdown through \<open>netsh\<close>
  (\<open>firewall/rules.go\<close>, \<open>firewall/windows.go\<close>) and the helper that drives them
  (\<open>connective-helper/helper_windows.go\<close>). \<open>netsh\<close> is a parameter: the text it prints for a policy and for
  the rules, and which of its changes succeed.
\<close>

section \<open>Rules\<close>

definition OwnedPrefix :: string where "OwnedPrefix = ''Connective ''"
definition DefaultOutbound :: string where "DefaultOutbound = ''blockinbound,allowoutbound''"
definition Lockdown :: string where "Lockdown = ''blockinbound,blockoutbound''"

definition lanCIDRs :: "string list" where
  "lanCIDRs = [''127.0.0.0/8'', ''::1'', ''10.0.0.0/8'', ''172.16.0.0/12'', ''192.168.0.0/16'', ''fe80::/10'']"

record allow_rule =
  ar_name :: string
  ar_remote :: string
  ar_proto :: string
  ar_port :: string

definition endpoint_rules :: "string \<Rightarrow> string \<Rightarrow> allow_rule list" where
  "endpoint_rules ip port =
     map (\<lambda>proto. \<lparr>ar_name = ''Allow '' @ ip @ '' '' @ port @ ''/'' @ proto, ar_remote = ip, ar_proto = proto, ar_port = port\<rparr>)
       [''TCP'', ''UDP'']"

fun allow_all :: "(string \<Rightarrow> (bool \<times> string) option) \<Rightarrow> string list \<Rightarrow> (helper_error, allow_rule list) res" where
  "allow_all parse_ip [] = Inr []"
| "allow_all parse_ip (a # as) =
     (case splitIPPort a of
        None \<Rightarrow> Inl (BadAllow a)
      | Some (_, port) \<Rightarrow>
          (case endpoint_of parse_ip a of
             Inl e \<Rightarrow> Inl e
           | Inr (_, ip, _) \<Rightarrow>
               (case allow_all parse_ip as of Inl e \<Rightarrow> Inl e | Inr rs \<Rightarrow> Inr (endpoint_rules ip port @ rs))))"

definition BuildAllowRules :: "(string \<Rightarrow> (bool \<times> string) option) \<Rightarrow> string list \<Rightarrow> (helper_error, allow_rule list) res" where
  "BuildAllowRules parse_ip allows =
     (case allow_all parse_ip allows of
        Inl e \<Rightarrow> Inl e
      | Inr rs \<Rightarrow>
          Inr (map (\<lambda>c. \<lparr>ar_name = ''Allow '' @ c, ar_remote = c, ar_proto = [], ar_port = []\<rparr>) lanCIDRs @
               [\<lparr>ar_name = ''Allow DHCP'', ar_remote = ''255.255.255.255'', ar_proto = ''UDP'', ar_port = ''67''\<rparr>] @ rs))"

section \<open>netsh\<close>

text \<open>The policy in force, the rules by full name, and the helper's state file.\<close>

record fw =
  fw_policy :: string
  fw_rules :: "(string \<times> allow_rule) list"
  fw_state :: "string option"

text \<open>\<open>ns_show\<close>: what is printed for a policy; \<open>ns_list\<close>: for a list of rule names; None is a failure.\<close>

record netsh =
  ns_show :: "string \<Rightarrow> string option"
  ns_list :: "string list \<Rightarrow> string option"
  ns_delete :: "string \<Rightarrow> bool"
  ns_add :: "string \<Rightarrow> bool"
  ns_set :: "string \<Rightarrow> bool"
  ns_write :: bool

fun policy_in :: "string list \<Rightarrow> string option" where
  "policy_in [] = None"
| "policy_in (l # ls) =
     (let line = trim_space l
      in if \<not> has_prefix line ''Firewall Policy'' then policy_in ls
         else
           let rest = trim_prefix line ''Firewall Policy'';
               value = (case str_index rest '':'' of Some i \<Rightarrow> drop (i + 1) rest | None \<Rightarrow> rest);
               p = filter (\<lambda>c. c \<noteq> CHR '' '') (trim_space value)
           in if p \<noteq> [] \<and> CHR '','' \<in> set p then Some p else policy_in ls)"

definition ReadPolicy :: "netsh \<Rightarrow> fw \<Rightarrow> string option" where
  "ReadPolicy ns w = (case ns_show ns (fw_policy w) of None \<Rightarrow> None | Some out \<Rightarrow> policy_in (split_on CHR 0x0A out))"

definition owned_name :: "string \<Rightarrow> string option" where
  "owned_name line =
     (let name = trim_space (trim_prefix line ''Rule Name:'')
      in if line = name \<or> \<not> has_prefix name OwnedPrefix then None else Some name)"

text \<open>Every owned name that is listed is deleted; the first failure is the result.\<close>

fun delete_names :: "netsh \<Rightarrow> string list \<Rightarrow> fw \<Rightarrow> bool \<times> fw" where
  "delete_names ns [] w = (True, w)"
| "delete_names ns (n # names) w =
     (if ns_delete ns n then delete_names ns names (w\<lparr>fw_rules := filter (\<lambda>r. fst r \<noteq> n) (fw_rules w)\<rparr>)
      else (False, snd (delete_names ns names w)))"

definition DeleteOwned :: "netsh \<Rightarrow> fw \<Rightarrow> bool \<times> fw" where
  "DeleteOwned ns w =
     (case ns_list ns (map fst (fw_rules w)) of
        None \<Rightarrow> (False, w)
      | Some out \<Rightarrow> delete_names ns (List.map_filter owned_name (split_on CHR 0x0A out)) w)"

fun add_rules :: "netsh \<Rightarrow> allow_rule list \<Rightarrow> fw \<Rightarrow> bool \<times> fw" where
  "add_rules ns [] w = (True, w)"
| "add_rules ns (r # rs) w =
     (if ns_add ns (OwnedPrefix @ ar_name r) then add_rules ns rs (w\<lparr>fw_rules := fw_rules w @ [(OwnedPrefix @ ar_name r, r)]\<rparr>)
      else (False, w))"

definition set_policy :: "netsh \<Rightarrow> string \<Rightarrow> fw \<Rightarrow> bool \<times> fw" where
  "set_policy ns p w = (if ns_set ns p then (True, w\<lparr>fw_policy := p\<rparr>) else (False, w))"

definition Enable :: "(string \<Rightarrow> (bool \<times> string) option) \<Rightarrow> netsh \<Rightarrow> string list \<Rightarrow> fw \<Rightarrow> (helper_error, unit) res \<times> fw" where
  "Enable parse_ip ns allows w =
     (if ReadPolicy ns w = None then (Inl PolicyUnreadable, w)
      else case BuildAllowRules parse_ip allows of
        Inl e \<Rightarrow> (Inl e, w)
      | Inr rs \<Rightarrow>
          (case DeleteOwned ns w of
             (False, w1) \<Rightarrow> (Inl NetshFailed, w1)
           | (True, w1) \<Rightarrow>
               (case add_rules ns rs w1 of
                  (False, w2) \<Rightarrow> (Inl NetshFailed, w2)
                | (True, w2) \<Rightarrow>
                    (case set_policy ns Lockdown w2 of
                       (False, w3) \<Rightarrow> (Inl NetshFailed, w3)
                     | (True, w3) \<Rightarrow> (Inr (), w3)))))"

text \<open>The helper's manager is fresh, so the policy to restore is what the state file gave it, or the default.\<close>

definition Disable :: "netsh \<Rightarrow> string \<Rightarrow> fw \<Rightarrow> (helper_error, unit) res \<times> fw" where
  "Disable ns restore w =
     (case DeleteOwned ns w of
        (False, w1) \<Rightarrow> (Inl NetshFailed, w1)
      | (True, w1) \<Rightarrow>
          (case set_policy ns (if restore \<noteq> [] then restore else DefaultOutbound) w1 of
             (False, w2) \<Rightarrow> (Inl NetshFailed, w2)
           | (True, w2) \<Rightarrow> (Inr (), w2)))"

section \<open>The helper\<close>

definition killswitchOff :: "netsh \<Rightarrow> string \<Rightarrow> fw \<Rightarrow> (helper_error, unit) res \<times> fw" where
  "killswitchOff ns state w =
     Disable ns (if state \<noteq> [] then (case fw_state w of Some p \<Rightarrow> trim_space p | None \<Rightarrow> []) else []) w"

definition win_killswitch ::
    "(string \<Rightarrow> (bool \<times> string) option) \<Rightarrow> netsh \<Rightarrow> bool \<Rightarrow> string list \<Rightarrow> fw \<Rightarrow> (helper_error, unit) res \<times> fw" where
  "win_killswitch parse_ip ns on args w =
     (case parse_flags no_flags args of
        Inl e \<Rightarrow> (Inl e, w)
      | Inr g \<Rightarrow>
          if \<not> on then killswitchOff ns (g_state g) w
          else if g_state g = [] then (Inl StateRequired, w)
          else case ReadPolicy ns w of
            None \<Rightarrow> (Inl PolicyUnreadable, w)
          | Some prev \<Rightarrow>
              if \<not> ns_write ns then (Inl SnapshotFailed, w)
              else Enable parse_ip ns (g_allows g) (w\<lparr>fw_state := Some prev\<rparr>))"

section \<open>A cooperating system\<close>

text \<open>Every change succeeds; a policy that is printed is read back up to letter case, as one word.\<close>

definition willing :: "netsh \<Rightarrow> bool" where
  "willing ns \<longleftrightarrow> (\<forall>names. ns_list ns names \<noteq> None) \<and> (\<forall>n. ns_delete ns n) \<and> (\<forall>n. ns_add ns n) \<and> (\<forall>p. ns_set ns p) \<and> ns_write ns"

definition prints :: "netsh \<Rightarrow> string \<Rightarrow> bool" where
  "prints ns p \<longleftrightarrow> (\<exists>out r. ns_show ns p = Some out \<and> policy_in (split_on CHR 0x0A out) = Some r \<and>
     lower_runes r = lower_runes p \<and> trim_space r = r \<and> r \<noteq> [])"

lemma delete_names_keeps:
  "fw_policy (snd (delete_names ns names w)) = fw_policy w" "fw_state (snd (delete_names ns names w)) = fw_state w"
  by (induction names arbitrary: w) auto

lemma delete_names_ok: "\<forall>n. ns_delete ns n \<Longrightarrow> fst (delete_names ns names w)"
  by (induction names arbitrary: w) auto

lemma DeleteOwned_willing:
  assumes "willing ns"
  obtains rules where "DeleteOwned ns w = (True, w\<lparr>fw_rules := rules\<rparr>)"
proof -
  have "ns_list ns (map fst (fw_rules w)) \<noteq> None" using assms unfolding willing_def by blast
  then obtain out where out: "ns_list ns (map fst (fw_rules w)) = Some out" by blast
  let ?names = "List.map_filter owned_name (split_on CHR 0x0A out)"
  obtain b w1 where d: "delete_names ns ?names w = (b, w1)" by fastforce
  have "b" using delete_names_ok [of ns ?names w] assms d by (simp add: willing_def)
  moreover have "w1 = w\<lparr>fw_rules := fw_rules w1\<rparr>" using delete_names_keeps [of ns ?names w] d by simp
  ultimately show ?thesis using that [of "fw_rules w1"] d by (simp add: DeleteOwned_def out)
qed

lemma add_rules_willing: "willing ns \<Longrightarrow> \<exists>rules. add_rules ns rs w = (True, w\<lparr>fw_rules := rules\<rparr>)"
proof (induction rs arbitrary: w)
  case Nil
  have "w = w\<lparr>fw_rules := fw_rules w\<rparr>" by simp
  then show ?case by (intro exI [of _ "fw_rules w"]) simp
next
  case (Cons r rs)
  let ?w = "w\<lparr>fw_rules := fw_rules w @ [(OwnedPrefix @ ar_name r, r)]\<rparr>"
  obtain rules where "add_rules ns rs ?w = (True, ?w\<lparr>fw_rules := rules\<rparr>)" using Cons by blast
  then have "add_rules ns (r # rs) w = (True, w\<lparr>fw_rules := rules\<rparr>)" using Cons.prems by (simp add: willing_def)
  then show ?case by blast
qed

lemma allow_all_ok: "\<forall>k \<in> set ks. \<exists>q. endpoint_of parse_ip k = Inr q \<Longrightarrow> \<exists>rs. allow_all parse_ip ks = Inr rs"
proof (induction ks)
  case (Cons k ks)
  then obtain q rs where q: "endpoint_of parse_ip k = Inr q" and "allow_all parse_ip ks = Inr rs" by auto
  moreover from q obtain ip port where "splitIPPort k = Some (ip, port)"
    by (auto simp: endpoint_of_def split: option.splits)
  ultimately show ?case by (cases q) auto
qed simp

lemma Enable_willing:
  assumes "willing ns" and "ReadPolicy ns w \<noteq> None" and "BuildAllowRules parse_ip allows = Inr rs"
  obtains rules where "Enable parse_ip ns allows w = (Inr (), w\<lparr>fw_rules := rules, fw_policy := Lockdown\<rparr>)"
proof -
  obtain r1 where d: "DeleteOwned ns w = (True, w\<lparr>fw_rules := r1\<rparr>)" by (rule DeleteOwned_willing [OF assms(1)])
  obtain r2 where a: "add_rules ns rs (w\<lparr>fw_rules := r1\<rparr>) = (True, w\<lparr>fw_rules := r1\<rparr>\<lparr>fw_rules := r2\<rparr>)"
    using add_rules_willing [OF assms(1)] by blast
  have "ns_set ns Lockdown" using assms(1) by (simp add: willing_def)
  then show ?thesis using that [of r2] assms(2,3) d a by (simp add: Enable_def set_policy_def)
qed

lemma on_willing:
  assumes "willing ns" and p: "prints ns (fw_policy w)" and "state \<noteq> []"
    and "\<forall>s \<in> set targets. server_validate s = Inr ()" and "canonical_lookups parse_ip e"
  obtains rules r where "win_killswitch parse_ip ns True (killswitch_args e state targets) w =
      (Inr (), w\<lparr>fw_state := Some r, fw_rules := rules, fw_policy := Lockdown\<rparr>)"
    "lower_runes r = lower_runes (fw_policy w)" "trim_space r = r" "r \<noteq> []"
proof -
  obtain r where r: "ReadPolicy ns w = Some r" "lower_runes r = lower_runes (fw_policy w)" "trim_space r = r" "r \<noteq> []"
    using p by (auto simp: prints_def ReadPolicy_def)
  have "\<forall>k \<in> set (allow_keys e targets). \<exists>q. endpoint_of parse_ip k = Inr q"
  proof
    fix k
    assume "k \<in> set (allow_keys e targets)"
    then obtain s ips x where m: "s \<in> set targets" "e_lookup_kill e (srv_address s) = Some ips" "x \<in> set ips"
      "k = snd x @ '':'' @ int_str (srv_port s)" unfolding set_allow_keys by blast
    have "server_validate s = Inr ()" using assms(4) m(1) by blast
    then have "1 \<le> srv_port s \<and> srv_port s \<le> 65535" by (auto simp: server_validate_def split: if_splits)
    then show "\<exists>q. endpoint_of parse_ip k = Inr q"
      using endpoint_of_key [of "srv_port s" x parse_ip] assms(5) m(2-4) unfolding canonical_lookups_def by blast
  qed
  from allow_all_ok [OF this] obtain rs where rs: "BuildAllowRules parse_ip (allow_keys e targets) = Inr rs"
    by (auto simp: BuildAllowRules_def)
  have rp: "ReadPolicy ns (w\<lparr>fw_state := Some r\<rparr>) \<noteq> None" using r(1) by (simp add: ReadPolicy_def)
  obtain rules where "Enable parse_ip ns (allow_keys e targets) (w\<lparr>fw_state := Some r\<rparr>) =
      (Inr (), w\<lparr>fw_state := Some r, fw_rules := rules, fw_policy := Lockdown\<rparr>)"
    by (rule Enable_willing [OF assms(1) rp rs])
  then have "win_killswitch parse_ip ns True (killswitch_args e state targets) w =
      (Inr (), w\<lparr>fw_state := Some r, fw_rules := rules, fw_policy := Lockdown\<rparr>)"
    using assms(1,3) r(1) by (simp add: win_killswitch_def parse_killswitch_args willing_def)
  then show ?thesis using r(2-4) by (rule that)
qed

lemma off_willing:
  assumes "willing ns" "state \<noteq> []" "fw_state w = Some r" "trim_space r = r" "r \<noteq> []"
  shows "fw_policy (snd (win_killswitch parse_ip ns False [''--state'', state] w)) = r"
proof -
  obtain rules where "DeleteOwned ns w = (True, w\<lparr>fw_rules := rules\<rparr>)" by (rule DeleteOwned_willing [OF assms(1)])
  then show ?thesis
    using assms by (simp add: win_killswitch_def killswitchOff_def Disable_def set_policy_def willing_def no_flags_def)
qed

text \<open>
  C10. On Windows a renewed kill switch locks the machine out. Switching it on and off again restores the policy
  that was in force, up to letter case. But every renewal, as each reconnect makes one, takes its snapshot again,
  now of the lockdown, and switching off then restores the lockdown: after a disconnect nothing leaves any more.
\<close>

theorem windows_renewal_locks_out:
  assumes "willing ns" and "prints ns (fw_policy w)" and "prints ns Lockdown" and "state \<noteq> []"
    and "\<forall>s \<in> set targets. server_validate s = Inr ()" and "canonical_lookups parse_ip e"
  shows "let on = (\<lambda>w. snd (win_killswitch parse_ip ns True (killswitch_args e state targets) w));
             off = (\<lambda>w. snd (win_killswitch parse_ip ns False [''--state'', state] w))
    in lower_runes (fw_policy (off (on w))) = lower_runes (fw_policy w) \<and>
       lower_runes (fw_policy (off (on (on w)))) = lower_runes Lockdown"
proof -
  obtain rules r where a: "win_killswitch parse_ip ns True (killswitch_args e state targets) w =
      (Inr (), w\<lparr>fw_state := Some r, fw_rules := rules, fw_policy := Lockdown\<rparr>)"
    and r: "lower_runes r = lower_runes (fw_policy w)" "trim_space r = r" "r \<noteq> []"
    by (rule on_willing [OF assms(1,2,4-6)])
  let ?w1 = "w\<lparr>fw_state := Some r, fw_rules := rules, fw_policy := Lockdown\<rparr>"
  have p1: "prints ns (fw_policy ?w1)" using assms(3) by simp
  obtain rules' r' where b: "win_killswitch parse_ip ns True (killswitch_args e state targets) ?w1 =
      (Inr (), ?w1\<lparr>fw_state := Some r', fw_rules := rules', fw_policy := Lockdown\<rparr>)"
    and r': "lower_runes r' = lower_runes (fw_policy ?w1)" "trim_space r' = r'" "r' \<noteq> []"
    by (rule on_willing [OF assms(1) p1 assms(4-6)])
  have "fw_policy (snd (win_killswitch parse_ip ns False [''--state'', state] ?w1)) = r"
    by (rule off_willing [OF assms(1,4) _ r(2,3)]) simp
  moreover have "fw_policy (snd (win_killswitch parse_ip ns False [''--state'', state]
      (?w1\<lparr>fw_state := Some r', fw_rules := rules', fw_policy := Lockdown\<rparr>))) = r'"
    by (rule off_willing [OF assms(1,4) _ r'(2,3)]) simp
  ultimately show ?thesis unfolding Let_def a snd_conv b using r(1) r'(1) by simp
qed

definition easy_netsh :: netsh where
  "easy_netsh = \<lparr>ns_show = (\<lambda>p. Some (''Firewall Policy: '' @ p)), ns_list = (\<lambda>ns. Some []), ns_delete = (\<lambda>n. True),
     ns_add = (\<lambda>n. True), ns_set = (\<lambda>p. True), ns_write = True\<rparr>"

definition open_fw :: fw where
  "open_fw = \<lparr>fw_policy = DefaultOutbound, fw_rules = [], fw_state = None\<rparr>"

theorem windows_renewal_locks_out_witness:
  "let on = (\<lambda>w. snd (win_killswitch (\<lambda>a. Some (True, a)) easy_netsh True (killswitch_args calm ''f'' [sample_server]) w));
       off = (\<lambda>w. snd (win_killswitch (\<lambda>a. Some (True, a)) easy_netsh False [''--state'', ''f''] w))
    in lower_runes (fw_policy (off (on open_fw))) = lower_runes DefaultOutbound \<and>
       lower_runes (fw_policy (off (on (on open_fw)))) = lower_runes Lockdown"
proof -
  have w: "willing easy_netsh" by (simp add: willing_def easy_netsh_def)
  have r: "policy_in (split_on CHR 0x0A (''Firewall Policy: '' @ p)) = Some p \<and> trim_space p = p \<and> p \<noteq> []"
    if "p = Lockdown \<or> p = DefaultOutbound" for p
    using that by (elim disjE) (hypsubst, code_simp)+
  have p: "prints easy_netsh (fw_policy open_fw)" "prints easy_netsh Lockdown"
    using r [of Lockdown] r [of DefaultOutbound] unfolding prints_def by (simp_all add: easy_netsh_def open_fw_def)
  have v: "\<forall>s \<in> set [sample_server]. server_validate s = Inr ()" by (simp add: sample_validates)
  have c: "canonical_lookups (\<lambda>a. Some (True, a)) calm" by (simp add: canonical_lookups_def calm_def)
  have s: "''f'' \<noteq> ([]::string)" by simp
  have o: "fw_policy open_fw = DefaultOutbound" by (simp add: open_fw_def)
  show ?thesis using windows_renewal_locks_out [OF w p s v c] unfolding o .
qed

section \<open>Foreign rules\<close>

lemma delete_names_foreign:
  "\<forall>n \<in> set names. has_prefix n OwnedPrefix \<Longrightarrow> r \<in> set (fw_rules w) \<Longrightarrow> \<not> has_prefix (fst r) OwnedPrefix \<Longrightarrow>
   r \<in> set (fw_rules (snd (delete_names ns names w)))"
proof (induction names arbitrary: w)
  case (Cons n names)
  then have "r \<in> set (fw_rules (w\<lparr>fw_rules := filter (\<lambda>r. fst r \<noteq> n) (fw_rules w)\<rparr>))" by auto
  with Cons show ?case by (auto simp del: select_convs update_convs)
qed simp

lemma foreign_rules_survive:
  assumes "r \<in> set (fw_rules w)" "\<not> has_prefix (fst r) OwnedPrefix"
  shows "r \<in> set (fw_rules (snd (DeleteOwned ns w)))"
proof (cases "ns_list ns (map fst (fw_rules w))")
  case (Some out)
  have "\<forall>n \<in> set (List.map_filter owned_name ls). has_prefix n OwnedPrefix" for ls
    by (induction ls) (auto simp: owned_name_def Let_def List.map_filter_simps split: option.splits if_splits)
  from delete_names_foreign [OF this assms] Some show ?thesis by (simp add: DeleteOwned_def)
qed (use assms in \<open>simp add: DeleteOwned_def\<close>)

end
