(* ===== verification/Download.thy ===== *)
theory Download
  imports Prelude
begin

text \<open>
  The artifact download (\<open>update/download.go\<close>): up to three attempts that append to one staged file, resuming
  where the server allows it, with a size cap and a SHA-256 over what was written. The network and the local
  asset are parameters: what they answer to each attempt. A body is the list of the pieces that reads return
  and how it ends; \<open>sha\<close> is the hash of the bytes fed to it.
\<close>

definition MaxArtifactBytes :: int where "MaxArtifactBytes = 512 * 2 ^ 20"
definition maxRetries :: nat where "maxRetries = 3"

datatype dl_error =
    StageFailed | BadUrl | DlCancelled | RemoteFileHost | MissingAsset | UnsupportedScheme string | FetchFailed
  | ServerStatus int | TooLarge int | WriteFailed | ShortDownload int int | CloseFailed | GaveUp dl_error

datatype ending = Eof | Broken

record body =
  b_pieces :: "string list"
  b_end :: ending

record reply =
  y_status :: int
  y_length :: int
  y_range :: string
  y_body :: body

text \<open>A local asset with its size if that is known, or a server.\<close>

datatype answer = NoAnswer | LocalAsset "int option" body | Reply reply

record downloader =
  dl_max :: int
  dl_progress :: "int \<Rightarrow> int \<Rightarrow> bool"

definition maxBytes :: "downloader \<Rightarrow> int" where
  "maxBytes dl = (if dl_max dl > 0 then dl_max dl else MaxArtifactBytes)"

text \<open>
  What can happen to one attempt: cancellation before a read, and a write that fails after some of the bytes
  (Some with their number). Seeking, truncating and re-reading the staged file succeed.
\<close>

record weather =
  wt_cancel :: "nat \<Rightarrow> bool"
  wt_write :: "nat \<Rightarrow> nat option"

text \<open>
  The read loop: the file, the bytes fed to the hash, and the error if there was one. The position is the
  number of the read.
\<close>

fun copy_body :: "downloader \<Rightarrow> weather \<Rightarrow> int \<Rightarrow> nat \<Rightarrow> string list \<Rightarrow> ending \<Rightarrow> string \<times> string \<Rightarrow> dl_error option \<times> string \<times> string" where
  "copy_body dl w tot i [] en (fl, fed) =
     (if wt_cancel w i then (Some DlCancelled, fl, fed)
      else case en of Eof \<Rightarrow> (None, fl, fed) | Broken \<Rightarrow> (Some FetchFailed, fl, fed))"
| "copy_body dl w tot i (c # cs) en (fl, fed) =
     (if wt_cancel w i then (Some DlCancelled, fl, fed)
      else if c = [] then copy_body dl w tot (i + 1) cs en (fl, fed)
      else if int (length fl) + int (length c) > maxBytes dl then (Some (TooLarge (maxBytes dl)), fl, fed)
      else case wt_write w i of
        Some k \<Rightarrow> (Some WriteFailed, fl @ take k c, fed)
      | None \<Rightarrow>
          if \<not> dl_progress dl (int (length fl) + int (length c)) tot then (Some DlCancelled, fl @ c, fed @ c)
          else copy_body dl w tot (i + 1) cs en (fl @ c, fed @ c))"

definition lastSlash :: "string \<Rightarrow> nat option" where
  "lastSlash s = last_index s (CHR ''/'')"

definition range_total :: "string \<Rightarrow> int option" where
  "range_total cr = (case lastSlash cr of None \<Rightarrow> None | Some i \<Rightarrow> atoi (drop (i + 1) cr))"

text \<open>
  What an attempt starts from: the file it keeps, the expected total and the body. A local asset and a server
  that ignores the range start over; a partial answer continues.
\<close>

definition opened :: "string \<Rightarrow> string \<Rightarrow> answer \<Rightarrow> int \<Rightarrow> string \<Rightarrow> (dl_error, string \<times> int \<times> body) res" where
  "opened scheme host ans expected fl =
     (if scheme = ''file'' then
        if host \<noteq> [] \<and> host \<noteq> ''localhost'' then Inl RemoteFileHost
        else case ans of
          LocalAsset sz b \<Rightarrow>
            Inr ([], if expected \<le> 0 then (case sz of Some n \<Rightarrow> n | None \<Rightarrow> expected) else expected, b)
        | _ \<Rightarrow> Inl MissingAsset
      else if scheme \<noteq> ''http'' \<and> scheme \<noteq> ''https'' then Inl (UnsupportedScheme scheme)
      else case ans of
        Reply r \<Rightarrow>
          if y_status r = 200 then Inr ([], if expected \<le> 0 then y_length r else expected, y_body r)
          else if y_status r = 206 then
            Inr (fl,
                 if expected \<le> 0 \<and> y_range r \<noteq> []
                 then (case range_total (y_range r) of Some n \<Rightarrow> n | None \<Rightarrow> expected) else expected,
                 y_body r)
          else Inl (ServerStatus (y_status r))
      | _ \<Rightarrow> Inl FetchFailed)"

text \<open>One attempt: the new file, and the error or the total and the hash. The kept prefix is hashed again.\<close>

definition attempt_fetch ::
    "(string \<Rightarrow> string) \<Rightarrow> downloader \<Rightarrow> weather \<Rightarrow> string \<Rightarrow> string \<Rightarrow> answer \<Rightarrow> int \<Rightarrow> string \<Rightarrow>
     (dl_error, int \<times> string) res \<times> string" where
  "attempt_fetch sha dl w scheme host ans expected fl =
     (case opened scheme host ans expected fl of
        Inl e \<Rightarrow> (Inl e, fl)
      | Inr (kept, tot, b) \<Rightarrow>
          (case copy_body dl w tot 0 (b_pieces b) (b_end b) (kept, kept) of
             (Some e, fl', _) \<Rightarrow> (Inl e, fl')
           | (None, fl', fed) \<Rightarrow> (Inr (tot, sha fed), fl')))"

text \<open>
  The attempts from number \<open>k\<close> on, with the sizes they resume from. \<open>quit k\<close>: the context has ended before
  attempt \<open>k\<close>, or after the one before it.
\<close>

fun attempts ::
    "(string \<Rightarrow> string) \<Rightarrow> downloader \<Rightarrow> (nat \<Rightarrow> weather) \<Rightarrow> (nat \<Rightarrow> bool) \<Rightarrow> string \<Rightarrow> string \<Rightarrow> (nat \<Rightarrow> answer) \<Rightarrow> int \<Rightarrow>
     nat \<Rightarrow> nat \<Rightarrow> string \<Rightarrow> dl_error \<Rightarrow> (dl_error, int \<times> string) res \<times> string \<times> nat list" where
  "attempts sha dl w quit scheme host ans expected 0 k fl lastErr = (Inl (GaveUp lastErr), fl, [])"
| "attempts sha dl w quit scheme host ans expected (Suc n) k fl lastErr =
     (if quit k then (Inl DlCancelled, fl, [])
      else case attempt_fetch sha dl (w k) scheme host (ans k) expected fl of
        (Inr r, fl') \<Rightarrow> (Inr r, fl', [length fl])
      | (Inl e, fl') \<Rightarrow>
          (case attempts sha dl w quit scheme host ans expected n (k + 1) fl' e of
             (res, file'', asked) \<Rightarrow> (res, file'', length fl # asked)))"

text \<open>\<open>Fetch\<close>: the hash, the staged file (None once it has been removed), and the resume positions.\<close>

definition Fetch_artifact ::
    "(string \<Rightarrow> string) \<Rightarrow> downloader \<Rightarrow> (nat \<Rightarrow> weather) \<Rightarrow> (nat \<Rightarrow> bool) \<Rightarrow> bool \<Rightarrow> bool \<Rightarrow> (string \<times> string) option \<Rightarrow>
     (nat \<Rightarrow> answer) \<Rightarrow> int \<Rightarrow> (dl_error, string) res \<times> string option \<times> nat list" where
  "Fetch_artifact sha dl w quit staged closes addr ans expected =
     (if \<not> staged then (Inl StageFailed, None, [])
      else case addr of
        None \<Rightarrow> (Inl BadUrl, None, [])
      | Some (scheme, host) \<Rightarrow>
          (case attempts sha dl w quit scheme host ans expected maxRetries 0 [] DlCancelled of
             (Inl e, _, asked) \<Rightarrow> (Inl e, None, asked)
           | (Inr (tot, dig), fl, asked) \<Rightarrow>
               if \<not> closes then (Inl CloseFailed, None, asked)
               else if tot > 0 \<and> int (length fl) \<noteq> tot
                 then (Inl (ShortDownload (int (length fl)) tot), None, asked)
               else (Inr dig, Some fl, asked)))"

section \<open>Lemmas\<close>

lemma copy_body_fed: "copy_body dl w tot i cs en (fl, fl) = (None, fl', fed') \<Longrightarrow> fed' = fl'"
proof (induction cs arbitrary: i fl)
  case (Cons c cs)
  then show ?case by (auto split: if_splits option.splits)
qed (auto split: if_splits ending.splits)

lemma copy_body_bounded:
  "copy_body dl w tot i cs en (fl, fed) = (r, fl', fed') \<Longrightarrow> int (length fl) \<le> maxBytes dl \<Longrightarrow> int (length fl') \<le> maxBytes dl"
proof (induction cs arbitrary: i fl fed)
  case (Cons c cs)
  show ?case
  proof (cases "wt_cancel w i \<or> c = [] \<or> int (length fl) + int (length c) > maxBytes dl")
    case True
    then show ?thesis using Cons by (auto split: if_splits)
  next
    case False
    then have "int (length (fl @ c)) \<le> maxBytes dl" and "\<And>k. int (length (fl @ take k c)) \<le> maxBytes dl" by auto
    with Cons False show ?thesis by (auto split: if_splits option.splits)
  qed
qed (auto split: if_splits ending.splits)

lemma copy_body_eof:
  "copy_body dl w tot i cs en (fl, fed) = (None, fl', fed') \<Longrightarrow> en = Eof \<and> fl' = fl @ concat cs"
proof (induction cs arbitrary: i fl fed)
  case (Cons c cs)
  then show ?case using Cons.IH [of "i + 1" "fl @ c" "fed @ c"] by (auto split: if_splits option.splits)
qed (auto split: if_splits ending.splits)

lemma maxBytes_pos: "0 < maxBytes dl"
  by (simp add: maxBytes_def MaxArtifactBytes_def)

lemma opened_keeps: "opened scheme host ans expected fl = Inr (kept, tot, b) \<Longrightarrow> (kept = [] \<or> kept = fl) \<and> (expected > 0 \<longrightarrow> tot = expected)"
  by (auto simp: opened_def split: if_splits answer.splits option.splits)

lemma attempt_fetch_result:
  assumes "attempt_fetch sha dl w scheme host ans expected fl = (r, fl')" and "int (length fl) \<le> maxBytes dl"
  shows "int (length fl') \<le> maxBytes dl \<and>
    (case r of Inl _ \<Rightarrow> True | Inr (tot, dig) \<Rightarrow> dig = sha fl' \<and> (expected > 0 \<longrightarrow> tot = expected) \<and>
       (\<exists>kept b. opened scheme host ans expected fl = Inr (kept, tot, b) \<and> b_end b = Eof \<and> fl' = kept @ concat (b_pieces b)))"
proof (cases "opened scheme host ans expected fl")
  case (Inl e)
  then show ?thesis using assms by (auto simp: attempt_fetch_def)
next
  case (Inr o3)
  obtain kept tot b where o: "opened scheme host ans expected fl = Inr (kept, tot, b)" using Inr by (cases o3) auto
  obtain e file1 fed where c: "copy_body dl w tot 0 (b_pieces b) (b_end b) (kept, kept) = (e, file1, fed)"
    by (metis prod_cases3)
  have k: "int (length kept) \<le> maxBytes dl" using opened_keeps [OF o] assms(2) maxBytes_pos [of dl] by auto
  note facts = copy_body_bounded [OF c k] opened_keeps [OF o]
  show ?thesis
  proof (cases e)
    case None
    then have c': "copy_body dl w tot 0 (b_pieces b) (b_end b) (kept, kept) = (None, file1, fed)" using c by simp
    have "r = Inr (tot, sha file1)" "fl' = file1"
      using assms(1) o c' copy_body_fed [OF c'] by (auto simp: attempt_fetch_def)
    then show ?thesis using facts copy_body_eof [OF c'] o by auto
  qed (use facts assms(1) o c in \<open>auto simp: attempt_fetch_def\<close>)
qed

lemma attempts_result:
  assumes "attempts sha dl w quit scheme host ans expected n k fl lastErr = (r, fl', asked)" and "int (length fl) \<le> maxBytes dl"
  shows "int (length fl') \<le> maxBytes dl \<and> length asked \<le> n \<and>
    (case r of Inl _ \<Rightarrow> True | Inr (tot, dig) \<Rightarrow> dig = sha fl' \<and> (expected > 0 \<longrightarrow> tot = expected))"
  using assms
proof (induction n arbitrary: k fl lastErr asked)
  case (Suc n)
  show ?case
  proof (cases "quit k")
    case False
    obtain r1 file1 where a: "attempt_fetch sha dl (w k) scheme host (ans k) expected fl = (r1, file1)" by fastforce
    note one = attempt_fetch_result [OF a Suc.prems(2)]
    show ?thesis
    proof (cases r1)
      case (Inl e)
      obtain r2 file2 asked2 where rest: "attempts sha dl w quit scheme host ans expected n (k + 1) file1 e = (r2, file2, asked2)"
        by (metis prod_cases3)
      have eq: "r2 = r" "file2 = fl'" "asked = length fl # asked2" using Suc.prems(1) False a Inl rest by auto
      from Suc.IH [OF rest [unfolded eq(1,2)]] one eq(3) show ?thesis by (auto split: sum.splits)
    next
      case (Inr x)
      have "r = r1" "fl' = file1" "asked = [length fl]" using Suc.prems(1) False a Inr by auto
      with one Inr show ?thesis by (auto split: sum.splits)
    qed
  qed (use Suc.prems in auto)
qed auto

section \<open>Properties\<close>


text \<open>
  A progress callback that returns False is documented to abort the download; it only ends the attempt, and
  the file is asked for again.
\<close>

lemma abort_is_retried:
  assumes p: "\<And>d t. \<not> dl_progress dl d t" and m: "maxBytes dl \<ge> 2"
  shows "Fetch_artifact sha dl (\<lambda>_. \<lparr>wt_cancel = (\<lambda>_. False), wt_write = (\<lambda>_. None)\<rparr>) (\<lambda>_. False) True True (Some (''https'', ''h''))
      (\<lambda>_. Reply \<lparr>y_status = 200, y_length = 2, y_range = [], y_body = \<lparr>b_pieces = [''ab''], b_end = Eof\<rparr>\<rparr>) 2 =
    (Inl (GaveUp DlCancelled), None, [0, 2, 2])"
  using m by (simp add: Fetch_artifact_def maxRetries_def numeral_3_eq_3 attempt_fetch_def opened_def p)

end
