(* ===== verification/Updater.thy ===== *)
theory Updater
  imports Installer Handoff Quote
begin

text \<open>
  The detached updater (\<open>cmd/connective-updater\<close>, \<open>update/result.go\<close>): its command line, waiting for the
  application to be gone, promoting the staged tree, the check of the tree, activation, the Windows pointer
  and shortcuts, and the report for the next boot. The process tables, the outcome of the file operations on
  \<open>current.txt\<close> and the report, the shortcut tool, and the launched program are parameters, collected in
  \<open>surroundings\<close>.
\<close>

section \<open>Command line\<close>

record apply_flags =
  af_root :: string
  af_version :: string
  af_staged :: string
  af_launch :: string
  af_health :: string
  af_result :: string
  af_wait :: string

definition default_flags :: apply_flags where
  "default_flags = \<lparr>af_root = [], af_version = [], af_staged = [], af_launch = [], af_health = ''60s'',
     af_result = [], af_wait = ''15m''\<rparr>"

text \<open>Setting a flag: None for an unknown flag or a duration that does not parse.\<close>

definition set_flag :: "(string \<Rightarrow> bool) \<Rightarrow> string \<Rightarrow> string \<Rightarrow> apply_flags \<Rightarrow> apply_flags option" where
  "set_flag dur_ok name v a =
     (if name = ''install-root'' then Some (a\<lparr>af_root := v\<rparr>)
      else if name = ''version'' then Some (a\<lparr>af_version := v\<rparr>)
      else if name = ''staged-dir'' then Some (a\<lparr>af_staged := v\<rparr>)
      else if name = ''launch'' then Some (a\<lparr>af_launch := v\<rparr>)
      else if name = ''health-timeout'' then (if dur_ok v then Some (a\<lparr>af_health := v\<rparr>) else None)
      else if name = ''result-file'' then Some (a\<lparr>af_result := v\<rparr>)
      else if name = ''wait-timeout'' then (if dur_ok v then Some (a\<lparr>af_wait := v\<rparr>) else None)
      else None)"

definition flag_names :: "string list" where
  "flag_names = [''install-root'', ''version'', ''staged-dir'', ''launch'', ''health-timeout'', ''result-file'', ''wait-timeout'']"

text \<open>
  The parser of Go's \<open>flag\<close> package for string-valued flags: one or two dashes, the value after \<open>=\<close> or in the
  next argument, ending at the first argument that is no flag. What was set before an error stays set.
\<close>

fun parse_apply :: "(string \<Rightarrow> bool) \<Rightarrow> string list \<Rightarrow> apply_flags \<Rightarrow> bool \<times> apply_flags" where
  "parse_apply dur_ok [] a = (True, a)"
| "parse_apply dur_ok (s # rest) a =
     (if length s < 2 \<or> hd s \<noteq> CHR ''-'' then (True, a)
      else if s = ''--'' then (True, a)
      else
        let name = (if s ! 1 = CHR ''-'' then drop 2 s else drop 1 s)
        in if name = [] \<or> hd name = CHR ''-'' \<or> hd name = CHR ''='' then (False, a)
           else case str_index ''='' name of
             Some i \<Rightarrow>
               (case set_flag dur_ok (take i name) (drop (i + 1) name) a of
                  None \<Rightarrow> (False, a)
                | Some a' \<Rightarrow> parse_apply dur_ok rest a')
           | None \<Rightarrow>
               (if name \<notin> set flag_names then (False, a)
                else case rest of
                  [] \<Rightarrow> (False, a)
                | v # rest' \<Rightarrow>
                    (case set_flag dur_ok name v a of
                       None \<Rightarrow> (False, a)
                     | Some a' \<Rightarrow> parse_apply dur_ok rest' a')))"

section \<open>Waiting for the application\<close>

definition appNames :: "bool \<Rightarrow> string list" where
  "appNames windows = (if windows then [''connective.exe'', ''connectived.exe''] else [''connective'', ''connectived''])"

definition requiredTreeFiles :: "bool \<Rightarrow> string list" where
  "requiredTreeFiles windows =
     (if windows then [''connective.exe'', ''connectived.exe'', ''sing-box.exe'', ''wintun.dll'']
      else [''connective'', ''connectived'', ''sing-box''])"

text \<open>An entry of \<open>/proc\<close>; the files of a process that has gone are None.\<close>

record proc_entry =
  pe_name :: string
  pe_dir :: bool
  pe_comm :: "string option"
  pe_cmdline :: "string option"

definition commMatches :: "string list \<Rightarrow> proc_entry \<Rightarrow> bool" where
  "commMatches want p = (case pe_comm p of None \<Rightarrow> False | Some s \<Rightarrow> trim_space s \<in> set want)"

definition cmdlineMatches :: "string list \<Rightarrow> proc_entry \<Rightarrow> bool" where
  "cmdlineMatches want p =
     (case pe_cmdline p of
        None \<Rightarrow> False
      | Some s \<Rightarrow> hd (split_on (CHR 0x00) s) \<noteq> [] \<and> base (hd (split_on (CHR 0x00) s)) \<in> set want)"

definition anyNamedAlive :: "int \<Rightarrow> proc_entry list option \<Rightarrow> string list \<Rightarrow> bool" where
  "anyNamedAlive self entries want =
     (case entries of
        None \<Rightarrow> True
      | Some es \<Rightarrow>
          list_ex (\<lambda>p. pe_dir p \<and> (case atoi (pe_name p) of None \<Rightarrow> False | Some n \<Rightarrow> n \<noteq> self) \<and>
             (commMatches want p \<or> cmdlineMatches want p)) es)"

text \<open>On Windows: what \<open>tasklist\<close> prints for each image name, None when it fails.\<close>

definition anyNamedAlive_windows :: "(string \<Rightarrow> string option) \<Rightarrow> string list \<Rightarrow> bool" where
  "anyNamedAlive_windows tasklist want =
     list_ex (\<lambda>n. case tasklist n of
        None \<Rightarrow> True
      | Some s \<Rightarrow> \<not> str_contains s ''INFO: No tasks'' \<and> str_contains s n) want"

text \<open>The polls: the deadline has passed after \<open>n\<close> more of them.\<close>

fun waitForNames :: "(nat \<Rightarrow> bool) \<Rightarrow> nat \<Rightarrow> nat \<Rightarrow> bool" where
  "waitForNames alive i 0 = (\<not> alive i)"
| "waitForNames alive i (Suc n) = (\<not> alive i \<or> waitForNames alive (Suc i) n)"

section \<open>The world of the updater\<close>

record install_state =
  is_fs :: fs
  is_links :: links
  is_txt :: "string option"
  is_result :: "result_update doc"

text \<open>
  \<open>su_wait\<close> and \<open>su_health\<close> are the numbers of polls within the deadlines; \<open>su_lnks\<close> are the shortcuts with
  whether they exist and what went wrong in rewriting them; \<open>su_started\<close> is whether a launched program
  starts, \<open>su_up\<close> whether it lives at each poll.
\<close>

record surroundings =
  su_windows :: bool
  su_self :: int
  su_procs :: "nat \<Rightarrow> proc_entry list option"
  su_tasks :: "nat \<Rightarrow> string \<Rightarrow> string option"
  su_wait :: nat
  su_tmp :: string
  su_fault :: "link_op \<Rightarrow> bool"
  su_txt :: bool
  su_lnks :: "(string \<times> bool \<times> string option) list"
  su_report :: bool
  su_now :: int
  su_started :: bool
  su_up :: "nat \<Rightarrow> bool"
  su_health :: nat
  su_fault2 :: "link_op \<Rightarrow> bool"

datatype updater_error =
    Usage
  | BadFlags
  | MissingArgs
  | AppRunning
  | UpdInstall install_error
  | FileMissing string string
  | NotExecutable string string
  | TxtBadVersion
  | TxtFailed
  | ShortcutsFailed "string list"
  | ReportFailed
  | LaunchFailed
  | HealthFailed install_error
  | RollbackAlsoFailed install_error install_error

definition app_alive :: "surroundings \<Rightarrow> nat \<Rightarrow> bool" where
  "app_alive e i =
     (if su_windows e then anyNamedAlive_windows (su_tasks e i) (appNames True)
      else anyNamedAlive (su_self e) (su_procs e i) (appNames False))"

section \<open>Steps\<close>

text \<open>The versions that are directories of the install root: what \<open>Activate\<close> stats.\<close>

definition assembled :: "string \<Rightarrow> fs \<Rightarrow> string set" where
  "assembled root fs =
     set (map last (filter (\<lambda>k. k \<noteq> [] \<and> butlast k = key_of (versionsDir root) \<and> map_of fs k = Some Dir) (map fst fs)))"

unbundle bit_operations_syntax

text \<open>73 is octal 111.\<close>

fun executable :: "node \<Rightarrow> bool" where
  "executable Dir = False"
| "executable (File p _) = (p AND 73 \<noteq> 0)"

fun check_files :: "bool \<Rightarrow> fs \<Rightarrow> string \<Rightarrow> string \<Rightarrow> string list \<Rightarrow> updater_error option" where
  "check_files windows fs dr ver [] = None"
| "check_files windows fs dr ver (n # ns) =
     (case map_of fs (key_of (path_join [dr, n])) of
        None \<Rightarrow> Some (FileMissing ver n)
      | Some Dir \<Rightarrow> Some (FileMissing ver n)
      | Some (File p d) \<Rightarrow>
          if \<not> windows \<and> \<not> executable (File p d) then Some (NotExecutable ver n)
          else check_files windows fs dr ver ns)"

definition checkTree :: "bool \<Rightarrow> string \<Rightarrow> string \<Rightarrow> fs \<Rightarrow> updater_error option" where
  "checkTree windows root ver fs =
     (case VersionDir root ver of
        Inl e \<Rightarrow> Some (UpdInstall e)
      | Inr dr \<Rightarrow> check_files windows fs dr ver (requiredTreeFiles windows))"

definition WriteResult :: "surroundings \<Rightarrow> string \<Rightarrow> string \<Rightarrow> bool \<Rightarrow> string \<Rightarrow> string \<Rightarrow> install_state \<Rightarrow> bool \<times> install_state" where
  "WriteResult e file ver ok err prv w =
     (if file = [] then (True, w)
      else if \<not> su_report e then (False, w)
      else (True, w\<lparr>is_result := Doc \<lparr>ru_version = ver, ru_ok = ok, ru_error = err, ru_prev = prv, ru_at = su_now e\<rparr>\<rparr>))"

definition WriteCurrentTxt :: "surroundings \<Rightarrow> string \<Rightarrow> install_state \<Rightarrow> updater_error option \<times> install_state" where
  "WriteCurrentTxt e ver w =
     (if \<not> is_ok (ParseVersion ver) \<or> contains_any ver [CHR ''/'', CHR 0x5C] then (Some TxtBadVersion, w)
      else if \<not> su_txt e then (Some TxtFailed, w)
      else (None, w\<lparr>is_txt := Some ver\<rparr>))"

definition ReadCurrentTxt :: "install_state \<Rightarrow> string" where
  "ReadCurrentTxt w = (case is_txt w of None \<Rightarrow> [] | Some s \<Rightarrow> trim_space s)"

fun oneLine :: "string \<Rightarrow> string" where
  "oneLine [] = []"
| "oneLine (c # s) = (if c = CHR 0x0A \<or> c = CHR 0x0D then [] else c # oneLine s)"

text \<open>The messages about the links that could not be rewritten; a link that does not exist is left alone.\<close>

definition rewriteShortcuts :: "(string \<times> bool \<times> string option) list \<Rightarrow> string list" where
  "rewriteShortcuts lnks =
     List.map_filter (\<lambda>(lnk, exists, out).
        if \<not> exists then None
        else case out of None \<Rightarrow> None | Some o1 \<Rightarrow> Some (lnk @ '': '' @ oneLine o1)) lnks"

text \<open>Step 3 on Windows: the pointer and the shortcuts.\<close>

definition point_windows :: "surroundings \<Rightarrow> string \<Rightarrow> install_state \<Rightarrow> updater_error option \<times> install_state" where
  "point_windows e ver w =
     (if \<not> su_windows e then (None, w)
      else case WriteCurrentTxt e ver w of
        (Some er, w') \<Rightarrow> (Some er, w')
      | (None, w') \<Rightarrow> (if rewriteShortcuts (su_lnks e) \<noteq> [] then Some (ShortcutsFailed (rewriteShortcuts (su_lnks e))) else None, w'))"

definition activate_step :: "surroundings \<Rightarrow> string \<Rightarrow> string \<Rightarrow> install_state \<Rightarrow> (install_error, string) res \<times> install_state" where
  "activate_step e root ver w =
     (case Activate (su_windows e) (su_fault e) root ver [(is_links w)\<lparr>l_trees := assembled root (is_fs w)\<rparr>] of
        (r, h) \<Rightarrow> (r, w\<lparr>is_links := hd h\<rparr>))"

definition launchAndCheck :: "surroundings \<Rightarrow> string \<Rightarrow> install_state \<Rightarrow> (updater_error, unit) res \<times> install_state" where
  "launchAndCheck e ver w =
     (if \<not> su_started e then (Inl LaunchFailed, w)
      else case await_healthy (\<lambda>i. su_up e i \<and> Current (is_links w) = ver) (\<lambda>_. False) (\<lambda>i. i \<ge> su_health e) 0 (Suc (su_health e)) of
        Some (Inl er) \<Rightarrow>
          (case Rollback (su_windows e) (su_fault2 e) [is_links w] of
             (Inl er2, h) \<Rightarrow> (Inl (RollbackAlsoFailed er er2), w\<lparr>is_links := hd h\<rparr>)
           | (Inr _, h) \<Rightarrow> (Inl (HealthFailed er), w\<lparr>is_links := hd h\<rparr>))
      | _ \<Rightarrow> (Inr (), w))"

text \<open>\<open>fail\<close>: the error, reported if there is a report file; an unwritable report is ignored.\<close>

definition fail_apply ::
    "surroundings \<Rightarrow> (updater_error \<Rightarrow> string) \<Rightarrow> apply_flags \<Rightarrow> updater_error \<Rightarrow> install_state \<Rightarrow> (updater_error, unit) res \<times> install_state" where
  "fail_apply e msg a er w = (Inl er, snd (WriteResult e (af_result a) (af_version a) False (msg er) [] w))"

text \<open>From the check of the tree on: the part the removal of the staging copy is deferred around.\<close>

definition install_step ::
    "surroundings \<Rightarrow> (updater_error \<Rightarrow> string) \<Rightarrow> apply_flags \<Rightarrow> install_state \<Rightarrow> (updater_error, unit) res \<times> install_state" where
  "install_step e msg a w =
     (case checkTree (su_windows e) (af_root a) (af_version a) (is_fs w) of
        Some er \<Rightarrow> fail_apply e msg a er w
      | None \<Rightarrow>
          (case activate_step e (af_root a) (af_version a) w of
             (Inl er, w1) \<Rightarrow> fail_apply e msg a (UpdInstall er) w1
           | (Inr prv, w1) \<Rightarrow>
               (case point_windows e (af_version a) w1 of
                  (Some er, w2) \<Rightarrow> fail_apply e msg a er w2
                | (None, w2) \<Rightarrow>
                    (case WriteResult e (af_result a) (af_version a) True [] prv w2 of
                       (False, w3) \<Rightarrow> (Inl ReportFailed, w3)
                     | (True, w3) \<Rightarrow>
                         if af_launch a = [] then (Inr (), w3) else launchAndCheck e (af_version a) w3))))"

definition runApply ::
    "surroundings \<Rightarrow> (string \<Rightarrow> bool) \<Rightarrow> (updater_error \<Rightarrow> string) \<Rightarrow> string list \<Rightarrow> install_state \<Rightarrow> (updater_error, unit) res \<times> install_state" where
  "runApply e dur_ok msg args w =
     (case parse_apply dur_ok args default_flags of
        (False, a) \<Rightarrow> fail_apply e msg a BadFlags w
      | (True, a) \<Rightarrow>
          if af_root a = [] \<or> af_version a = [] then fail_apply e msg a MissingArgs w
          else if \<not> waitForNames (app_alive e) 0 (su_wait e) then fail_apply e msg a AppRunning w
          else if af_staged a = [] then install_step e msg a w
          else case PromoteStaged (af_staged a) (af_root a) (af_version a) (su_tmp e) (is_fs w) of
            (Inl er, fs1) \<Rightarrow> fail_apply e msg a (UpdInstall er) (w\<lparr>is_fs := fs1\<rparr>)
          | (Inr _, fs1) \<Rightarrow>
              (case install_step e msg a (w\<lparr>is_fs := fs1\<rparr>) of
                 (r, w1) \<Rightarrow> (r, w1\<lparr>is_fs := remove_all (key_of (af_staged a)) (is_fs w1)\<rparr>)))"

definition updater_main ::
    "surroundings \<Rightarrow> (string \<Rightarrow> bool) \<Rightarrow> (updater_error \<Rightarrow> string) \<Rightarrow> string list \<Rightarrow> install_state \<Rightarrow> (updater_error, unit) res \<times> install_state" where
  "updater_main e dur_ok msg args w =
     (if args = [] \<or> hd args \<noteq> ''apply'' then (Inl Usage, w) else runApply e dur_ok msg (tl args) w)"

section \<open>Lemmas\<close>

lemma parse_named:
  assumes "name \<in> set flag_names"
  shows "parse_apply dur_ok ((CHR ''-'' # CHR ''-'' # name) # v # rest) a =
    (case set_flag dur_ok name v a of None \<Rightarrow> (False, a) | Some a' \<Rightarrow> parse_apply dur_ok rest a')"
proof -
  have "list_all (\<lambda>n. n \<noteq> [] \<and> hd n \<noteq> CHR ''-'' \<and> hd n \<noteq> CHR ''='' \<and> str_index ''='' n = None) flag_names"
    by code_simp
  then have "name \<noteq> [] \<and> hd name \<noteq> CHR ''-'' \<and> hd name \<noteq> CHR ''='' \<and> str_index ''='' name = None"
    using assms by (simp add: list_all_iff)
  then show ?thesis using assms by (simp add: Let_def)
qed

lemma flag_known [simp]:
  "''install-root'' \<in> set flag_names" "''version'' \<in> set flag_names" "''staged-dir'' \<in> set flag_names"
  "''result-file'' \<in> set flag_names" "''wait-timeout'' \<in> set flag_names"
  by (simp_all add: flag_names_def)

lemma parse_spawnArgs:
  assumes "dur_ok ''15m0s''"
  shows "parse_apply dur_ok (tl (tl (spawnArgs bin root ver staged fname))) default_flags =
    (True, default_flags\<lparr>af_root := root, af_version := ver, af_result := fname, af_wait := ''15m0s'', af_staged := staged\<rparr>)"
  using assms by (simp add: spawnArgs_def parse_named set_flag_def default_flags_def del: parse_apply.simps(2))

lemma unparsed_empty: "\<not> is_ok (ParseVersion [])"
  by code_simp

lemma waitForNames_ok: "waitForNames alive i n \<Longrightarrow> \<exists>j. i \<le> j \<and> j \<le> i + n \<and> \<not> alive j"
proof (induction n arbitrary: i)
  case (Suc n)
  then show ?case
  proof (cases "alive i")
    case True
    then obtain j where "Suc i \<le> j" "j \<le> Suc i + n" "\<not> alive j" using Suc.IH [of "Suc i"] Suc.prems by auto
    then show ?thesis by (intro exI [of _ j]) simp
  qed (auto intro: exI [of _ i])
qed auto

lemma Activate_result:
  assumes "Activate windows fault root target [s] = (r, h)"
  shows "is_ok r \<Longrightarrow> Current (hd h) = target"
    and "\<not> is_ok r \<Longrightarrow> \<not> windows \<Longrightarrow> l_current (hd h) = l_current s"
proof -
  have ne: "[s] \<noteq> []" by simp
  from assms ne have "(is_ok r \<longrightarrow> Current (hd h) = target) \<and> (\<not> is_ok r \<and> \<not> windows \<longrightarrow> l_current (hd h) = l_current s)"
  proof (cases rule: Activate_cases)
    case (switch h1 a)
    note res = switch_result [OF switch(5,4)]
    show ?thesis using res(1,2) switch(6) link_name(2) [OF switch(2,3)]
      by (cases r) (auto simp: Current_def)
  qed simp_all
  then show "is_ok r \<Longrightarrow> Current (hd h) = target"
    and "\<not> is_ok r \<Longrightarrow> \<not> windows \<Longrightarrow> l_current (hd h) = l_current s" by blast+
qed

lemma check_files_ok:
  "check_files windows fs dr ver ns = None \<Longrightarrow> n \<in> set ns \<Longrightarrow>
   \<exists>p d. map_of fs (key_of (path_join [dr, n])) = Some (File p d) \<and> (windows \<or> executable (File p d))"
proof (induction ns)
  case (Cons m ns)
  obtain p d where f: "map_of fs (key_of (path_join [dr, m])) = Some (File p d)" "windows \<or> executable (File p d)"
    "check_files windows fs dr ver ns = None"
    using Cons.prems(1) by (auto split: option.splits node.splits if_splits)
  then show ?case using Cons by (cases "n = m") auto
qed simp

lemma required_elem: "n \<in> set (requiredTreeFiles windows) \<Longrightarrow> elem_ok n \<and> n \<noteq> dotdot"
  by (auto simp: requiredTreeFiles_def elem_ok_def dot_def dotdot_def split: if_splits)

lemma checkTree_ok:
  assumes "checkTree windows root ver fs = None" "is_abs root" "n \<in> set (requiredTreeFiles windows)"
  shows "\<exists>p d. map_of fs (key_of root @ [''versions'', ver, n]) = Some (File p d) \<and> (windows \<or> executable (File p d))"
proof -
  obtain dr where dr: "VersionDir root ver = Inr dr" "check_files windows fs dr ver (requiredTreeFiles windows) = None"
    using assms(1) by (auto simp: checkTree_def split: sum.splits)
  note k = version_key [OF assms(2) dr(1)] and e = required_elem [OF assms(3)]
  have "key_of (path_join [dr, n]) = key_of root @ [''versions'', ver, n]" using join_elem(2) [OF k(1)] e k(2) by simp
  with check_files_ok [OF dr(2) assms(3)] show ?thesis by simp
qed

lemma fail_apply_result:
  "fail_apply e msg a er w = (r, w') \<Longrightarrow> su_report e \<Longrightarrow> af_result a \<noteq> [] \<Longrightarrow>
   r = Inl er \<and> (\<exists>d. is_result w' = Doc d \<and> ru_version d = af_version a \<and> \<not> ru_ok d) \<and>
   is_fs w' = is_fs w \<and> is_links w' = is_links w \<and> is_txt w' = is_txt w"
  by (auto simp: fail_apply_def WriteResult_def)

lemma point_windows_result:
  "point_windows e ver w = (x, w') \<Longrightarrow> is_fs w' = is_fs w \<and> is_links w' = is_links w \<and> is_result w' = is_result w \<and>
   (x = None \<and> su_windows e \<longrightarrow> is_txt w' = Some ver) \<and> (\<not> su_windows e \<longrightarrow> x = None)"
  by (auto simp: point_windows_def WriteCurrentTxt_def split: if_splits)

definition reports :: "apply_flags \<Rightarrow> bool \<Rightarrow> install_state \<Rightarrow> bool" where
  "reports a ok w \<longleftrightarrow> (\<exists>d. is_result w = Doc d \<and> ru_version d = af_version a \<and> ru_ok d = ok)"

lemma install_step_result:
  assumes step: "install_step e msg a w = (r, w')" and "af_launch a = []" and rep: "su_report e" "af_result a \<noteq> []"
  shows "reports a (is_ok r) w' \<and> is_fs w' = is_fs w \<and>
    (is_ok r \<longrightarrow> Current (is_links w') = af_version a \<and> checkTree (su_windows e) (af_root a) (af_version a) (is_fs w) = None \<and>
       (su_windows e \<longrightarrow> is_txt w' = Some (af_version a))) \<and>
    (\<not> is_ok r \<and> \<not> su_windows e \<longrightarrow> l_current (is_links w') = l_current (is_links w))"
proof (cases "checkTree (su_windows e) (af_root a) (af_version a) (is_fs w)")
  case (Some er)
  then show ?thesis using step fail_apply_result [of e msg a er w r w'] rep by (auto simp: install_step_def reports_def)
next
  case None
  obtain x h where act: "Activate (su_windows e) (su_fault e) (af_root a) (af_version a)
      [(is_links w)\<lparr>l_trees := assembled (af_root a) (is_fs w)\<rparr>] = (x, h)" by fastforce
  note ares = Activate_result [OF act]
  have st: "activate_step e (af_root a) (af_version a) w = (x, w\<lparr>is_links := hd h\<rparr>)" by (simp add: activate_step_def act)
  show ?thesis
  proof (cases x)
    case (Inl er)
    then have f: "fail_apply e msg a (UpdInstall er) (w\<lparr>is_links := hd h\<rparr>) = (r, w')" using step None st by (simp add: install_step_def)
    show ?thesis using fail_apply_result [OF f rep] ares(2) Inl by (auto simp: reports_def)
  next
    case (Inr prv)
    obtain y w2 where pw: "point_windows e (af_version a) (w\<lparr>is_links := hd h\<rparr>) = (y, w2)" by fastforce
    note pres = point_windows_result [OF pw]
    show ?thesis
    proof (cases y)
      case (Some er)
      then have f: "fail_apply e msg a er w2 = (r, w')" using step None st Inr pw by (simp add: install_step_def)
      show ?thesis using fail_apply_result [OF f rep] pres Some by (auto simp: reports_def)
    next
      case y: None
      then show ?thesis using step None st Inr pw pres ares(1) assms(2) rep
        by (auto simp: install_step_def WriteResult_def reports_def)
    qed
  qed
qed

lemma runApply_result:
  assumes run: "runApply e dur_ok msg args w = (r, w')" and p: "parse_apply dur_ok args default_flags = (True, a)"
    and a: "af_root a \<noteq> []" "af_version a \<noteq> []" "af_launch a = []" and rp: "su_report e" "af_result a \<noteq> []"
    and apart: "af_staged a \<noteq> [] \<longrightarrow>
      \<not> (\<exists>n. prefix (key_of (af_staged a)) (key_of (af_root a) @ [''versions'', af_version a, n]))"
  shows "reports a (is_ok r) w' \<and>
      (is_ok r \<longrightarrow> waitForNames (app_alive e) 0 (su_wait e) \<and> Current (is_links w') = af_version a \<and>
         (su_windows e \<longrightarrow> is_txt w' = Some (af_version a)) \<and>
         (\<exists>fs. checkTree (su_windows e) (af_root a) (af_version a) fs = None \<and>
            (\<forall>n. map_of (is_fs w') (key_of (af_root a) @ [''versions'', af_version a, n]) =
              map_of fs (key_of (af_root a) @ [''versions'', af_version a, n])))) \<and>
      (\<not> is_ok r \<and> \<not> su_windows e \<longrightarrow> l_current (is_links w') = l_current (is_links w))"
proof (cases "waitForNames (app_alive e) 0 (su_wait e)")
  case False
  then have "fail_apply e msg a AppRunning w = (r, w')" using run p a by (simp add: runApply_def)
  from fail_apply_result [OF this rp] show ?thesis by (auto simp: reports_def)
next
  case True
  show ?thesis
  proof (cases "af_staged a = []")
    case st: True
    then have "install_step e msg a w = (r, w')" using run p a True by (simp add: runApply_def)
    from install_step_result [OF this a(3) rp] True show ?thesis by auto
  next
    case st: False
    obtain x fs1 where pr: "PromoteStaged (af_staged a) (af_root a) (af_version a) (su_tmp e) (is_fs w) = (x, fs1)" by fastforce
    show ?thesis
    proof (cases x)
      case (Inl er)
      then have "fail_apply e msg a (UpdInstall er) (w\<lparr>is_fs := fs1\<rparr>) = (r, w')" using run p a True st pr by (simp add: runApply_def)
      from fail_apply_result [OF this rp] show ?thesis by (auto simp: reports_def)
    next
      case (Inr u)
      obtain r1 w1 where ins: "install_step e msg a (w\<lparr>is_fs := fs1\<rparr>) = (r1, w1)" by fastforce
      then have w': "r = r1" "w' = w1\<lparr>is_fs := remove_all (key_of (af_staged a)) (is_fs w1)\<rparr>"
        using run p a True st pr Inr by (simp_all add: runApply_def)
      note res = install_step_result [OF ins a(3) rp]
      have "map_of (is_fs w') (key_of (af_root a) @ [''versions'', af_version a, n]) =
          map_of fs1 (key_of (af_root a) @ [''versions'', af_version a, n])" for n
        using res apart st w' by (auto simp: map_of_remove_all)
      then show ?thesis using res w' True by (auto simp: reports_def)
    qed
  qed
qed

section \<open>Properties\<close>

text \<open>
  C14. What the next start announces is what the updater did. Run with the arguments the daemon passes, the
  updater always leaves a report that the boot announces, for this version, as a success exactly when it
  succeeded. Success means that the application was seen closed, every required file of the version is in
  place (and executable on Unix), \<open>current\<close> names the version and on Windows \<open>current.txt\<close> does; after an
  announced failure on Unix \<open>current\<close> is what it was. Assumed are a version that parses, an absolute root, a writable report
  and a staging copy that does not contain the installed version.
\<close>

theorem announced_is_installed:
  assumes run: "updater_main e dur_ok msg (tl (spawnArgs bin root ver staged fname)) w = (r, w')"
    and args: "dur_ok ''15m0s''" "fname \<noteq> []" "is_abs root" "is_ok (ParseVersion ver)"
    and rep: "su_report e"
    and apart: "staged \<noteq> [] \<Longrightarrow> \<not> (\<exists>n. prefix (key_of staged) (key_of root @ [''versions'', ver, n]))"
  shows "\<exists>sd. snd (reconcileBoot \<lparr>hf_pending = pend, hf_result = is_result w'\<rparr>) = Some sd \<and>
    seed_version sd = ver \<and> seed_ok sd = is_ok r \<and>
    (is_ok r \<longrightarrow> (\<exists>i \<le> su_wait e. \<not> app_alive e i) \<and> Current (is_links w') = ver \<and>
       (su_windows e \<longrightarrow> is_txt w' = Some ver) \<and>
       (\<forall>n \<in> set (requiredTreeFiles (su_windows e)). \<exists>p d.
          map_of (is_fs w') (key_of root @ [''versions'', ver, n]) = Some (File p d) \<and>
          (su_windows e \<or> executable (File p d)))) \<and>
    (\<not> is_ok r \<and> \<not> su_windows e \<longrightarrow> l_current (is_links w') = l_current (is_links w))"
proof -
  define a where "a = default_flags\<lparr>af_root := root, af_version := ver, af_result := fname, af_wait := ''15m0s'', af_staged := staged\<rparr>"
  have a: "af_root a = root" "af_version a = ver" "af_result a = fname" "af_staged a = staged" "af_launch a = []"
    by (simp_all add: a_def default_flags_def)
  have ne: "root \<noteq> []" "ver \<noteq> []" using args(3,4) unparsed_empty by (auto simp: is_abs_def has_prefix_def)
  have arga: "tl (spawnArgs bin root ver staged fname) \<noteq> []" "hd (tl (spawnArgs bin root ver staged fname)) = ''apply''"
    by (simp_all add: spawnArgs_def)
  have p: "parse_apply dur_ok (tl (tl (spawnArgs bin root ver staged fname))) default_flags = (True, a)"
    unfolding a_def by (rule parse_spawnArgs [of dur_ok, OF args(1)])
  have ra: "runApply e dur_ok msg (tl (tl (spawnArgs bin root ver staged fname))) w = (r, w')"
    using run arga by (simp add: updater_main_def)
  have rp: "su_report e" "af_result a \<noteq> []" using rep args(2) a by simp_all
  have sep: "staged \<noteq> [] \<longrightarrow> \<not> (\<exists>n. prefix (key_of staged) (key_of root @ [''versions'', ver, n]))"
    using apart by blast
  note main = runApply_result [OF ra p _ _ a(5) rp, unfolded a, OF ne sep]
  from main obtain d where d: "is_result w' = Doc d" "ru_version d = ver" "ru_ok d = is_ok r" using a by (auto simp: reports_def)
  obtain v where v: "ParseVersion ver = Inr v" using args(4) by (auto simp: is_ok_iff)
  have seed: "snd (reconcileBoot \<lparr>hf_pending = pend, hf_result = is_result w'\<rparr>) =
      Some \<lparr>seed_version = ver, seed_ok = is_ok r, seed_err = ru_error d\<rparr>"
    using d v ne by (simp add: reconcileBoot_def Let_def)
  have closed: "\<exists>i \<le> su_wait e. \<not> app_alive e i" if "is_ok r"
    using main that waitForNames_ok [of "app_alive e" 0 "su_wait e"] by auto
  have filesok: "\<forall>n \<in> set (requiredTreeFiles (su_windows e)). \<exists>p d.
      map_of (is_fs w') (key_of root @ [''versions'', ver, n]) = Some (File p d) \<and> (su_windows e \<or> executable (File p d))" if ok: "is_ok r"
  proof
    fix n assume n: "n \<in> set (requiredTreeFiles (su_windows e))"
    obtain fs where c: "checkTree (su_windows e) root ver fs = None"
      and k: "map_of (is_fs w') (key_of root @ [''versions'', ver, n]) = map_of fs (key_of root @ [''versions'', ver, n])"
      using main ok by blast
    show "\<exists>p d. map_of (is_fs w') (key_of root @ [''versions'', ver, n]) = Some (File p d) \<and> (su_windows e \<or> executable (File p d))"
      unfolding k by (rule checkTree_ok [OF c args(3) n])
  qed
  show ?thesis using seed main closed filesok by auto
qed

definition quiet :: surroundings where
  "quiet = \<lparr>su_windows = False, su_self = 7, su_procs = (\<lambda>_. Some []), su_tasks = (\<lambda>_ _. None), su_wait = 2,
     su_tmp = ''/opt/c/versions/promote-1'', su_fault = (\<lambda>_. False), su_txt = True, su_lnks = [], su_report = True,
     su_now = 5, su_started = True, su_up = (\<lambda>_. False), su_health = 1, su_fault2 = (\<lambda>_. False)\<rparr>"

definition install_example :: install_state where
  "install_example = \<lparr>is_fs =
      [([''opt''], Dir), ([''opt'', ''c''], Dir), ([''opt'', ''c'', ''versions''], Dir), ([''opt'', ''c'', ''versions'', ''6.0''], Dir),
       ([''s''], Dir), ([''s'', ''6.1''], Dir), ([''s'', ''6.1'', ''connective''], File 493 ''a''),
       ([''s'', ''6.1'', ''connectived''], File 493 ''b''), ([''s'', ''6.1'', ''sing-box''], File 493 ''c'')],
     is_links = \<lparr>l_trees = {}, l_current = Some ''versions/6.0'', l_previous = None, l_tmp = None\<rparr>,
     is_txt = None, is_result = Absent\<rparr>"

theorem announced_is_installed_witness:
  "\<exists>w'. updater_main quiet (\<lambda>_. True) (\<lambda>_. ''e'') (tl (spawnArgs ''u'' ''/opt/c'' ''6.1'' ''/s/6.1'' ''/d/r'')) install_example = (Inr (), w') \<and>
     Current (is_links w') = ''6.1'' \<and> map_of (is_fs w') [''s'', ''6.1''] = None \<and>
     (\<exists>sd. snd (reconcileBoot \<lparr>hf_pending = Absent, hf_result = is_result w'\<rparr>) = Some sd \<and> seed_ok sd)"
proof -
  let ?u = "updater_main quiet (\<lambda>_. True) (\<lambda>_. ''e'') (tl (spawnArgs ''u'' ''/opt/c'' ''6.1'' ''/s/6.1'' ''/d/r'')) install_example"
  have f: "fst ?u = Inr ()" "map_of (is_fs (snd ?u)) [''s'', ''6.1''] = None" by code_simp+
  obtain r w' where u: "?u = (r, w')" by fastforce
  have k: "is_abs ''/opt/c''" "is_ok (ParseVersion ''6.1'')" "key_of ''/s/6.1'' = [''s'', ''6.1'']" "key_of ''/opt/c'' = [''opt'', ''c'']"
    by code_simp+
  have "su_report quiet" by (simp add: quiet_def)
  with announced_is_installed [OF u _ _ k(1,2), of Absent] f u k show ?thesis by auto
qed

text \<open>
  With \<open>--launch\<close> a failed health check rolls the version back after the success has been reported: the next
  start announces a version that is not current.
\<close>

lemma rolled_back_but_announced:
  "let u = updater_main quiet (\<lambda>_. True) (\<lambda>_. ''e'')
       (tl (spawnArgs ''u'' ''/opt/c'' ''6.1'' ''/s/6.1'' ''/d/r'') @ [''--launch'', ''x'']) install_example
   in fst u = Inl (HealthFailed Unhealthy) \<and> Current (is_links (snd u)) = ''6.0'' \<and>
      is_result (snd u) = Doc \<lparr>ru_version = ''6.1'', ru_ok = True, ru_error = [], ru_prev = ''6.0'', ru_at = 5\<rparr>"
  by code_simp

text \<open>
  A staging copy that already is the installed tree is skipped by the promotion and then removed: the updater
  succeeds and leaves \<open>current\<close> pointing at nothing.
\<close>

lemma in_place_tree_is_removed:
  "let w = install_example\<lparr>is_fs := [([''opt''], Dir), ([''opt'', ''c''], Dir), ([''opt'', ''c'', ''versions''], Dir),
         ([''opt'', ''c'', ''versions'', ''6.1''], Dir), ([''opt'', ''c'', ''versions'', ''6.1'', ''connective''], File 493 ''a''),
         ([''opt'', ''c'', ''versions'', ''6.1'', ''connectived''], File 493 ''b''), ([''opt'', ''c'', ''versions'', ''6.1'', ''sing-box''], File 493 ''c'')]\<rparr>;
       u = updater_main quiet (\<lambda>_. True) (\<lambda>_. ''e'') (tl (spawnArgs ''u'' ''/opt/c'' ''6.1'' ''/opt/c/versions/6.1'' ''/d/r'')) w
   in fst u = Inr () \<and> Current (is_links (snd u)) = ''6.1'' \<and> map_of (is_fs (snd u)) [''opt'', ''c'', ''versions'', ''6.1''] = None"
  by code_simp

text \<open>
  On Windows a shortcut that cannot be rewritten makes the updater report a failed update although the new
  version is active.
\<close>

lemma failure_announced_although_active:
  "let e = quiet\<lparr>su_windows := True, su_tasks := (\<lambda>_ _. Some ''INFO: No tasks''), su_lnks := [(''l'', True, Some ''denied'')]\<rparr>;
       w = install_example\<lparr>is_fs := [([''s''], Dir), ([''s'', ''6.1''], Dir), ([''s'', ''6.1'', ''connective.exe''], File 438 ''a''),
         ([''s'', ''6.1'', ''connectived.exe''], File 438 ''b''), ([''s'', ''6.1'', ''sing-box.exe''], File 438 ''c''), ([''s'', ''6.1'', ''wintun.dll''], File 438 ''d'')]\<rparr>;
       u = updater_main e (\<lambda>_. True) (\<lambda>_. ''e'') (tl (spawnArgs ''u'' ''/opt/c'' ''6.1'' ''/s/6.1'' ''/d/r'')) w
   in fst u = Inl (ShortcutsFailed [''l: denied'']) \<and> Current (is_links (snd u)) = ''6.1'' \<and> is_txt (snd u) = Some ''6.1'' \<and>
      is_result (snd u) = Doc \<lparr>ru_version = ''6.1'', ru_ok = False, ru_error = ''e'', ru_prev = [], ru_at = 5\<rparr>"
  by code_simp

end
