(* ===== verification/Ipc.thy ===== *)
theory Ipc
  imports Prelude "HOL-Library.Multiset"
begin

text \<open>
  The boundary to the user interface (\<open>ipc/ipc.go\<close>): one state per connection with its send channel, the
  reading loop, the handler goroutines, the writer and the teardown, and a step relation over them; a server
  is a list of connections. JSON decoding is a parameter (\<open>decode\<close>: whether a line decodes, and the fields it
  set), and a handler may answer anything.
\<close>

definition IpcVersion :: string where "IpcVersion = ''1''"

record message =
  ms_v :: string
  ms_id :: string
  ms_type :: string
  ms_payload :: string
  ms_error :: string

text \<open>The methods of the protocol, the events, and the methods the daemon registers handlers for, in its order.\<close>

definition ipc_methods :: "string list" where
  "ipc_methods =
   [''ping'', ''state.get'', ''connection.connect'', ''connection.disconnect'', ''servers.select'',
     ''servers.list'', ''servers.test'', ''servers.add'', ''servers.update'', ''servers.remove'',
     ''servers.duplicate'', ''servers.export'', ''subscriptions.list'', ''subscriptions.edit'',
     ''subscriptions.add'', ''subscriptions.update'', ''subscriptions.remove'', ''settings.get'',
     ''settings.update'', ''logs.get'', ''logs.clear'', ''stats.get'', ''apps.list'', ''ui.get'',
     ''ui.update'', ''update.check'', ''update.status'', ''update.download'', ''update.cancel'',
     ''update.install'', ''update.dismiss'']"

definition ipc_events :: "string list" where
  "ipc_events =
   [''event.state'', ''event.servers'', ''event.stats'', ''event.log'', ''event.health'',
     ''event.subscriptions'', ''event.update'']"

definition registerHandlers :: "string list" where
  "registerHandlers =
   [''ping'', ''state.get'', ''settings.get'', ''settings.update'', ''logs.get'', ''logs.clear'',
     ''connection.connect'', ''connection.disconnect'', ''servers.list'', ''servers.select'',
     ''servers.test'', ''servers.add'', ''servers.update'', ''servers.remove'', ''servers.duplicate'',
     ''servers.export'', ''subscriptions.add'', ''subscriptions.list'', ''subscriptions.edit'',
     ''subscriptions.update'', ''subscriptions.remove'', ''stats.get'', ''apps.list'', ''ui.get'',
     ''ui.update'', ''update.check'', ''update.status'', ''update.download'', ''update.cancel'',
     ''update.install'', ''update.dismiss'']"

text \<open>What the reading loop does with a line: an immediate reply or a handler of its own.\<close>

datatype verdict = Answer message | Spawn message

definition dispatch :: "string set \<Rightarrow> bool \<times> message \<Rightarrow> verdict" where
  "dispatch methods dec =
     (case dec of (ok, req) \<Rightarrow>
        if \<not> ok then Answer \<lparr>ms_v = IpcVersion, ms_id = ms_id req, ms_type = [], ms_payload = [], ms_error = ''bad frame''\<rparr>
        else if ms_v req \<noteq> IpcVersion then
          Answer \<lparr>ms_v = IpcVersion, ms_id = ms_id req, ms_type = [], ms_payload = [], ms_error = ''ipc version mismatch''\<rparr>
        else if ms_type req \<notin> methods then
          Answer \<lparr>ms_v = IpcVersion, ms_id = ms_id req, ms_type = ms_type req, ms_payload = [],
            ms_error = ''unknown method '' @ ms_type req\<rparr>
        else Spawn req)"

definition response :: "message \<Rightarrow> (string, string) res \<Rightarrow> message" where
  "response req out =
     (case out of
        Inl e \<Rightarrow> \<lparr>ms_v = IpcVersion, ms_id = ms_id req, ms_type = ms_type req, ms_payload = [], ms_error = e\<rparr>
      | Inr p \<Rightarrow> \<lparr>ms_v = IpcVersion, ms_id = ms_id req, ms_type = ms_type req, ms_payload = p, ms_error = []\<rparr>)"

definition event_frame :: "string \<Rightarrow> string \<Rightarrow> message" where
  "event_frame ev p = \<lparr>ms_v = IpcVersion, ms_id = [], ms_type = ev, ms_payload = p, ms_error = []\<rparr>"

section \<open>A connection\<close>

text \<open>Where \<open>serveConn\<close> is: not yet registered, reading, sending a reply itself, and the deferred teardown.\<close>

datatype reader = Starting | Reading | Sending message | Unregistered | Signalled | Drained | Closed

text \<open>The channel keeps apart what answers a frame and what is an event; \<open>cn_panic\<close> marks a send on the closed channel.\<close>

datatype item = Reply message | Event message

definition reply_of :: "item \<Rightarrow> message option" where
  "reply_of x = (case x of Reply m \<Rightarrow> Some m | Event _ \<Rightarrow> None)"

definition replies :: "item list \<Rightarrow> string multiset" where
  "replies xs = mset (map ms_id (List.map_filter reply_of xs))"

record conn =
  cn_reader :: reader
  cn_subbed :: bool
  cn_open :: bool
  cn_done :: bool
  cn_net :: bool
  cn_queue :: "item list"
  cn_flight :: "message list"
  cn_writer :: bool
  cn_read :: "message list"
  cn_sent :: "item list"
  cn_panic :: bool

definition fresh_conn :: conn where
  "fresh_conn = \<lparr>cn_reader = Starting, cn_subbed = False, cn_open = True, cn_done = False, cn_net = True, cn_queue = [],
     cn_flight = [], cn_writer = True, cn_read = [], cn_sent = [], cn_panic = False\<rparr>"

definition capacity :: nat where "capacity = 256"

text \<open>A send that is possible now: into the open channel with room, or the panic.\<close>

definition push :: "item \<Rightarrow> conn \<Rightarrow> conn option" where
  "push x c =
     (if \<not> cn_open c then Some (c\<lparr>cn_panic := True\<rparr>)
      else if length (cn_queue c) < capacity then Some (c\<lparr>cn_queue := cn_queue c @ [x]\<rparr>)
      else None)"

text \<open>\<open>Broadcast\<close> for one connection: a slow client is dropped.\<close>

definition broadcast_to :: "message \<Rightarrow> conn \<Rightarrow> conn" where
  "broadcast_to m c =
     (if \<not> cn_subbed c then c
      else case push (Event m) c of Some c' \<Rightarrow> c' | None \<Rightarrow> c\<lparr>cn_net := False, cn_subbed := False\<rparr>)"

inductive conn_step :: "(string \<Rightarrow> bool \<times> message) \<Rightarrow> string set \<Rightarrow> conn \<Rightarrow> conn \<Rightarrow> bool" for decode methods where
  register: "cn_reader c = Starting \<Longrightarrow> conn_step decode methods c (c\<lparr>cn_reader := Reading, cn_subbed := True\<rparr>)"
| read_spawn: "cn_reader c = Reading \<Longrightarrow> dispatch methods (decode line) = Spawn req \<Longrightarrow>
    conn_step decode methods c (c\<lparr>cn_flight := req # cn_flight c, cn_read := snd (decode line) # cn_read c\<rparr>)"
| read_answer: "cn_reader c = Reading \<Longrightarrow> dispatch methods (decode line) = Answer m \<Longrightarrow>
    conn_step decode methods c (c\<lparr>cn_reader := Sending m, cn_read := snd (decode line) # cn_read c\<rparr>)"
| send_answer: "cn_reader c = Sending m \<Longrightarrow> push (Reply m) c = Some c' \<Longrightarrow>
    conn_step decode methods c (c'\<lparr>cn_reader := Reading\<rparr>)"
| read_end: "cn_reader c = Reading \<Longrightarrow>
    conn_step decode methods c (c\<lparr>cn_reader := Unregistered, cn_subbed := False\<rparr>)"
| signal: "cn_reader c = Unregistered \<Longrightarrow> conn_step decode methods c (c\<lparr>cn_reader := Signalled, cn_done := True\<rparr>)"
| drain: "cn_reader c = Signalled \<Longrightarrow> cn_flight c = [] \<Longrightarrow> conn_step decode methods c (c\<lparr>cn_reader := Drained\<rparr>)"
| close_send: "cn_reader c = Drained \<Longrightarrow>
    conn_step decode methods c (c\<lparr>cn_reader := Closed, cn_open := False, cn_net := False\<rparr>)"
| answer: "req \<in> set (cn_flight c) \<Longrightarrow> push (Reply (response req out)) c = Some c' \<Longrightarrow>
    conn_step decode methods c (c'\<lparr>cn_flight := remove1 req (cn_flight c)\<rparr>)"
| forget: "req \<in> set (cn_flight c) \<Longrightarrow> cn_done c \<Longrightarrow>
    conn_step decode methods c (c\<lparr>cn_flight := remove1 req (cn_flight c)\<rparr>)"
| publish: "conn_step decode methods c (broadcast_to m c)"
| deliver: "cn_writer c \<Longrightarrow> cn_net c \<Longrightarrow> cn_queue c = x # q \<Longrightarrow>
    conn_step decode methods c (c\<lparr>cn_queue := q, cn_sent := cn_sent c @ [x]\<rparr>)"
| lose: "cn_writer c \<Longrightarrow> cn_queue c = x # q \<Longrightarrow> conn_step decode methods c (c\<lparr>cn_queue := q\<rparr>)"
| writer_fails: "cn_writer c \<Longrightarrow> cn_queue c = x # q \<Longrightarrow> conn_step decode methods c (c\<lparr>cn_queue := q, cn_writer := False\<rparr>)"
| writer_ends: "cn_writer c \<Longrightarrow> cn_queue c = [] \<Longrightarrow> \<not> cn_open c \<Longrightarrow> conn_step decode methods c (c\<lparr>cn_writer := False\<rparr>)"
| hang_up: "conn_step decode methods c (c\<lparr>cn_net := False\<rparr>)"

section \<open>The server\<close>

text \<open>\<open>Close\<close>: the listener is closed, the registered connections are, and the goroutines are waited for.\<close>

datatype serving = Serving | Stopping | Swept | Stopped

record server_state =
  sv_conns :: "conn list"
  sv_serving :: serving

definition sweep :: "conn \<Rightarrow> conn" where
  "sweep c = (if cn_subbed c then c\<lparr>cn_net := False\<rparr> else c)"

inductive server_step :: "(string \<Rightarrow> bool \<times> message) \<Rightarrow> string set \<Rightarrow> server_state \<Rightarrow> server_state \<Rightarrow> bool" for decode methods where
  accept: "sv_serving s = Serving \<Longrightarrow> server_step decode methods s (s\<lparr>sv_conns := sv_conns s @ [fresh_conn]\<rparr>)"
| move: "i < length (sv_conns s) \<Longrightarrow> conn_step decode methods (sv_conns s ! i) c \<Longrightarrow>
    server_step decode methods s (s\<lparr>sv_conns := (sv_conns s)[i := c]\<rparr>)"
| broadcast: "server_step decode methods s (s\<lparr>sv_conns := map (broadcast_to m) (sv_conns s)\<rparr>)"
| close_listener: "sv_serving s = Serving \<Longrightarrow> server_step decode methods s (s\<lparr>sv_serving := Stopping\<rparr>)"
| close_conns: "sv_serving s = Stopping \<Longrightarrow>
    server_step decode methods s (s\<lparr>sv_conns := map sweep (sv_conns s), sv_serving := Swept\<rparr>)"
| stopped: "sv_serving s = Swept \<Longrightarrow> list_all (\<lambda>c. cn_reader c = Closed) (sv_conns s) \<Longrightarrow>
    server_step decode methods s (s\<lparr>sv_serving := Stopped\<rparr>)"

inductive server_runs :: "(string \<Rightarrow> bool \<times> message) \<Rightarrow> string set \<Rightarrow> server_state \<Rightarrow> bool" for decode methods where
  server_start: "server_runs decode methods \<lparr>sv_conns = [], sv_serving = Serving\<rparr>"
| server_next: "server_runs decode methods s \<Longrightarrow> server_step decode methods s s' \<Longrightarrow> server_runs decode methods s'"

section \<open>The client\<close>

text \<open>\<open>Call\<close> from the reply lines on: the id of the request, and what it makes of the lines.\<close>

datatype call_error = BadReply | CallError string | CallClosed

fun await_reply :: "(string \<Rightarrow> bool \<times> message) \<Rightarrow> string \<Rightarrow> string list \<Rightarrow> (call_error, string) res" where
  "await_reply decode rid [] = Inl CallClosed"
| "await_reply decode rid (l # ls) =
     (case decode l of (ok, resp) \<Rightarrow>
        if \<not> ok then Inl BadReply
        else if ms_id resp \<noteq> rid then await_reply decode rid ls
        else if ms_error resp \<noteq> [] then Inl (CallError (ms_error resp))
        else Inr (ms_payload resp))"

section \<open>Lemmas\<close>

lemma dispatch_id:
  "dispatch methods dec = Spawn req \<Longrightarrow> req = snd dec"
  "dispatch methods dec = Answer m \<Longrightarrow> ms_id m = ms_id (snd dec)"
  by (auto simp: dispatch_def split: prod.splits if_splits)

lemma response_id [simp]: "ms_id (response req out) = ms_id req"
  by (simp add: response_def split: sum.split)

lemma replies_simps [simp]:
  "replies [] = {#}" "replies (xs @ ys) = replies xs + replies ys"
  "replies (Reply m # xs) = add_mset (ms_id m) (replies xs)" "replies (Event m # xs) = replies xs"
  by (simp_all add: replies_def reply_of_def List.map_filter_def)

definition pending :: "conn \<Rightarrow> string multiset" where
  "pending c = replies (cn_sent c) + replies (cn_queue c) + mset (map ms_id (cn_flight c)) +
     (case cn_reader c of Sending m \<Rightarrow> {#ms_id m#} | _ \<Rightarrow> {#})"

text \<open>The discipline of the channel, and that every reply belongs to a frame of its own.\<close>

definition channel_ok :: "conn \<Rightarrow> bool" where
  "channel_ok c \<longleftrightarrow> \<not> cn_panic c \<and> length (cn_queue c) \<le> capacity \<and>
     (\<not> cn_open c \<longrightarrow> cn_reader c = Closed) \<and>
     (cn_reader c \<in> {Drained, Closed} \<longrightarrow> cn_flight c = []) \<and>
     (cn_subbed c \<longrightarrow> cn_reader c = Reading \<or> (\<exists>m. cn_reader c = Sending m)) \<and>
     (cn_done c \<longrightarrow> cn_reader c \<in> {Signalled, Drained, Closed})"

definition replies_ok :: "conn \<Rightarrow> bool" where
  "replies_ok c \<longleftrightarrow> pending c \<subseteq># mset (map ms_id (cn_read c))"

lemma push_cases:
  assumes "push x c = Some c'"
  obtains (panic) "\<not> cn_open c" "c' = c\<lparr>cn_panic := True\<rparr>"
  | (sent) "cn_open c" "length (cn_queue c) < capacity" "c' = c\<lparr>cn_queue := cn_queue c @ [x]\<rparr>"
  using assms by (auto simp: push_def split: if_splits)

lemma push_open:
  assumes "push x c = Some c'" "channel_ok c" "cn_reader c \<noteq> Closed"
  shows "c' = c\<lparr>cn_queue := cn_queue c @ [x]\<rparr>" "length (cn_queue c) < capacity"
  using assms by (auto simp: channel_ok_def elim: push_cases)

lemma broadcast_cases:
  obtains (skip) "broadcast_to m c = c" | (drop) "broadcast_to m c = c\<lparr>cn_net := False, cn_subbed := False\<rparr>"
  | (sent) c' where "cn_subbed c" "push (Event m) c = Some c'" "broadcast_to m c = c'"
  by (cases "push (Event m) c"; cases "cn_subbed c") (auto simp: broadcast_to_def)

lemma channel_ok_fresh: "channel_ok fresh_conn" "replies_ok fresh_conn"
  by (simp_all add: channel_ok_def replies_ok_def pending_def fresh_conn_def)

lemma broadcast_ok: "channel_ok c \<Longrightarrow> channel_ok (broadcast_to m c)"
proof (rule broadcast_cases [of m c])
  fix c' assume ok: "channel_ok c" and c': "cn_subbed c" "push (Event m) c = Some c'" "broadcast_to m c = c'"
  have "cn_reader c \<noteq> Closed" using ok c'(1) by (auto simp: channel_ok_def)
  from push_open [OF c'(2) ok this] ok show ?thesis by (simp add: c'(3) channel_ok_def)
qed (auto simp: channel_ok_def)

lemma broadcast_replies: "channel_ok c \<Longrightarrow> replies_ok c \<Longrightarrow> replies_ok (broadcast_to m c)"
proof (rule broadcast_cases [of m c])
  fix c' assume ok: "channel_ok c" "replies_ok c" and c': "cn_subbed c" "push (Event m) c = Some c'" "broadcast_to m c = c'"
  have "cn_reader c \<noteq> Closed" using ok c'(1) by (auto simp: channel_ok_def)
  from push_open [OF c'(2) ok(1) this] ok show ?thesis by (simp add: c'(3) replies_ok_def pending_def)
qed (auto simp: replies_ok_def pending_def)

lemma in_flight_open: "channel_ok c \<Longrightarrow> req \<in> set (cn_flight c) \<Longrightarrow> cn_reader c \<noteq> Closed"
  by (auto simp: channel_ok_def)

lemma conn_step_ok:
  assumes "conn_step decode methods c c'" "channel_ok c"
  shows "channel_ok c'"
  using assms
proof (induction rule: conn_step.induct)
  case (send_answer c m c')
  then have "cn_reader c \<noteq> Closed" by simp
  from push_open [OF send_answer(2,3) this] send_answer show ?case by (auto simp: channel_ok_def)
next
  case (answer req c out c')
  from push_open [OF answer(2,3) in_flight_open [OF answer(3,1)]] answer show ?case by (auto simp: channel_ok_def)
next
  case (publish c m)
  then show ?case by (rule broadcast_ok)
qed (auto simp: channel_ok_def)

lemma flight_remove: "req \<in> set xs \<Longrightarrow> mset (map ms_id xs) = add_mset (ms_id req) (mset (map ms_id (remove1 req xs)))"
  by (induction xs) auto

lemma conn_step_replies:
  assumes "conn_step decode methods c c'" "channel_ok c" "replies_ok c"
  shows "replies_ok c'"
  using assms
proof (induction rule: conn_step.induct)
  case (read_spawn c line req)
  then show ?case using dispatch_id(1) [OF read_spawn(2)] by (simp add: replies_ok_def pending_def ac_simps)
next
  case (read_answer c line m)
  then show ?case using dispatch_id(2) [OF read_answer(2)] by (simp add: replies_ok_def pending_def ac_simps)
next
  case (send_answer c m c')
  then have "cn_reader c \<noteq> Closed" by simp
  from push_open [OF send_answer(2,3) this] send_answer show ?case by (simp add: replies_ok_def pending_def ac_simps)
next
  case (answer req c out c')
  from push_open [OF answer(2,3) in_flight_open [OF answer(3,1)]] answer flight_remove [OF answer(1)]
  show ?case by (simp add: replies_ok_def pending_def ac_simps)
next
  case (forget req c)
  then show ?case using flight_remove [OF forget(1)]
    by (simp add: replies_ok_def pending_def ac_simps) (meson mset_subset_eq_insertD subset_mset.less_imp_le)
next
  case (publish c m)
  then show ?case by (auto intro: broadcast_replies)
next
  case (deliver c x q)
  then show ?case by (cases x) (simp_all add: replies_ok_def pending_def)
next
  case (lose c x q)
  then show ?case by (cases x) (auto simp: replies_ok_def pending_def dest: mset_subset_eq_insertD subset_mset.less_imp_le)
next
  case (writer_fails c x q)
  then show ?case by (cases x) (auto simp: replies_ok_def pending_def dest: mset_subset_eq_insertD subset_mset.less_imp_le)
qed (simp_all add: replies_ok_def pending_def)

lemma server_runs_ok:
  "server_runs decode methods s \<Longrightarrow> list_all (\<lambda>c. channel_ok c \<and> replies_ok c) (sv_conns s)"
proof (induction rule: server_runs.induct)
  case (server_next s s')
  show ?case using server_next(2,3)
  proof (induction rule: server_step.induct)
    case (accept s)
    then show ?case by (simp add: channel_ok_fresh)
  next
    case (move i s c)
    then have "channel_ok (sv_conns s ! i)" "replies_ok (sv_conns s ! i)" by (auto simp: list_all_length)
    then have "channel_ok c" "replies_ok c" using conn_step_ok conn_step_replies move by blast+
    then show ?case using move by (auto simp: list_all_iff dest!: set_update_subset_insert [THEN subsetD])
  next
    case (broadcast s m)
    then show ?case by (auto simp: list_all_iff broadcast_ok broadcast_replies)
  next
    case (close_conns s)
    then show ?case by (auto simp: list_all_iff sweep_def channel_ok_def replies_ok_def pending_def)
  qed simp_all
qed simp

lemma deliver_all:
  "cn_writer c \<Longrightarrow> cn_net c \<Longrightarrow> cn_queue c = xs \<Longrightarrow>
   (conn_step decode methods)\<^sup>*\<^sup>* c (c\<lparr>cn_queue := [], cn_sent := cn_sent c @ xs\<rparr>)"
proof (induction xs arbitrary: c)
  case Nil
  then have "c\<lparr>cn_queue := [], cn_sent := cn_sent c @ []\<rparr> = c" by simp
  then show ?case by (metis rtranclp.rtrancl_refl)
next
  case (Cons x xs)
  let ?c = "c\<lparr>cn_queue := xs, cn_sent := cn_sent c @ [x]\<rparr>"
  have "conn_step decode methods c ?c" using Cons.prems by (intro conn_step.deliver)
  moreover have "(conn_step decode methods)\<^sup>*\<^sup>* ?c (?c\<lparr>cn_queue := [], cn_sent := cn_sent ?c @ xs\<rparr>)"
    using Cons.prems by (intro Cons.IH) simp_all
  ultimately show ?case by (simp add: converse_rtranclp_into_rtranclp)
qed

lemma answer_now:
  assumes ok: "channel_ok c" and req: "req \<in> set (cn_flight c)" and alive: "cn_writer c" "cn_net c"
  shows "\<exists>c'. (conn_step decode methods)\<^sup>*\<^sup>* c c' \<and> Reply (response req out) \<in> set (cn_sent c') \<and>
    cn_flight c' = remove1 req (cn_flight c)"
proof -
  let ?c1 = "c\<lparr>cn_queue := [], cn_sent := cn_sent c @ cn_queue c\<rparr>"
  let ?c2 = "?c1\<lparr>cn_queue := [Reply (response req out)], cn_flight := remove1 req (cn_flight c)\<rparr>"
  let ?c3 = "?c2\<lparr>cn_queue := [], cn_sent := cn_sent ?c2 @ [Reply (response req out)]\<rparr>"
  have o: "cn_open c" using ok req by (auto simp: channel_ok_def)
  have 1: "(conn_step decode methods)\<^sup>*\<^sup>* c ?c1" using alive by (rule deliver_all) simp
  have "push (Reply (response req out)) ?c1 = Some (?c1\<lparr>cn_queue := [Reply (response req out)]\<rparr>)"
    using o by (simp add: push_def capacity_def)
  then have "conn_step decode methods ?c1 (?c1\<lparr>cn_queue := [Reply (response req out)]\<rparr>\<lparr>cn_flight := remove1 req (cn_flight ?c1)\<rparr>)"
    using req by (intro conn_step.answer) simp_all
  then have 2: "conn_step decode methods ?c1 ?c2" by simp
  have 3: "(conn_step decode methods)\<^sup>*\<^sup>* ?c2 ?c3" using alive by (intro deliver_all) simp_all
  have "(conn_step decode methods)\<^sup>*\<^sup>* c ?c3" using 1 2 3 by (meson rtranclp.rtrancl_into_rtrancl rtranclp_trans)
  then show ?thesis by (intro exI [of _ ?c3]) simp
qed

text \<open>The daemon serves exactly the methods of the protocol, each once, and no event can be taken for a reply's type.\<close>

lemma methods_served:
  "distinct registerHandlers" "mset registerHandlers = mset ipc_methods" "set ipc_methods \<inter> set ipc_events = {}"
  by code_simp+

section \<open>Properties\<close>

text \<open>
  C33. On every connection, in every interleaving of the reading loop, the handlers, broadcasts, the writer,
  hang-ups and shutdown, nothing is ever sent on the closed channel, the channel holds at most 256 frames, and
  the replies on the wire carry the ids of received frames, at most one for each. And a call is never stuck
  behind a slower one: while the connection is up, each running handler can be answered with the others
  still running.
\<close>

theorem ipc_replies_match:
  assumes "server_runs decode methods s" and "c \<in> set (sv_conns s)"
  shows "\<not> cn_panic c \<and> length (cn_queue c) \<le> 256 \<and> replies (cn_sent c) \<subseteq># mset (map ms_id (cn_read c)) \<and>
    (\<forall>req out. req \<in> set (cn_flight c) \<and> cn_writer c \<and> cn_net c \<longrightarrow>
      (\<exists>c'. (conn_step decode methods)\<^sup>*\<^sup>* c c' \<and> Reply (response req out) \<in> set (cn_sent c') \<and>
         cn_flight c' = remove1 req (cn_flight c)))"
proof -
  have ok: "channel_ok c" "replies_ok c" using server_runs_ok [OF assms(1)] assms(2) by (auto simp: list_all_iff)
  have "replies (cn_sent c) \<subseteq># pending c" by (simp add: pending_def)
  then have "replies (cn_sent c) \<subseteq># mset (map ms_id (cn_read c))" using ok(2) unfolding replies_ok_def by (rule subset_mset.order_trans)
  then show ?thesis using ok(1) answer_now [OF ok(1)] by (simp add: channel_ok_def capacity_def)
qed

definition ping :: message where
  "ping = \<lparr>ms_v = IpcVersion, ms_id = ''7'', ms_type = ''ping'', ms_payload = [], ms_error = []\<rparr>"

lemma server_move:
  assumes "server_runs decode methods \<lparr>sv_conns = [c], sv_serving = p\<rparr>" "(conn_step decode methods)\<^sup>*\<^sup>* c c'"
  shows "server_runs decode methods \<lparr>sv_conns = [c'], sv_serving = p\<rparr>"
  using assms(2)
proof (induction rule: rtranclp_induct)
  case (step y z)
  have "server_step decode methods \<lparr>sv_conns = [y], sv_serving = p\<rparr> (\<lparr>sv_conns = [y], sv_serving = p\<rparr>\<lparr>sv_conns := [y][0 := z]\<rparr>)"
    using step(2) server_step.move [of 0 "\<lparr>sv_conns = [y], sv_serving = p\<rparr>"] by simp
  with step(3) show ?case by (auto intro: server_runs.server_next)
qed (rule assms(1))

lemma server_first: "server_runs decode methods \<lparr>sv_conns = [fresh_conn], sv_serving = Serving\<rparr>"
proof -
  have "server_step decode methods \<lparr>sv_conns = [], sv_serving = Serving\<rparr> (\<lparr>sv_conns = [], sv_serving = Serving\<rparr>\<lparr>sv_conns := [] @ [fresh_conn]\<rparr>)"
    using server_step.accept [of "\<lparr>sv_conns = [], sv_serving = Serving\<rparr>"] by simp
  with server_runs.server_start show ?thesis by (auto intro: server_runs.server_next)
qed

theorem ipc_replies_match_witness:
  "\<exists>s c c'. server_runs (\<lambda>_. (True, ping)) {''ping''} s \<and> c \<in> set (sv_conns s) \<and> cn_flight c = [ping, ping] \<and> \<not> cn_panic c \<and>
     (conn_step (\<lambda>_. (True, ping)) {''ping''})\<^sup>*\<^sup>* c c' \<and> Reply (response ping (Inr ''pong'')) \<in> set (cn_sent c')"
proof -
  let ?d = "\<lambda>_ :: string. (True, ping)" and ?m = "{''ping''}"
  let ?c = "fresh_conn\<lparr>cn_reader := Reading, cn_subbed := True\<rparr>"
  let ?c2 = "?c\<lparr>cn_flight := [ping, ping], cn_read := [ping, ping]\<rparr>"
  have d: "dispatch ?m (True, ping) = Spawn ping" by (simp add: dispatch_def ping_def)
  have 1: "conn_step ?d ?m fresh_conn ?c" by (rule conn_step.register) (simp add: fresh_conn_def)
  have 2: "conn_step ?d ?m ?c (?c\<lparr>cn_flight := [ping], cn_read := [ping]\<rparr>)"
    using conn_step.read_spawn [of ?c ?m ?d "[]" ping] d by (simp add: fresh_conn_def)
  have 3: "conn_step ?d ?m (?c\<lparr>cn_flight := [ping], cn_read := [ping]\<rparr>) ?c2"
    using conn_step.read_spawn [of "?c\<lparr>cn_flight := [ping], cn_read := [ping]\<rparr>" ?m ?d "[]" ping] d by simp
  note trans = rtranclp.rtrancl_into_rtrancl [of "conn_step ?d ?m"]
  have steps: "(conn_step ?d ?m)\<^sup>*\<^sup>* fresh_conn ?c2"
    by (rule trans [OF trans [OF trans [OF rtranclp.rtrancl_refl [of "conn_step ?d ?m"] 1] 2] 3])
  have run: "server_runs ?d ?m \<lparr>sv_conns = [?c2], sv_serving = Serving\<rparr>" by (rule server_move [OF server_first steps])
  have mem: "?c2 \<in> set (sv_conns \<lparr>sv_conns = [?c2], sv_serving = Serving\<rparr>)" by simp
  note all = ipc_replies_match [OF run mem]
  have "ping \<in> set (cn_flight ?c2) \<and> cn_writer ?c2 \<and> cn_net ?c2" by (simp add: fresh_conn_def)
  from all [THEN conjunct2, THEN conjunct2, THEN conjunct2, rule_format, OF this, of "Inr ''pong''"]
  obtain c' where c': "(conn_step ?d ?m)\<^sup>*\<^sup>* ?c2 c'" "Reply (response ping (Inr ''pong'')) \<in> set (cn_sent c')" by blast
  have fl: "cn_flight ?c2 = [ping, ping]" by simp
  show ?thesis using run mem fl all [THEN conjunct1] c' by blast
qed

section \<open>Shutdown\<close>

text \<open>
  The reading loop waits for room in the channel without watching \<open>done\<close>: once the writer has ended with a
  full channel, nothing moves that connection any more, and \<open>Close\<close> waits for it for ever.
\<close>

definition stuck :: "conn \<Rightarrow> bool" where
  "stuck c \<longleftrightarrow> (\<exists>m. cn_reader c = Sending m) \<and> \<not> cn_writer c \<and> length (cn_queue c) = capacity \<and> \<not> cn_done c \<and> cn_open c"

lemma push_stuck: "stuck c \<Longrightarrow> push x c = None"
  by (auto simp: stuck_def push_def)

lemma stuck_broadcast: "stuck c \<Longrightarrow> stuck (broadcast_to m c)"
  using push_stuck [of c "Event m"] by (auto simp: broadcast_to_def stuck_def)

lemma stuck_sweep: "stuck c \<Longrightarrow> stuck (sweep c)"
  by (simp add: sweep_def stuck_def)

lemma stuck_step: "conn_step decode methods c c' \<Longrightarrow> stuck c \<Longrightarrow> stuck c'"
proof (induction rule: conn_step.induct)
  case (publish c m)
  then show ?case by (rule stuck_broadcast)
next
  case (send_answer c m c')
  then show ?case using push_stuck [of c "Reply m"] by simp
next
  case (answer req c out c')
  then show ?case using push_stuck [of c "Reply (response req out)"] by simp
qed (auto simp: stuck_def)

lemma stuck_forever:
  assumes "server_step decode methods s s'" "list_ex stuck (sv_conns s)" "sv_serving s \<noteq> Stopped"
  shows "list_ex stuck (sv_conns s') \<and> sv_serving s' \<noteq> Stopped"
  using assms
proof (induction rule: server_step.induct)
  case (move i s c)
  then obtain j where j: "j < length (sv_conns s)" "stuck (sv_conns s ! j)" by (auto simp: list_ex_length)
  then have "stuck ((sv_conns s)[i := c] ! j)" using move stuck_step by (cases "i = j") auto
  with j move(4) show ?case by (auto simp: list_ex_length)
next
  case (stopped s)
  then show ?case by (auto simp: list_all_iff list_ex_iff stuck_def)
next
  case (broadcast s m)
  then show ?case by (auto simp: list_ex_iff intro: stuck_broadcast)
next
  case (close_conns s)
  then show ?case by (auto simp: list_ex_iff intro: stuck_sweep)
qed simp_all

lemma fill_queue:
  assumes d: "\<And>l. decode l = (False, m)"
  shows "cn_reader c = Reading \<Longrightarrow> cn_open c \<Longrightarrow> length (cn_queue c) + n \<le> capacity \<Longrightarrow>
    \<exists>c'. (conn_step decode methods)\<^sup>*\<^sup>* c c' \<and> cn_reader c' = Reading \<and> cn_open c' \<and> cn_writer c' = cn_writer c \<and>
      cn_done c' = cn_done c \<and> length (cn_queue c') = length (cn_queue c) + n"
proof (induction n arbitrary: c)
  case (0 c)
  then show ?case by (intro exI [of _ c]) simp
next
  case (Suc n)
  obtain bad where bad: "\<And>l. dispatch methods (decode l) = Answer bad" by (simp add: d dispatch_def)
  let ?c1 = "c\<lparr>cn_reader := Sending bad, cn_read := snd (decode []) # cn_read c\<rparr>"
  let ?c2 = "(?c1\<lparr>cn_queue := cn_queue c @ [Reply bad]\<rparr>)\<lparr>cn_reader := Reading\<rparr>"
  have 1: "conn_step decode methods c ?c1" using Suc.prems bad by (intro conn_step.read_answer) simp_all
  have "push (Reply bad) ?c1 = Some (?c1\<lparr>cn_queue := cn_queue c @ [Reply bad]\<rparr>)" using Suc.prems by (simp add: push_def)
  then have 2: "conn_step decode methods ?c1 ?c2" by (intro conn_step.send_answer [of _ bad]) simp_all
  obtain c' where "(conn_step decode methods)\<^sup>*\<^sup>* ?c2 c'" "cn_reader c' = Reading" "cn_open c'" "cn_writer c' = cn_writer c"
    "cn_done c' = cn_done c" "length (cn_queue c') = length (cn_queue c) + Suc n"
    using Suc.IH [of ?c2] Suc.prems by auto
  with 1 2 show ?case by (meson converse_rtranclp_into_rtranclp)
qed

lemma dead_writer_blocks_shutdown:
  assumes d: "\<And>l. decode l = (False, m)"
  shows "\<exists>s. server_runs decode methods s \<and> (\<forall>s'. (server_step decode methods)\<^sup>*\<^sup>* s s' \<longrightarrow> sv_serving s' \<noteq> Stopped)"
proof -
  let ?c = "fresh_conn\<lparr>cn_reader := Reading, cn_subbed := True\<rparr>"
  have 1: "(conn_step decode methods)\<^sup>*\<^sup>* fresh_conn ?c" by (intro r_into_rtranclp conn_step.register) (simp add: fresh_conn_def)
  obtain c1 where c1: "(conn_step decode methods)\<^sup>*\<^sup>* ?c c1" "cn_reader c1 = Reading" "cn_open c1" "cn_writer c1" "\<not> cn_done c1"
    "length (cn_queue c1) = 1"
    using fill_queue [of decode m ?c 1 methods] d by (auto simp: fresh_conn_def capacity_def)
  then obtain x where x: "cn_queue c1 = [x]" by (auto simp: length_Suc_conv)
  let ?c2 = "c1\<lparr>cn_queue := [], cn_writer := False\<rparr>"
  have 2: "conn_step decode methods c1 ?c2" using c1(4) x by (rule conn_step.writer_fails)
  obtain c3 where c3: "(conn_step decode methods)\<^sup>*\<^sup>* ?c2 c3" "cn_reader c3 = Reading" "cn_open c3" "\<not> cn_writer c3" "\<not> cn_done c3"
    "length (cn_queue c3) = capacity"
    using fill_queue [of decode m ?c2 capacity methods] d c1 by auto
  obtain bad where bad: "dispatch methods (decode []) = Answer bad" by (simp add: d dispatch_def)
  let ?c4 = "c3\<lparr>cn_reader := Sending bad, cn_read := snd (decode []) # cn_read c3\<rparr>"
  have 4: "conn_step decode methods c3 ?c4" using c3(2) bad by (rule conn_step.read_answer)
  have "stuck ?c4" using c3 by (simp add: stuck_def)
  have "(conn_step decode methods)\<^sup>*\<^sup>* fresh_conn ?c4"
    using 1 c1(1) 2 c3(1) 4 by (meson rtranclp.rtrancl_into_rtrancl rtranclp_trans)
  from server_move [OF server_first this] have run: "server_runs decode methods \<lparr>sv_conns = [?c4], sv_serving = Serving\<rparr>" .
  have "list_ex stuck (sv_conns s') \<and> sv_serving s' \<noteq> Stopped"
    if "(server_step decode methods)\<^sup>*\<^sup>* \<lparr>sv_conns = [?c4], sv_serving = Serving\<rparr> s'" for s'
    using that
  proof (induction rule: rtranclp_induct)
    case (step y z)
    then show ?case using stuck_forever by blast
  qed (use \<open>stuck ?c4\<close> in simp)
  with run show ?thesis by blast
qed

text \<open>
  A connection that was accepted but not registered when \<open>Close\<close> goes through the registered ones is not
  closed: it is served on, and \<open>Close\<close> waits until its client leaves.
\<close>

lemma late_connection_is_served:
  "\<exists>s c. server_runs decode methods s \<and> sv_serving s = Swept \<and> c \<in> set (sv_conns s) \<and> cn_reader c = Reading \<and> cn_net c"
proof -
  let ?s = "\<lambda>p. \<lparr>sv_conns = [fresh_conn], sv_serving = p\<rparr>"
  let ?c = "fresh_conn\<lparr>cn_reader := Reading, cn_subbed := True\<rparr>"
  have 1: "server_step decode methods (?s Serving) (?s Stopping)"
    using server_step.close_listener [of "?s Serving"] by simp
  have 2: "server_step decode methods (?s Stopping) (?s Swept)"
    using server_step.close_conns [of "?s Stopping"] by (simp add: sweep_def fresh_conn_def)
  have "server_runs decode methods (?s Swept)" using server_first 1 2 server_runs.server_next by metis
  moreover have "(conn_step decode methods)\<^sup>*\<^sup>* fresh_conn ?c" by (intro r_into_rtranclp conn_step.register) (simp add: fresh_conn_def)
  ultimately have "server_runs decode methods \<lparr>sv_conns = [?c], sv_serving = Swept\<rparr>" by (rule server_move)
  then show ?thesis by (intro exI [of _ "\<lparr>sv_conns = [?c], sv_serving = Swept\<rparr>"] exI [of _ ?c]) (simp add: fresh_conn_def)
qed

text \<open>What a call returns is the first reply to its own request; events and late replies to others are skipped.\<close>

lemma await_reply_matches:
  "await_reply decode rid ls = Inr p \<Longrightarrow>
   \<exists>before l after. ls = before @ l # after \<and> fst (decode l) \<and> ms_id (snd (decode l)) = rid \<and> ms_payload (snd (decode l)) = p \<and>
     ms_error (snd (decode l)) = [] \<and> (\<forall>x \<in> set before. fst (decode x) \<and> ms_id (snd (decode x)) \<noteq> rid)"
proof (induction ls)
  case (Cons l ls)
  obtain ok resp where d: "decode l = (ok, resp)" by fastforce
  show ?case
  proof (cases "ok \<and> ms_id resp \<noteq> rid")
    case True
    then obtain before l' after where "ls = before @ l' # after" "fst (decode l')" "ms_id (snd (decode l')) = rid"
      "ms_payload (snd (decode l')) = p" "ms_error (snd (decode l')) = []"
      "\<forall>x \<in> set before. fst (decode x) \<and> ms_id (snd (decode x)) \<noteq> rid" using Cons d by auto
    then show ?thesis using d True by (intro exI [of _ "l # before"] exI [of _ l'] exI [of _ after]) auto
  next
    case False
    then show ?thesis using Cons.prems d by (intro exI [of _ "[]"] exI [of _ l] exI [of _ ls]) (auto split: if_splits)
  qed
qed simp

end
