(* ===== verification/Update_Tool.thy ===== *)
theory Update_Tool
  imports Installer Manifest
begin

text \<open>
  The release tool (\<open>cmd/update-tool\<close>): the artifact specifications and notes of a manifest, the manifest it
  builds, signing and verifying, and the delta between two trees. Its deltas are what
  \<open>ZipOverlayApplier.Apply\<close> reads; that the two fit together is the round trip at the end. The hash of a file
  is a parameter, as are the JSON coder, the canonical bytes and Ed25519.
\<close>

datatype tool_error =
    BadSpec string
  | NoSuchFile string
  | ToolManifest manifest_error
  | ToolTrust trust_error
  | BadKey string
  | TreeError
  | NoDifferences

section \<open>Manifests\<close>

definition isDriveLetter :: "char \<Rightarrow> bool" where
  "isDriveLetter c \<longleftrightarrow> (c \<ge> CHR ''a'' \<and> c \<le> CHR ''z'') \<or> (c \<ge> CHR ''A'' \<and> c \<le> CHR ''Z'')"

definition splitSpec :: "string \<Rightarrow> (tool_error, string \<times> string \<times> string) res" where
  "splitSpec spec =
     (case str_index spec '':'' of
        None \<Rightarrow> Inl (BadSpec spec)
      | Some i \<Rightarrow>
          if i = 0 then Inl (BadSpec spec)
          else
            let typ = take i spec; rest = drop (i + 1) spec;
                start = (if length rest \<ge> 3 \<and> rest ! 1 = CHR '':'' \<and> isDriveLetter (rest ! 0) \<and>
                            (rest ! 2 = CHR 0x5C \<or> rest ! 2 = CHR ''/'') then 3 else 0)
            in case last_index (drop start rest) (CHR '':'') of
                 None \<Rightarrow> Inr (typ, rest, [])
               | Some j \<Rightarrow>
                   if is_ok (ParseVersion (drop (start + j + 1) rest))
                   then Inr (typ, take (start + j) rest, drop (start + j + 1) rest)
                   else Inr (typ, rest, []))"

definition splitNotes :: "string \<Rightarrow> string list" where
  "splitNotes s = filter (\<lambda>n. n \<noteq> []) (map trim_space (split_on (CHR '';'') s))"

text \<open>One artifact: \<open>hashFile\<close> gives the hash and the size of a readable file.\<close>

definition hashFile :: "(string \<Rightarrow> string) \<Rightarrow> (string \<Rightarrow> string option) \<Rightarrow> string \<Rightarrow> (tool_error, string \<times> int) res" where
  "hashFile sha read p =
     (case read p of None \<Rightarrow> Inl (NoSuchFile p) | Some d \<Rightarrow> Inr (sha d, int (length d)))"

definition artifact_of :: "(string \<Rightarrow> string) \<Rightarrow> (string \<Rightarrow> string option) \<Rightarrow> string \<Rightarrow> string \<Rightarrow> (tool_error, artifact) res" where
  "artifact_of sha read assetBase spec =
     (case splitSpec spec of
        Inl e \<Rightarrow> Inl e
      | Inr (typ, fname, frm) \<Rightarrow>
          (case hashFile sha read fname of
             Inl e \<Rightarrow> Inl e
           | Inr (dig, sz) \<Rightarrow>
               Inr \<lparr>atype = typ, filename = base fname, asize = sz, sha256 = dig,
                 url = (let b = trim_suffix assetBase ''/'' in if b \<noteq> [] then b @ ''/'' @ base fname else base fname),
                 from_version = frm\<rparr>))"

fun artifacts_of :: "(string \<Rightarrow> string) \<Rightarrow> (string \<Rightarrow> string option) \<Rightarrow> string \<Rightarrow> string list \<Rightarrow> (tool_error, artifact list) res" where
  "artifacts_of sha read assetBase [] = Inr []"
| "artifacts_of sha read assetBase (s # ss) =
     (case artifact_of sha read assetBase s of
        Inl e \<Rightarrow> Inl e
      | Inr a \<Rightarrow> (case artifacts_of sha read assetBase ss of Inl e \<Rightarrow> Inl e | Inr as1 \<Rightarrow> Inr (a # as1)))"

text \<open>The manifest of the flags \<open>m\<close> (without artifacts) and the notes text.\<close>

definition genManifest ::
    "(string \<Rightarrow> string) \<Rightarrow> (string \<Rightarrow> string option) \<Rightarrow> manifest \<Rightarrow> string \<Rightarrow> string \<Rightarrow> string list \<Rightarrow> (tool_error, manifest) res" where
  "genManifest sha read m notes assetBase specs =
     (case artifacts_of sha read assetBase specs of
        Inl e \<Rightarrow> Inl e
      | Inr as1 \<Rightarrow>
          (let m' = m\<lparr>schema := ManifestSchema, release_notes := splitNotes notes, artifacts := as1\<rparr>
           in case manifest_validate m' of Inl e \<Rightarrow> Inl (ToolManifest e) | Inr _ \<Rightarrow> Inr m'))"

text \<open>\<open>sign\<close> writes the signed manifest and the detached signature.\<close>

definition signManifest ::
    "('p \<Rightarrow> string \<Rightarrow> string) \<Rightarrow> (manifest \<Rightarrow> string) \<Rightarrow> string \<Rightarrow> 'p option \<Rightarrow> manifest option \<Rightarrow>
     (tool_error, signed_manifest \<times> string) res" where
  "signManifest ed_sign canon kid priv m =
     (case m of
        None \<Rightarrow> Inl (ToolManifest BadManifestJson)
      | Some man \<Rightarrow>
          (case manifest_validate man of
             Inl e \<Rightarrow> Inl (ToolManifest e)
           | Inr _ \<Rightarrow>
               (case priv of
                  None \<Rightarrow> Inl (BadKey kid)
                | Some k \<Rightarrow> (let sm = SignManifest ed_sign canon man kid k in Inr (sm, signature sm @ [CHR 0x0A])))))"

text \<open>\<open>verify\<close>: the keys file is a list of ids with hexadecimal keys; every one of them has to be usable.\<close>

fun usable_keys :: "(string \<Rightarrow> 'k option) \<Rightarrow> (string \<times> string) list \<Rightarrow> (tool_error, (string \<times> 'k) list) res" where
  "usable_keys key [] = Inr []"
| "usable_keys key ((kid, hx) # ks) =
     (case key (trim_space hx) of
        None \<Rightarrow> Inl (BadKey kid)
      | Some k \<Rightarrow> (case usable_keys key ks of Inl e \<Rightarrow> Inl e | Inr rest \<Rightarrow> Inr ((kid, k) # rest)))"

definition verifyManifest ::
    "('k \<Rightarrow> string \<Rightarrow> string \<Rightarrow> bool) \<Rightarrow> (manifest \<Rightarrow> string) \<Rightarrow> (string \<Rightarrow> signed_manifest option) \<Rightarrow> (string \<Rightarrow> 'k option) \<Rightarrow>
     string \<Rightarrow> (string \<times> string) list \<Rightarrow> (tool_error, unit) res" where
  "verifyManifest ed_verify canon decode key raw hexKeys =
     (case ParseSignedManifest decode raw of
        Inl e \<Rightarrow> Inl (ToolManifest e)
      | Inr sm \<Rightarrow>
          (case usable_keys key hexKeys of
             Inl e \<Rightarrow> Inl e
           | Inr ks \<Rightarrow> (case VerifyManifest ed_verify canon ks sm of Inl e \<Rightarrow> Inl (ToolTrust e) | Inr _ \<Rightarrow> Inr ())))"

section \<open>Deltas\<close>

definition tree_files :: "fs \<Rightarrow> key \<Rightarrow> key list" where
  "tree_files fs root = filter (\<lambda>k. map_of fs k \<noteq> Some Dir) (walk fs root)"

definition listTreeFiles :: "string \<Rightarrow> fs \<Rightarrow> (tool_error, string list) res" where
  "listTreeFiles to fs =
     (if map_of fs (key_of to) = None then Inl TreeError
      else Inr (map (rel_path (key_of to)) (tree_files fs (key_of to))))"

text \<open>Whether a file of the target tree is new or differs from the one in the source tree.\<close>

definition differs :: "(string \<Rightarrow> string) \<Rightarrow> string \<Rightarrow> key \<Rightarrow> fs \<Rightarrow> key \<Rightarrow> bool" where
  "differs sha frm root fs k =
     (case map_of fs (key_of (path_join [frm, rel_path root k])) of
        Some (File _ old) \<Rightarrow> (case map_of fs k of Some (File _ cur) \<Rightarrow> sha old \<noteq> sha cur | _ \<Rightarrow> False)
      | _ \<Rightarrow> True)"

definition diffTrees :: "(string \<Rightarrow> string) \<Rightarrow> string \<Rightarrow> string \<Rightarrow> fs \<Rightarrow> (tool_error, string list) res" where
  "diffTrees sha frm to fs =
     (if map_of fs (key_of to) = None then Inl TreeError
      else Inr (map (rel_path (key_of to)) (filter (differs sha frm (key_of to) fs) (tree_files fs (key_of to)))))"

definition delta_member :: "string \<Rightarrow> fs \<Rightarrow> string \<Rightarrow> zmember option" where
  "delta_member to fs rel =
     (case map_of fs (key_of (path_join [to, rel])) of
        Some (File p d) \<Rightarrow>
          Some \<lparr>z_name = rel, z_dirbit = False, z_perm = p, z_size = int (length d), z_data = Some d, z_corrupt = False\<rparr>
      | _ \<Rightarrow> None)"

definition listing_member :: "string list \<Rightarrow> zmember" where
  "listing_member names =
     (let d = join_with [CHR 0x0A] names
      in \<lparr>z_name = DeltaListingName, z_dirbit = False, z_perm = 438, z_size = int (length d), z_data = Some d, z_corrupt = False\<rparr>)"

definition genDelta :: "(string \<Rightarrow> string) \<Rightarrow> string \<Rightarrow> string \<Rightarrow> fs \<Rightarrow> (tool_error, zmember list) res" where
  "genDelta sha frm to fs =
     (case diffTrees sha frm to fs of
        Inl e \<Rightarrow> Inl e
      | Inr changed \<Rightarrow>
          if changed = [] then Inl NoDifferences
          else case listTreeFiles to fs of
            Inl e \<Rightarrow> Inl e
          | Inr names \<Rightarrow>
              (case those (map (delta_member to fs) changed) of
                 None \<Rightarrow> Inl TreeError
               | Some ms \<Rightarrow> Inr (listing_member names # ms)))"

section \<open>Plain relative paths\<close>

definition plain :: "string list \<Rightarrow> bool" where
  "plain cs \<longleftrightarrow> list_all (\<lambda>c. elem_ok c \<and> c \<noteq> dotdot) cs"

lemma plain_comps: "plain cs \<Longrightarrow> comps (join_with ''/'' cs) = cs" and plain_up: "plain cs \<Longrightarrow> dotdot \<notin> set cs"
  and plain_abs: "plain cs \<Longrightarrow> \<not> is_abs (join_with ''/'' cs)"
  by (auto simp: plain_def list_all_iff comps_join join_not_abs)

lemma plain_clean: "plain cs \<Longrightarrow> clean (join_with ''/'' cs) = unparse False cs"
  by (simp add: clean_def plain_abs plain_comps clean_comps_def clean_fold_plain plain_up)

lemma unparse_join: "cs \<noteq> [] \<Longrightarrow> unparse False cs = join_with ''/'' cs"
  by (simp add: unparse_def)

lemma plain_escapes: "plain cs \<Longrightarrow> \<not> escapes (join_with ''/'' cs)"
proof
  assume p: "plain cs" and e: "escapes (join_with ''/'' cs)"
  have "dotdot \<in> set (comps (join_with ''/'' cs))"
  proof (cases "join_with ''/'' cs = dotdot")
    case False
    then obtain r where "join_with ''/'' cs = dotdot @ CHR ''/'' # r"
      using e by (auto simp: escapes_def has_prefix_iff dotdot_def)
    then show ?thesis using comps_append [of dotdot r] by (simp add: comps_single)
  qed (simp add: comps_single)
  with p show False by (simp add: plain_comps plain_up)
qed

lemma plain_not_dot: "plain cs \<Longrightarrow> cs \<noteq> [] \<Longrightarrow> join_with ''/'' cs \<noteq> dot"
proof
  assume p: "plain cs" and ne: "cs \<noteq> []" and d: "join_with ''/'' cs = dot"
  have "comps dot = []" by (simp add: comps_def dot_def)
  then show False using plain_comps [OF p] ne d by simp
qed

lemma join_last: "cs \<noteq> [] \<Longrightarrow> last cs \<noteq> [] \<Longrightarrow> join_with ''/'' cs \<noteq> [] \<and> last (join_with ''/'' cs) = last (last cs)"
  by (induction "''/''" cs rule: join_with.induct) auto

lemma plain_no_slash_end: "plain cs \<Longrightarrow> cs \<noteq> [] \<Longrightarrow> \<not> has_suffix (join_with ''/'' cs) ''/''"
proof
  assume p: "plain cs" and ne: "cs \<noteq> []" and s: "has_suffix (join_with ''/'' cs) ''/''"
  have l: "elem_ok (last cs)" using p ne by (auto simp: plain_def list_all_iff)
  then have "last (join_with ''/'' cs) = last (last cs)" using join_last [OF ne] by (simp add: elem_ok_def)
  moreover have "last (last cs) \<noteq> CHR ''/''" using l by (metis elem_ok_def last_in_set)
  moreover have "last (join_with ''/'' cs) = CHR ''/''" using s by (auto simp: has_suffix_iff)
  ultimately show False by simp
qed

lemma join_key:
  assumes "is_abs out" "plain cs"
  shows "key_of (path_join [out, join_with ''/'' cs]) = key_of out @ cs"
proof -
  have ne: "out \<noteq> []" using assms(1) by (auto simp: is_abs_def has_prefix_def)
  note c = plain_comps [OF assms(2)] plain_up [OF assms(2)]
  have "dotdot \<notin> set (comps (join_with ''/'' cs))" using c by simp
  note j = path_join_below [OF ne this]
  have "dotdot \<notin> set (key_of out)"
    using updirs_clean [of True "comps out"] assms(1) by (auto simp: key_of_def updirs_def)
  then show ?thesis using j c assms(1) clean_comps_append [of "comps (clean out) @ cs" True "[]"]
    by (simp add: key_of_def clean_comps_def)
qed

section \<open>Copying a tree\<close>

lemma mkdir_from_some:
  "(\<And>j. prefix j cs \<Longrightarrow> j \<noteq> [] \<Longrightarrow> map_of fs (up @ j) = None \<or> map_of fs (up @ j) = Some Dir) \<Longrightarrow>
   \<exists>fs'. mkdir_from fs up cs = Some fs'"
proof (induction fs up cs rule: mkdir_from.induct)
  case (2 fs up c cs)
  have j: "map_of fs ((up @ [c]) @ j) = None \<or> map_of fs ((up @ [c]) @ j) = Some Dir" if "prefix j cs" for j
    using "2.prems" [of "c # j"] that by simp
  show ?case
  proof (cases "map_of fs (up @ [c])")
    case None
    have "\<exists>fs'. mkdir_from (AList.update (up @ [c]) Dir fs) (up @ [c]) cs = Some fs'"
      using j by (intro "2.IH"(1) [OF None]) (auto simp: update_conv')
    then show ?thesis using None by simp
  next
    case (Some n)
    then have n: "n = Dir" using j [of "[]"] by simp
    have "\<exists>fs'. mkdir_from fs (up @ [c]) cs = Some fs'" using j by (intro "2.IH"(2) [OF Some n])
    then show ?thesis using Some n by simp
  qed
qed simp

lemma mkdir_all_some:
  assumes "\<And>j. prefix j k \<Longrightarrow> j \<noteq> [] \<Longrightarrow> map_of fs j = None \<or> map_of fs j = Some Dir"
  obtains fs' where "mkdir_all fs k = Some fs'"
    "\<And>j. map_of fs' j = (if prefix j k \<and> j \<noteq> [] then Some Dir else map_of fs j)"
proof -
  obtain fs' where m: "mkdir_from fs [] k = Some fs'" using mkdir_from_some [of k fs "[]"] assms by auto
  note ok = mkdir_from_ok [OF m, simplified]
  have "map_of fs' j = (if prefix j k \<and> j \<noteq> [] then Some Dir else map_of fs j)" for j
  proof (cases "prefix j k \<and> j \<noteq> []")
    case True
    then have "j = take (length j) k" "0 < length j" "length j \<le> length k"
      by (auto simp: prefix_def)
    then show ?thesis using ok True by metis
  next
    case False
    show ?thesis
    proof (rule ccontr)
      assume "map_of fs' j \<noteq> (if prefix j k \<and> j \<noteq> [] then Some Dir else map_of fs j)"
      with False have "map_of fs' j \<noteq> map_of fs j" by auto
      with ok False have j: "j = []" by auto
      have "map_of fs' [] = map_of fs []" using m
      proof -
        have "mkdir_from f up cs = Some f' \<Longrightarrow> map_of f' [] = map_of f []" for f up cs f'
          by (induction f up cs rule: mkdir_from.induct) (auto simp: update_conv' split: option.splits node.splits)
        with m show ?thesis by blast
      qed
      with j \<open>map_of fs' j \<noteq> map_of fs j\<close> show False by simp
    qed
  qed
  with that m show thesis by (simp add: mkdir_all_def)
qed

lemma wf_parent: "wf_fs fs \<Longrightarrow> map_of fs (k @ r) \<noteq> None \<Longrightarrow> strict_prefix r' r \<Longrightarrow> k @ r' = [] \<or> map_of fs (k @ r') = Some Dir"
proof (induction r rule: rev_induct)
  case (snoc c r)
  have up: "k @ r = [] \<or> map_of fs (k @ r) = Some Dir" using snoc(2,3) unfolding wf_fs_def by (metis append_assoc)
  show ?case
  proof (cases "r' = r")
    case False
    then have s: "strict_prefix r' r" using snoc(4) by (auto simp: strict_prefix_def prefix_snoc)
    show ?thesis
    proof (cases "k @ r = []")
      case False
      then show ?thesis using snoc.IH snoc(2) s up by auto
    qed (use s in simp)
  qed (use up in simp)
qed simp

text \<open>\<open>f\<close> is \<open>fs\<close> with the part \<open>P\<close> of the tree \<open>src\<close> mirrored below \<open>dst\<close>.\<close>

definition mirrored :: "fs \<Rightarrow> key \<Rightarrow> key \<Rightarrow> key set \<Rightarrow> fs \<Rightarrow> bool" where
  "mirrored fs src dst P f \<longleftrightarrow>
     (\<forall>r. map_of f (dst @ r) = (if src @ r \<in> P then map_of fs (src @ r) else None)) \<and>
     (\<forall>k. \<not> prefix dst k \<longrightarrow> map_of f k = map_of fs k \<or> strict_prefix k dst \<and> map_of f k = Some Dir)"

definition two_trees :: "fs \<Rightarrow> key \<Rightarrow> key \<Rightarrow> bool" where
  "two_trees fs src dst \<longleftrightarrow> wf_fs fs \<and> map_of fs src = Some Dir \<and> \<not> prefix dst src \<and> \<not> prefix src dst \<and>
     (\<forall>k. strict_prefix k dst \<and> k \<noteq> [] \<longrightarrow> map_of fs k = None \<or> map_of fs k = Some Dir)"

lemma two_treesD:
  assumes "two_trees fs src dst"
  shows "wf_fs fs" "map_of fs src = Some Dir" "\<not> prefix dst src" "\<not> prefix src dst" "src \<noteq> []" "dst \<noteq> []"
    "\<And>k. strict_prefix k dst \<Longrightarrow> k \<noteq> [] \<Longrightarrow> map_of fs k = None \<or> map_of fs k = Some Dir"
  using assms by (auto simp: two_trees_def)

lemma mirrored_source:
  "two_trees fs src dst \<Longrightarrow> mirrored fs src dst P f \<Longrightarrow> prefix src k \<Longrightarrow> map_of f k = map_of fs k"
  unfolding mirrored_def using two_treesD(3,4) [of fs src dst] by (metis prefix_order.le_less_trans prefix_order.less_imp_le prefix_same_cases)

lemma mirror_dir:
  assumes t: "two_trees fs src dst" and m: "mirrored fs src dst P f" and par: "\<And>r'. strict_prefix r' r \<Longrightarrow> src @ r' \<in> P"
    and k: "map_of fs (src @ r) = Some Dir"
  shows "\<exists>f'. mkdir_all f (dst @ r) = Some f' \<and> mirrored fs src dst (insert (src @ r) P) f'"
proof -
  note wf = two_treesD(1) [OF t] and not_empty = two_treesD(5,6) [OF t] and chain = two_treesD(7) [OF t]
  have below: "map_of f (dst @ r') = Some Dir" if "strict_prefix r' r" for r'
  proof -
    have "map_of fs (src @ r') = Some Dir" using wf_parent [OF wf _ that, of src] k not_empty by auto
    then show ?thesis using m par [OF that] by (simp add: mirrored_def)
  qed
  have ok: "map_of f j = None \<or> map_of f j = Some Dir" if "prefix j (dst @ r)" "j \<noteq> []" for j
  proof (cases "prefix dst j")
    case True
    then obtain r' where r': "j = dst @ r'" by (auto simp: prefix_def)
    have pr: "prefix r' r" using that r' by simp
    show ?thesis
    proof (cases "r' = r")
      case True
      then show ?thesis using m k r' by (auto simp: mirrored_def)
    qed (use below [of r'] r' pr in \<open>auto simp: strict_prefix_def\<close>)
  next
    case False
    then have "strict_prefix j dst" using that by (metis prefix_append strict_prefix_def prefix_order.refl append_Nil2)
    then show ?thesis using m False chain [of j] that(2) unfolding mirrored_def by (metis)
  qed
  obtain f' where f': "mkdir_all f (dst @ r) = Some f'"
    "\<And>j. map_of f' j = (if prefix j (dst @ r) \<and> j \<noteq> [] then Some Dir else map_of f j)"
    by (rule mkdir_all_some [of "dst @ r" f]) (use ok in blast)+
  have "map_of f' (dst @ r') = (if src @ r' \<in> insert (src @ r) P then map_of fs (src @ r') else None)" for r'
  proof (cases "prefix r' r")
    case True
    then show ?thesis
    proof (cases "r' = r")
      case True
      then show ?thesis using f'(2) [of "dst @ r'"] k not_empty by simp
    next
      case False
      then have s: "strict_prefix r' r" using True by (simp add: strict_prefix_def)
      have "map_of fs (src @ r') = Some Dir" using below [OF s] m par [OF s] by (simp add: mirrored_def)
      then show ?thesis using f'(2) [of "dst @ r'"] True par [OF s] not_empty by simp
    qed
  next
    case False
    then show ?thesis using f'(2) [of "dst @ r'"] m by (auto simp: mirrored_def)
  qed
  moreover have "map_of f' j = map_of fs j \<or> strict_prefix j dst \<and> map_of f' j = Some Dir" if "\<not> prefix dst j" for j
  proof (cases "prefix j (dst @ r) \<and> j \<noteq> []")
    case True
    then have "strict_prefix j dst" using that by (metis prefix_append strict_prefix_def prefix_order.refl append_Nil2)
    then show ?thesis using f'(2) [of j] True by simp
  next
    case False
    then show ?thesis using f'(2) [of j] m that by (auto simp: mirrored_def)
  qed
  ultimately show ?thesis using f'(1) by (auto simp: mirrored_def)
qed

lemma mirror_file:
  assumes t: "two_trees fs src dst" and m: "mirrored fs src dst P f" and par: "\<And>r'. strict_prefix r' r \<Longrightarrow> src @ r' \<in> P"
    and k: "map_of fs (src @ r) = Some (File p d)" and new: "src @ r \<notin> P"
  shows "\<exists>f'. write_file f (dst @ r) p d = Some f' \<and> mirrored fs src dst (insert (src @ r) P) f'"
proof -
  note wf = two_treesD(1) [OF t] and not_empty = two_treesD(5,6) [OF t] and src_dir = two_treesD(2) [OF t]
  have r: "r \<noteq> []" using k src_dir by auto
  then have s: "strict_prefix (butlast r) r" by (metis append_butlast_last_id prefix_bot.bot_less prefixI strict_prefix_def append_self_conv list.distinct(1))
  have "map_of fs (src @ butlast r) = Some Dir" using wf_parent [OF wf _ s, of src] k not_empty by auto
  then have up: "map_of f (dst @ butlast r) = Some Dir" using m par [OF s] by (simp add: mirrored_def)
  have "map_of f (dst @ r) = None" using m new by (simp add: mirrored_def)
  then have "write_file f (dst @ r) p d = Some (AList.update (dst @ r) (File p d) f)"
    using up r not_empty by (simp add: write_file_def butlast_append)
  moreover have "mirrored fs src dst (insert (src @ r) P) (AList.update (dst @ r) (File p d) f)"
    using m k by (auto simp: mirrored_def update_conv')
  ultimately show ?thesis by blast
qed

lemma prefix_le: "(a :: string list) \<le> a @ b"
  by (induction a) simp_all

lemma walk_parents:
  assumes t: "two_trees fs src dst" and w: "walk fs src = xs @ (src @ r) # ks" and s: "strict_prefix r' r"
  shows "src @ r' \<in> set xs"
proof -
  have "src @ r \<in> set (walk fs src)" using w by simp
  then have "map_of fs (src @ r) \<noteq> None" by (simp add: set_walk)
  then have "map_of fs (src @ r') = Some Dir" using wf_parent [OF two_treesD(1) [OF t] _ s] two_treesD(5) [OF t] by blast
  then have inw: "src @ r' \<in> set xs \<union> {src @ r} \<union> set ks" using w set_walk [of fs src] by auto
  have sd: "sorted (walk fs src)" "distinct (walk fs src)" by (simp_all add: walk_def)
  obtain e where e: "r = r' @ e" "e \<noteq> []" using s by (auto simp: strict_prefix_def prefix_def)
  have "src @ r' \<noteq> src @ r" using e by simp
  moreover have "src @ r' \<notin> set ks"
  proof
    assume "src @ r' \<in> set ks"
    then have "src @ r \<le> src @ r'" using sd(1) w by (simp add: sorted_append)
    moreover have "src @ r' \<le> src @ r" using prefix_le [of "src @ r'" e] e by simp
    ultimately show False using e by simp
  qed
  ultimately show ?thesis using inw by blast
qed

lemma copy_walk_mirrors:
  assumes t: "two_trees fs src dst"
  shows "walk fs src = xs @ ks \<Longrightarrow> mirrored fs src dst (set xs) f \<Longrightarrow>
    \<exists>f'. copy_walk src dst ks f = (Inr (), f') \<and> mirrored fs src dst (set (xs @ ks)) f'"
proof (induction ks arbitrary: xs f)
  case (Cons k ks)
  have "k \<in> set (walk fs src)" using Cons.prems by simp
  then have k: "map_of fs k \<noteq> None" "prefix src k" by (simp_all add: set_walk)
  then obtain r where r: "k = src @ r" by (auto simp: prefix_def)
  have fk: "map_of f k = map_of fs k" by (rule mirrored_source [OF t Cons.prems(2) k(2)])
  have par: "src @ r' \<in> set xs" if "strict_prefix r' r" for r'
    using walk_parents [OF t _ that] Cons.prems(1) r by blast
  have ins: "insert (src @ r) (set xs) = set (xs @ [k])" using r by simp
  have go: "\<exists>f'. copy_walk src dst ks f1 = (Inr (), f') \<and> mirrored fs src dst (set (xs @ k # ks)) f'"
    if "mirrored fs src dst (insert (src @ r) (set xs)) f1" for f1
    using Cons.IH [of "xs @ [k]" f1] Cons.prems(1) that unfolding ins by simp
  show ?case
  proof (cases "map_of fs k")
    case (Some n)
    show ?thesis
    proof (cases n)
      case Dir
      then obtain f1 where "mkdir_all f (dst @ r) = Some f1" "mirrored fs src dst (insert (src @ r) (set xs)) f1"
        using mirror_dir [OF t Cons.prems(2) par] Some r by blast
      with go show ?thesis using Some Dir fk r by (simp add: Let_def)
    next
      case (File p d)
      have "distinct (walk fs src)" by (simp add: walk_def)
      then have "src @ r \<notin> set xs" using Cons.prems(1) r by simp
      then obtain f1 where "write_file f (dst @ r) p d = Some f1" "mirrored fs src dst (insert (src @ r) (set xs)) f1"
        using mirror_file [OF t Cons.prems(2) par] Some File r by blast
      with go show ?thesis using Some File fk r by (simp add: Let_def)
    qed
  qed (use k in simp)
qed simp

lemma CopyTree_mirrors:
  assumes t: "two_trees fs (key_of cur) (key_of out)" and free: "\<And>r. map_of fs (key_of out @ r) = None"
  shows "\<exists>f. CopyTree cur out fs = (Inr (), f) \<and> (\<forall>r. map_of f (key_of out @ r) = map_of fs (key_of cur @ r)) \<and>
    (\<forall>k. \<not> prefix (key_of out) k \<longrightarrow> map_of f k = map_of fs k \<or> strict_prefix k (key_of out) \<and> map_of f k = Some Dir)"
proof -
  have "mirrored fs (key_of cur) (key_of out) (set []) fs" using free by (simp add: mirrored_def)
  from copy_walk_mirrors [OF t _ this, of "walk fs (key_of cur)"] obtain f where
    f: "copy_walk (key_of cur) (key_of out) (walk fs (key_of cur)) fs = (Inr (), f)"
      "mirrored fs (key_of cur) (key_of out) (set (walk fs (key_of cur))) f" by auto
  have "map_of f (key_of out @ r) = map_of fs (key_of cur @ r)" for r
    using f(2) by (auto simp: mirrored_def set_walk)
  then show ?thesis using f two_treesD(2) [OF t] by (auto simp: CopyTree_def mirrored_def)
qed

section \<open>Overlaying the changed files\<close>

definition file_at :: "fs \<Rightarrow> key \<Rightarrow> string option" where
  "file_at fs k = (case map_of fs k of Some (File p d) \<Rightarrow> Some d | _ \<Rightarrow> None)"

lemma file_at_iff: "file_at fs k = Some d \<longleftrightarrow> (\<exists>p. map_of fs k = Some (File p d))"
  and file_at_none: "file_at fs k = None \<longleftrightarrow> map_of fs k = None \<or> map_of fs k = Some Dir"
  by (auto simp: file_at_def split: option.splits node.splits)

text \<open>No file of the target is a directory of the source or lies below one of its files.\<close>

definition compatible :: "fs \<Rightarrow> fs \<Rightarrow> key \<Rightarrow> key \<Rightarrow> bool" where
  "compatible fs gs src tgt \<longleftrightarrow> (\<forall>t. file_at gs (tgt @ t) \<noteq> None \<longrightarrow>
     map_of fs (src @ t) \<noteq> Some Dir \<and> (\<forall>r. strict_prefix r t \<longrightarrow> file_at fs (src @ r) = None))"

definition overlaid :: "fs \<Rightarrow> fs \<Rightarrow> key \<Rightarrow> key \<Rightarrow> key \<Rightarrow> key set \<Rightarrow> fs \<Rightarrow> bool" where
  "overlaid fs gs src tgt dst W f \<longleftrightarrow>
     (\<forall>r. file_at f (dst @ r) = (if r \<in> W then file_at gs (tgt @ r) else file_at fs (src @ r))) \<and>
     (\<forall>r. map_of f (dst @ r) = Some Dir \<longrightarrow>
        map_of fs (src @ r) = Some Dir \<or> (\<exists>t. file_at gs (tgt @ t) \<noteq> None \<and> strict_prefix r t)) \<and>
     (\<forall>k. strict_prefix k dst \<and> k \<noteq> [] \<longrightarrow> map_of f k = None \<or> map_of f k = Some Dir)"

lemma target_dirs:
  assumes "wf_fs gs" "tgt \<noteq> []" "file_at gs (tgt @ t) \<noteq> None" "strict_prefix r t"
  shows "map_of gs (tgt @ r) = Some Dir" "file_at gs (tgt @ r) = None"
proof -
  have "map_of gs (tgt @ t) \<noteq> None" using assms(3) by (auto simp: file_at_none)
  then show "map_of gs (tgt @ r) = Some Dir" using wf_parent [OF assms(1) _ assms(4)] assms(2) by blast
  then show "file_at gs (tgt @ r) = None" by (simp add: file_at_none)
qed

lemma overlay_one:
  assumes wf: "wf_fs gs" and ne: "tgt \<noteq> []" "dst \<noteq> []" and c: "compatible fs gs src tgt" and o: "overlaid fs gs src tgt dst W f"
    and tf: "file_at gs (tgt @ t) = Some d" and t: "t \<noteq> []"
  shows "\<exists>f1 f2. mkdir_all f (dst @ butlast t) = Some f1 \<and> write_file f1 (dst @ t) perm d = Some f2 \<and>
    overlaid fs gs src tgt dst (insert t W) f2"
proof -
  have tn: "file_at gs (tgt @ t) \<noteq> None" using tf by simp
  have sp: "strict_prefix r t" if "prefix r (butlast t)" for r
    using that t by (metis append_butlast_last_id prefix_order.le_less_trans strict_prefixI' )
  have ok: "map_of f j = None \<or> map_of f j = Some Dir" if "prefix j (dst @ butlast t)" "j \<noteq> []" for j
  proof (cases "prefix dst j")
    case True
    then obtain r where r: "j = dst @ r" by (auto simp: prefix_def)
    then have s: "strict_prefix r t" using sp that by simp
    have "file_at gs (tgt @ r) = None" "file_at fs (src @ r) = None"
      using target_dirs(2) [OF wf ne(1) tn s] c tn s by (auto simp: compatible_def)
    then have "file_at f j = None" using o r by (simp add: overlaid_def)
    then show ?thesis by (simp add: file_at_none)
  next
    case False
    then have "strict_prefix j dst" using that by (metis prefix_append strict_prefix_def prefix_order.refl append_Nil2)
    then show ?thesis using o that(2) by (simp add: overlaid_def)
  qed
  obtain f1 where f1: "mkdir_all f (dst @ butlast t) = Some f1"
    "\<And>j. map_of f1 j = (if prefix j (dst @ butlast t) \<and> j \<noteq> [] then Some Dir else map_of f j)"
    by (rule mkdir_all_some [of "dst @ butlast t" f]) (use ok in blast)+
  have same: "file_at f1 j = file_at f j" for j
    using f1(2) [of j] ok [of j] by (auto simp: file_at_def split: option.splits)
  have np: "\<not> prefix (dst @ t) (dst @ butlast t)" using t by (simp add: not_prefix_cases) (metis append_butlast_last_id prefix_length_le length_append_singleton not_less_eq_eq order_refl)
  have nd: "map_of f1 (dst @ t) \<noteq> Some Dir"
  proof
    assume "map_of f1 (dst @ t) = Some Dir"
    then have "map_of f (dst @ t) = Some Dir" using f1(2) [of "dst @ t"] np by simp
    then obtain t2 where "file_at gs (tgt @ t2) \<noteq> None" "strict_prefix t t2"
      using o c tn unfolding overlaid_def compatible_def by blast
    from target_dirs(2) [OF wf ne(1) this] tn show False by simp
  qed
  have up: "map_of f1 (butlast (dst @ t)) = Some Dir" using f1(2) [of "dst @ butlast t"] t ne by (simp add: butlast_append)
  have "\<exists>p. write_file f1 (dst @ t) perm d = Some (AList.update (dst @ t) (File p d) f1)"
  proof (cases "map_of f1 (dst @ t)")
    case (Some n)
    then obtain p d0 where "n = File p d0" using nd by (cases n) auto
    then show ?thesis using Some up t by (auto simp: write_file_def)
  qed (use up t in \<open>auto simp: write_file_def\<close>)
  then obtain p where w: "write_file f1 (dst @ t) perm d = Some (AList.update (dst @ t) (File p d) f1)" by blast
  let ?f2 = "AList.update (dst @ t) (File p d) f1"
  have "file_at ?f2 (dst @ r) = (if r \<in> insert t W then file_at gs (tgt @ r) else file_at fs (src @ r))" for r
  proof (cases "r = t")
    case True
    have "file_at ?f2 (dst @ t) = Some d" by (simp add: file_at_def update_conv')
    then show ?thesis using tf True by simp
  next
    case False
    then have "file_at ?f2 (dst @ r) = file_at f1 (dst @ r)" by (simp add: file_at_def update_conv')
    then show ?thesis using False same o by (simp add: overlaid_def)
  qed
  moreover have "map_of fs (src @ r) = Some Dir \<or> (\<exists>t. file_at gs (tgt @ t) \<noteq> None \<and> strict_prefix r t)"
    if "map_of ?f2 (dst @ r) = Some Dir" for r
  proof -
    have "map_of f1 (dst @ r) = Some Dir" using that by (simp add: update_conv' split: if_splits)
    then have "prefix r (butlast t) \<or> map_of f (dst @ r) = Some Dir" using f1(2) [of "dst @ r"] by (auto split: if_splits)
    then show ?thesis using sp tn o unfolding overlaid_def by blast
  qed
  moreover have "map_of ?f2 k = None \<or> map_of ?f2 k = Some Dir" if "strict_prefix k dst" "k \<noteq> []" for k
  proof -
    have "k \<noteq> dst @ t" using that by (auto simp: strict_prefix_def)
    then show ?thesis using f1(2) [of k] o that by (auto simp: overlaid_def update_conv')
  qed
  ultimately show ?thesis using f1(1) w by (auto simp: overlaid_def)
qed

lemma read_limited_all: "int (length d) < n \<Longrightarrow> read_limited n d = d"
  by (simp add: read_limited_def)

text \<open>Names that survive the listing: no line break, no blanks around them, and not the listing's own name.\<close>

definition tidy :: "string list \<Rightarrow> bool" where
  "tidy t \<longleftrightarrow> plain t \<and> t \<noteq> [] \<and> CHR 0x0A \<notin> set (join_with ''/'' t) \<and> trim_space (join_with ''/'' t) = join_with ''/'' t \<and>
     join_with ''/'' t \<noteq> DeltaListingName"

lemma tidyD:
  assumes "tidy t"
  shows "plain t" "t \<noteq> []" "join_with ''/'' t \<noteq> DeltaListingName" "join_with ''/'' t \<noteq> []"
    "clean (join_with ''/'' t) = join_with ''/'' t" "\<not> escapes (join_with ''/'' t)" "\<not> is_abs (join_with ''/'' t)"
proof -
  show p: "plain t" "t \<noteq> []" "join_with ''/'' t \<noteq> DeltaListingName" using assms by (simp_all add: tidy_def)
  show "join_with ''/'' t \<noteq> []" using plain_comps [OF p(1)] p(2) by (metis comps_Nil)
  show "clean (join_with ''/'' t) = join_with ''/'' t" using p by (simp add: plain_clean unparse_join)
  show "\<not> escapes (join_with ''/'' t)" "\<not> is_abs (join_with ''/'' t)" using p by (simp_all add: plain_escapes plain_abs)
qed

lemma delta_member_tidy:
  assumes "is_abs to" "plain t" "file_at gs (key_of to @ t) = Some d"
  obtains p where "delta_member to gs (join_with ''/'' t) =
    Some \<lparr>z_name = join_with ''/'' t, z_dirbit = False, z_perm = p, z_size = int (length d), z_data = Some d, z_corrupt = False\<rparr>"
  using assms by (auto simp: delta_member_def join_key file_at_iff)

lemma unzip_delta_member:
  assumes out: "is_abs out" and t: "tidy t" and wf: "wf_fs gs" and ne: "tgt \<noteq> []" "key_of out \<noteq> []"
    and c: "compatible fs gs src tgt" and o: "overlaid fs gs src tgt (key_of out) W f" and tf: "file_at gs (tgt @ t) = Some d"
    and room: "nfiles b + 1 \<le> maxUnzipFiles" "int (length d) \<le> remaining b"
  shows "\<exists>f2. unzipOneBudgeted out
      \<lparr>z_name = join_with ''/'' t, z_dirbit = False, z_perm = p, z_size = int (length d), z_data = Some d, z_corrupt = False\<rparr> b f =
      (Inr (b\<lparr>nfiles := nfiles b + 1, remaining := remaining b - int (length d)\<rparr>), f2) \<and>
    overlaid fs gs src tgt (key_of out) (insert t W) f2"
proof -
  let ?z = "\<lparr>z_name = join_with ''/'' t, z_dirbit = False, z_perm = p, z_size = int (length d), z_data = Some d, z_corrupt = False\<rparr>"
  let ?b = "b\<lparr>nfiles := nfiles b + 1\<rparr>"
  note td = tidyD [OF t]
  obtain f1 f2 where f: "mkdir_all f (key_of out @ butlast t) = Some f1" "write_file f1 (key_of out @ t) (filePerm ?z) d = Some f2"
    "overlaid fs gs src tgt (key_of out) (insert t W) f2"
    using overlay_one [OF wf ne c o tf td(2)] by blast
  have bl: "butlast (key_of out @ t) = key_of out @ butlast t" using td(2) by (simp add: butlast_append)
  have rl: "read_limited (remaining b + 1) d = d" using room(2) by (intro read_limited_all) simp
  have "unzip_file (key_of out @ t) ?z ?b f = (Inr (?b\<lparr>remaining := remaining b - int (length d)\<rparr>), f2)"
    using room(2) f rl by (simp add: unzip_file_def bl)
  moreover have "unzipOneBudgeted out ?z b f = unzip_file (key_of out @ t) ?z ?b f"
    using td room(1) plain_not_dot [OF td(1,2)] plain_no_slash_end [OF td(1,2)] join_key [OF out td(1)]
    by (simp add: unzipOneBudgeted_def Let_def z_is_dir_def)
  ultimately show ?thesis using f(3) by simp
qed

lemma overlay_all:
  assumes out: "is_abs out" "is_abs to" and wf: "wf_fs gs" and ne: "key_of to \<noteq> []" "key_of out \<noteq> []"
    and c: "compatible fs gs src (key_of to)"
  shows "overlaid fs gs src (key_of to) (key_of out) W f \<Longrightarrow> \<forall>t \<in> set ts. tidy t \<and> file_at gs (key_of to @ t) \<noteq> None \<Longrightarrow>
    nfiles b + int (length ts) \<le> maxUnzipFiles \<Longrightarrow>
    (\<Sum>t\<leftarrow>ts. int (length (the (file_at gs (key_of to @ t))))) \<le> remaining b \<Longrightarrow>
    \<exists>ms b' f'. those (map (\<lambda>t. delta_member to gs (join_with ''/'' t)) ts) = Some ms \<and>
      members (\<lambda>z b f. if z_name z = DeltaListingName then (Inr b, f) else unzipOneBudgeted out z b f) (\<lambda>_. False) i ms b f = (Inr b', f') \<and>
      overlaid fs gs src (key_of to) (key_of out) (W \<union> set ts) f'"
proof (induction ts arbitrary: W f b i)
  case (Cons t ts)
  have t: "tidy t" using Cons.prems(2) by simp
  obtain d where d: "file_at gs (key_of to @ t) = Some d" using Cons.prems(2) by fastforce
  have nonneg: "0 \<le> (\<Sum>t\<leftarrow>ts. int (length (the (file_at gs (key_of to @ t)))))" by (intro sum_list_nonneg) auto
  obtain p where m: "delta_member to gs (join_with ''/'' t) =
      Some \<lparr>z_name = join_with ''/'' t, z_dirbit = False, z_perm = p, z_size = int (length d), z_data = Some d, z_corrupt = False\<rparr>"
    using delta_member_tidy [OF out(2) tidyD(1) [OF t] d] by blast
  have room: "nfiles b + 1 \<le> maxUnzipFiles" "int (length d) \<le> remaining b" using Cons.prems(3,4) d nonneg by simp_all
  let ?b = "b\<lparr>nfiles := nfiles b + 1, remaining := remaining b - int (length d)\<rparr>"
  obtain f2 where f2: "unzipOneBudgeted out
      \<lparr>z_name = join_with ''/'' t, z_dirbit = False, z_perm = p, z_size = int (length d), z_data = Some d, z_corrupt = False\<rparr> b f = (Inr ?b, f2)"
    "overlaid fs gs src (key_of to) (key_of out) (insert t W) f2"
    using unzip_delta_member [OF out(1) t wf ne c Cons.prems(1) d room] by blast
  obtain ms b' f' where r: "those (map (\<lambda>t. delta_member to gs (join_with ''/'' t)) ts) = Some ms"
    "members (\<lambda>z b f. if z_name z = DeltaListingName then (Inr b, f) else unzipOneBudgeted out z b f) (\<lambda>_. False) (Suc i) ms ?b f2 = (Inr b', f')"
    "overlaid fs gs src (key_of to) (key_of out) (insert t W \<union> set ts) f'"
    using Cons.IH [OF f2(2), of ?b "Suc i"] Cons.prems d by auto
  show ?case using m r f2(1) tidyD(3) [OF t] by auto
qed simp

lemma listing_lines_tidy:
  "\<forall>t \<in> set ts. tidy t \<Longrightarrow> int (length acc + length ts) \<le> maxUnzipFiles \<Longrightarrow>
   listing_lines acc (map (join_with ''/'') ts) = Inr (acc @ map (join_with ''/'') ts)"
proof (induction ts arbitrary: acc)
  case (Cons t ts)
  have t: "tidy t" using Cons.prems(1) by simp
  then have "trim_space (join_with ''/'' t) = join_with ''/'' t" by (simp add: tidy_def)
  with tidyD [OF t] Cons.IH [of "acc @ [join_with ''/'' t]"] Cons.prems show ?case by (simp add: Let_def)
qed simp

lemma split_join: "ps \<noteq> [] \<Longrightarrow> \<forall>p \<in> set ps. c \<notin> set p \<Longrightarrow> split_on c (join_with [c] ps) = ps"
  by (induction "[c]" ps rule: join_with.induct) (auto simp: split_on_no_sep split_on_append)

lemma readDeltaListing_tidy:
  assumes "ts \<noteq> []" "\<forall>t \<in> set ts. tidy t" "int (length ts) \<le> maxUnzipFiles"
    "int (length (join_with [CHR 0x0A] (map (join_with ''/'') ts))) \<le> listingLimit"
  shows "readDeltaListing (listing_member (map (join_with ''/'') ts)) = Inr (map (join_with ''/'') ts)"
proof -
  let ?d = "join_with [CHR 0x0A] (map (join_with ''/'') ts)"
  have "split_on (CHR 0x0A) ?d = map (join_with ''/'') ts" using assms(1,2) by (intro split_join) (auto simp: tidy_def)
  moreover have "read_limited (listingLimit + 1) ?d = ?d" using assms(4) by (intro read_limited_all) simp
  ultimately show ?thesis using listing_lines_tidy [OF assms(2), of "[]"] assms(3,4)
    by (simp add: readDeltaListing_def listing_member_def Let_def)
qed

lemma tree_files_iff: "k \<in> set (tree_files gs tgt) \<longleftrightarrow> prefix tgt k \<and> file_at gs k \<noteq> None"
  by (auto simp: tree_files_def set_walk file_at_none)

lemma rel_path_drop: "prefix tgt k \<Longrightarrow> drop (length tgt) k \<noteq> [] \<Longrightarrow> rel_path tgt k = join_with ''/'' (drop (length tgt) k)"
  by (simp add: rel_path_def unparse_join)

lemma rel_names:
  assumes "\<And>t. file_at gs (tgt @ t) \<noteq> None \<Longrightarrow> tidy t" "set ks \<subseteq> set (tree_files gs tgt)"
  shows "map (rel_path tgt) ks = map (join_with ''/'') (map (drop (length tgt)) ks)"
    "\<forall>t \<in> set (map (drop (length tgt)) ks). tidy t \<and> file_at gs (tgt @ t) \<noteq> None"
proof -
  have k: "tidy (drop (length tgt) k) \<and> file_at gs (tgt @ drop (length tgt) k) \<noteq> None \<and> prefix tgt k" if "k \<in> set ks" for k
  proof -
    have "prefix tgt k" "file_at gs k \<noteq> None" using that assms(2) tree_files_iff by blast+
    then show ?thesis using assms(1) by (auto simp: prefix_def)
  qed
  then show "\<forall>t \<in> set (map (drop (length tgt)) ks). tidy t \<and> file_at gs (tgt @ t) \<noteq> None" by auto
  show "map (rel_path tgt) ks = map (join_with ''/'') (map (drop (length tgt)) ks)"
  proof (simp, intro ballI)
    fix x assume "x \<in> set ks"
    with k tidyD(2) show "rel_path tgt x = join_with ''/'' (drop (length tgt) x)" by (intro rel_path_drop) blast+
  qed
qed

lemma sum_filter_le: "(\<And>x. 0 \<le> g x) \<Longrightarrow> (\<Sum>x\<leftarrow>filter P xs. g x) \<le> (\<Sum>x\<leftarrow>xs. g x :: int)"
  by (induction xs) (auto intro: add_increasing)

text \<open>What is left after the files that are not listed have been dropped.\<close>

lemma drop_to_target:
  assumes o: "overlaid fs gs src tgt (key_of out) W f" and W: "W \<subseteq> {t. file_at gs (tgt @ t) \<noteq> None}"
    and same: "\<And>t. file_at gs (tgt @ t) \<noteq> None \<Longrightarrow> t \<notin> W \<Longrightarrow> file_at fs (src @ t) = file_at gs (tgt @ t)"
    and plain: "\<And>t. file_at gs (tgt @ t) \<noteq> None \<Longrightarrow> tidy t" "\<And>t. file_at fs (src @ t) \<noteq> None \<Longrightarrow> plain t"
    and root: "file_at fs src = None" and listing: "set listing = join_with ''/'' ` {t. file_at gs (tgt @ t) \<noteq> None}"
  shows "file_at (dropMissing out listing f) (key_of out @ r) = file_at gs (tgt @ r)"
proof (cases "file_at f (key_of out @ r)")
  case None
  have "file_at gs (tgt @ r) = None"
  proof (rule ccontr)
    assume "file_at gs (tgt @ r) \<noteq> None"
    then have "file_at f (key_of out @ r) = file_at gs (tgt @ r)" using o same by (auto simp: overlaid_def)
    with None \<open>file_at gs (tgt @ r) \<noteq> None\<close> show False by simp
  qed
  moreover have "file_at (dropMissing out listing f) (key_of out @ r) = None"
    using dropMissing_below [of out listing f "key_of out @ r"] None
    by (cases "map_of (dropMissing out listing f) (key_of out @ r) = map_of f (key_of out @ r)") (auto simp: file_at_def)
  ultimately show ?thesis by simp
next
  case (Some d)
  then obtain p where f: "map_of f (key_of out @ r) = Some (File p d)" by (auto simp: file_at_iff)
  have r: "plain r" using Some o W plain tidyD(1) by (auto simp: overlaid_def split: if_splits)
  have kept: "file_at gs (tgt @ r) \<noteq> None \<longleftrightarrow> rel_path (key_of out) (key_of out @ r) \<in> clean ` set listing" if "r \<noteq> []"
  proof -
    have "clean ` set listing = set listing" unfolding listing image_image
      using plain(1) tidyD(5) by (intro image_cong) auto
    moreover have "rel_path (key_of out) (key_of out @ r) = join_with ''/'' r" using that by (simp add: rel_path_def unparse_join)
    moreover have "join_with ''/'' r \<in> set listing \<longleftrightarrow> file_at gs (tgt @ r) \<noteq> None"
      unfolding listing using plain_comps [OF r] plain_comps [OF tidyD(1) [OF plain(1)]] by (auto simp: image_iff)
    ultimately show ?thesis by simp
  qed
  show ?thesis
  proof (cases "file_at gs (tgt @ r) = None")
    case True
    have "r \<notin> W" using True W by auto
    then have "file_at fs (src @ r) \<noteq> None" using Some o by (auto simp: overlaid_def)
    then have ne: "r \<noteq> []" using root by auto
    then have "map_of (dropMissing out listing f) (key_of out @ r) = None"
      using dropMissing_files [OF f, of out listing] kept [OF ne] True by (simp add: strict_prefix_def)
    then have "file_at (dropMissing out listing f) (key_of out @ r) = None" by (simp add: file_at_none)
    then show ?thesis using True by simp
  next
    case False
    then have ne: "r \<noteq> []" using plain(1) tidyD(2) by blast
    then have "map_of (dropMissing out listing f) (key_of out @ r) = Some (File p d)"
      using dropMissing_files [OF f, of out listing] kept [OF ne] False by simp
    then have "file_at (dropMissing out listing f) (key_of out @ r) = Some d" by (simp add: file_at_def)
    then show ?thesis using Some o same False by (auto simp: overlaid_def split: if_splits)
  qed
qed

lemma not_differing:
  assumes paths: "is_abs frm" and t: "file_at gs (key_of to @ t) \<noteq> None" "tidy t"
    and nw: "t \<notin> set (map (drop (length (key_of to))) (filter (differs sha frm (key_of to) gs) (tree_files gs (key_of to))))"
    and hash: "\<And>d e. file_at gs (key_of frm @ t) = Some d \<Longrightarrow> file_at gs (key_of to @ t) = Some e \<Longrightarrow> sha d = sha e \<Longrightarrow> d = e"
  shows "file_at gs (key_of frm @ t) = file_at gs (key_of to @ t)"
proof -
  let ?k = "key_of to @ t"
  have k: "?k \<in> set (tree_files gs (key_of to))" using t by (simp add: tree_files_iff)
  have "\<not> differs sha frm (key_of to) gs ?k"
  proof
    assume "differs sha frm (key_of to) gs ?k"
    then have "?k \<in> set (filter (differs sha frm (key_of to) gs) (tree_files gs (key_of to)))" using k by simp
    then have "drop (length (key_of to)) ?k \<in> set (map (drop (length (key_of to))) (filter (differs sha frm (key_of to) gs) (tree_files gs (key_of to))))"
      unfolding set_map by (rule imageI)
    with nw show False by simp
  qed
  moreover have "rel_path (key_of to) ?k = join_with ''/'' t" using tidyD(2) [OF t(2)] by (simp add: rel_path_def unparse_join)
  ultimately obtain p old q new where "map_of gs (key_of frm @ t) = Some (File p old)" "map_of gs ?k = Some (File q new)" "sha old = sha new"
    using t tidyD(1) [OF t(2)] paths by (auto simp: differs_def join_key file_at_none split: option.splits node.splits)
  then show ?thesis using hash [of old new] by (simp add: file_at_def)
qed

lemma rels_all: "set (map (drop (length tgt)) (tree_files gs tgt)) = {t. file_at gs (tgt @ t) \<noteq> None}"
proof (intro equalityI subsetI)
  fix t assume "t \<in> {t. file_at gs (tgt @ t) \<noteq> None}"
  then have "tgt @ t \<in> set (tree_files gs tgt)" by (simp add: tree_files_iff)
  then have "drop (length tgt) (tgt @ t) \<in> set (map (drop (length tgt)) (tree_files gs tgt))" unfolding set_map by (rule imageI)
  then show "t \<in> set (map (drop (length tgt)) (tree_files gs tgt))" by simp
qed (auto simp: tree_files_iff prefix_def)

lemma copied_overlaid:
  assumes user: "two_trees fs (key_of cur) (key_of out)" "\<And>r. map_of fs (key_of out @ r) = None"
  obtains f where "CopyTree cur out fs = (Inr (), f)" "overlaid fs gs (key_of cur) tgt (key_of out) {} f"
proof -
  obtain f where f: "CopyTree cur out fs = (Inr (), f)" "\<forall>r. map_of f (key_of out @ r) = map_of fs (key_of cur @ r)"
    "\<forall>k. \<not> prefix (key_of out) k \<longrightarrow> map_of f k = map_of fs k \<or> strict_prefix k (key_of out) \<and> map_of f k = Some Dir"
    using CopyTree_mirrors [OF user] by blast
  have "map_of f k = None \<or> map_of f k = Some Dir" if "strict_prefix k (key_of out)" "k \<noteq> []" for k
  proof -
    have "\<not> prefix (key_of out) k" using that(1) by (simp add: prefix_order.leD)
    then show ?thesis using f(3) two_treesD(7) [OF user(1) that] by metis
  qed
  then have "overlaid fs gs (key_of cur) tgt (key_of out) {} f" using f(2) by (auto simp: overlaid_def file_at_def)
  with f(1) that show thesis by blast
qed

section \<open>Properties\<close>

text \<open>
  C34. A delta rebuilds its target: what \<open>update-tool delta\<close> makes of two trees, applied over an installed tree
  with the files of the first, succeeds and leaves exactly the files of the second, with their contents;
  files the new version dropped are gone. Assumed are tidy file names, no file in the place of a directory
  between the two trees, hashes that tell the two versions of a file apart, sizes within the budgets of the
  extractor, and a fresh output directory.
\<close>

theorem delta_rebuilds_target:
  assumes gen: "genDelta sha frm to gs = Inr ar"
    and paths: "is_abs frm" "is_abs to" "is_abs out"
    and build: "wf_fs gs" "key_of to \<noteq> []"
    and installed: "\<And>r. file_at fs (key_of cur @ r) = file_at gs (key_of frm @ r)"
    and user: "two_trees fs (key_of cur) (key_of out)" "\<And>r. map_of fs (key_of out @ r) = None"
    and names: "\<And>t. file_at gs (key_of to @ t) \<noteq> None \<Longrightarrow> tidy t" "\<And>t. file_at gs (key_of frm @ t) \<noteq> None \<Longrightarrow> plain t"
    and fits: "compatible fs gs (key_of cur) (key_of to)"
    and hash: "\<And>t d e. file_at gs (key_of frm @ t) = Some d \<Longrightarrow> file_at gs (key_of to @ t) = Some e \<Longrightarrow> sha d = sha e \<Longrightarrow> d = e"
    and small: "int (length (tree_files gs (key_of to))) \<le> 10000"
      "(\<Sum>k\<leftarrow>tree_files gs (key_of to). int (length (the (file_at gs k)))) \<le> 1073741824"
      "int (length (join_with [CHR 0x0A] (map (rel_path (key_of to)) (tree_files gs (key_of to))))) \<le> 8388608"
  shows "\<exists>fs'. Apply False (\<lambda>_. False) cur (Some ar) out fs = (Inr (), fs') \<and>
    (\<forall>r. file_at fs' (key_of out @ r) = file_at gs (key_of to @ r))"
proof -
  let ?t = "key_of to" and ?s = "key_of cur" and ?d = "key_of out"
  let ?all = "tree_files gs ?t" and ?chg = "filter (differs sha frm ?t gs) (tree_files gs ?t)"
  let ?rel = "map (drop (length ?t))"
  have dne: "?d \<noteq> []" by (rule two_treesD(6) [OF user(1)])
  have all: "map (rel_path ?t) ?all = map (join_with ''/'') (?rel ?all)" "\<forall>t \<in> set (?rel ?all). tidy t \<and> file_at gs (?t @ t) \<noteq> None"
    using rel_names [of gs ?t ?all, OF names(1)] by blast+
  have chg: "map (rel_path ?t) ?chg = map (join_with ''/'') (?rel ?chg)" "\<forall>t \<in> set (?rel ?chg). tidy t \<and> file_at gs (?t @ t) \<noteq> None"
    using rel_names [of gs ?t ?chg, OF names(1)] by fastforce+
  obtain ms where ms: "those (map (delta_member to gs) (map (rel_path ?t) ?chg)) = Some ms" and ne: "?chg \<noteq> []"
    and ar: "ar = listing_member (map (rel_path ?t) ?all) # ms"
    using gen by (auto simp: genDelta_def diffTrees_def listTreeFiles_def split: if_splits option.splits)
  obtain f where f: "CopyTree cur out fs = (Inr (), f)" and o: "overlaid fs gs ?s ?t ?d {} f"
    by (rule copied_overlaid [OF user])
  have rejoin: "?t @ drop (length ?t) k = k" if "k \<in> set ?all" for k using that by (auto simp: tree_files_iff prefix_def)
  have "(\<Sum>t\<leftarrow>?rel ?chg. int (length (the (file_at gs (?t @ t))))) = (\<Sum>k\<leftarrow>?chg. int (length (the (file_at gs k))))"
    unfolding map_map comp_def by (rule arg_cong [of _ _ sum_list], rule map_cong) (auto simp: rejoin)
  also have "\<dots> \<le> (\<Sum>k\<leftarrow>?all. int (length (the (file_at gs k))))" by (rule sum_filter_le) simp
  also have "\<dots> \<le> 1073741824" by (rule small(2))
  finally have sum: "(\<Sum>t\<leftarrow>?rel ?chg. int (length (the (file_at gs (?t @ t))))) \<le> remaining newUnzipBudget"
    by (simp add: newUnzipBudget_def maxUnzipTotalBytes_def)
  have num: "nfiles newUnzipBudget + int (length (?rel ?chg)) \<le> maxUnzipFiles"
    using small(1) le_trans [OF length_filter_le [of "differs sha frm ?t gs" ?all], of 10000]
    by (simp add: newUnzipBudget_def maxUnzipFiles_def)
  obtain b' f' where m: "members (\<lambda>z b f. if z_name z = DeltaListingName then (Inr b, f) else unzipOneBudgeted out z b f)
      (\<lambda>_. False) (Suc 0) ms newUnzipBudget f = (Inr b', f')" "overlaid fs gs ?s ?t ?d (set (?rel ?chg)) f'"
    using overlay_all [OF paths(3,2) build(1,2) dne fits o chg(2) num sum, of "Suc 0"] ms unfolding chg(1) by (auto simp: comp_def)
  have ane: "?rel ?all \<noteq> []" using ne by auto
  have lst: "readDeltaListing (listing_member (map (rel_path ?t) ?all)) = Inr (map (rel_path ?t) ?all)"
    unfolding all(1) using ane all(2) small(1,3) unfolding all(1)
    by (intro readDeltaListing_tidy) (auto simp: maxUnzipFiles_def listingLimit_def)
  have ln: "z_name (listing_member names) = DeltaListingName" for names by (simp add: listing_member_def Let_def)
  have res: "Apply False (\<lambda>_. False) cur (Some ar) out fs = (Inr (), dropMissing out (map (rel_path ?t) ?all) f')"
    using f lst m(1) ln ane by (simp add: Apply_def ar)
  have unchanged: "file_at fs (?s @ t) = file_at gs (?t @ t)" if "file_at gs (?t @ t) \<noteq> None" "t \<notin> set (?rel ?chg)" for t
    using not_differing [OF paths(1) that(1) names(1) [OF that(1)] that(2) hash] installed by simp
  have "file_at (dropMissing out (map (rel_path ?t) ?all) f') (?d @ r) = file_at gs (?t @ r)" for r
  proof (rule drop_to_target [OF m(2) _ unchanged names(1)])
    show "set (?rel ?chg) \<subseteq> {t. file_at gs (?t @ t) \<noteq> None}" using chg(2) by blast
    show "file_at fs ?s = None" using two_treesD(2) [OF user(1)] by (simp add: file_at_none)
    show "plain t" if "file_at fs (?s @ t) \<noteq> None" for t using names(2) installed that by simp
    show "set (map (rel_path ?t) ?all) = join_with ''/'' ` {t. file_at gs (?t @ t) \<noteq> None}"
      unfolding all(1) rels_all [symmetric] by (simp only: list.set_map)
  qed
  with res show ?thesis by blast
qed

definition build_trees :: fs where
  "build_trees = [([''a''], Dir), ([''a'', ''x''], File 420 ''1''), ([''a'', ''y''], File 420 ''2''),
     ([''b''], Dir), ([''b'', ''x''], File 493 ''3'')]"

definition user_tree :: fs where
  "user_tree = [([''u''], Dir), ([''u'', ''x''], File 420 ''1''), ([''u'', ''y''], File 420 ''2'')]"

lemma example_wf: "wf_fs build_trees" "wf_fs user_tree"
  by (auto simp: wf_fs_def build_trees_def user_tree_def append_eq_Cons_conv split: if_splits)

theorem delta_rebuilds_target_witness:
  "\<exists>ar fs'. genDelta id ''/a'' ''/b'' build_trees = Inr ar \<and>
     Apply False (\<lambda>_. False) ''/u'' (Some ar) ''/o'' user_tree = (Inr (), fs') \<and>
     file_at fs' [''o'', ''x''] = Some ''3'' \<and> file_at fs' [''o'', ''y''] = None"
proof -
  have k: "key_of ''/a'' = [''a'']" "key_of ''/b'' = [''b'']" "key_of ''/u'' = [''u'']" "key_of ''/o'' = [''o'']"
    "is_abs ''/a''" "is_abs ''/b''" "is_abs ''/o''" "tidy [''x'']" "plain [''x'']" "plain [''y'']" by code_simp+
  have g: "is_ok (genDelta id ''/a'' ''/b'' build_trees)" by code_simp
  then obtain ar where ar: "genDelta id ''/a'' ''/b'' build_trees = Inr ar" by (auto simp: is_ok_iff)
  have w: "tree_files build_trees [''b''] = [[''b'', ''x'']]" by code_simp
  have at: "file_at build_trees ([''b''] @ t) = (if t = [''x''] then Some ''3'' else None)"
    "file_at build_trees ([''a''] @ t) = (if t = [''x''] then Some ''1'' else if t = [''y''] then Some ''2'' else None)"
    "file_at user_tree ([''u''] @ t) = (if t = [''x''] then Some ''1'' else if t = [''y''] then Some ''2'' else None)" for t
    by (simp_all add: file_at_def build_trees_def user_tree_def)
  have user: "two_trees user_tree (key_of ''/u'') (key_of ''/o'')" "\<And>r. map_of user_tree (key_of ''/o'' @ r) = None"
    unfolding two_trees_def k using example_wf by (simp_all add: user_tree_def)
  have fits: "compatible user_tree build_trees (key_of ''/u'') (key_of ''/b'')"
    unfolding compatible_def k at by (auto simp: user_tree_def strict_prefix_def)
  have rp: "rel_path [''b''] [''b'', ''x''] = ''x''" by code_simp
  have "\<exists>fs'. Apply False (\<lambda>_. False) ''/u'' (Some ar) ''/o'' user_tree = (Inr (), fs') \<and>
      (\<forall>r. file_at fs' (key_of ''/o'' @ r) = file_at build_trees (key_of ''/b'' @ r))"
    by (rule delta_rebuilds_target [OF ar k(5,6,7) example_wf(1) _ _ user _ _ fits])
      (simp_all add: k w at [simplified] rp split: if_splits)
  then obtain fs' where f: "Apply False (\<lambda>_. False) ''/u'' (Some ar) ''/o'' user_tree = (Inr (), fs')"
    "\<forall>r. file_at fs' (key_of ''/o'' @ r) = file_at build_trees (key_of ''/b'' @ r)" by blast
  have "file_at fs' ([''o''] @ [''x'']) = Some ''3''" "file_at fs' ([''o''] @ [''y'']) = None"
    using f(2) unfolding k at by simp_all
  then show ?thesis using ar f(1) by simp
qed

text \<open>A new version that only deletes files has no delta: the tool sees no difference.\<close>

lemma deletion_has_no_delta:
  "genDelta id ''/a'' ''/b'' [([''a''], Dir), ([''a'', ''x''], File 420 ''1''), ([''a'', ''y''], File 420 ''2''),
     ([''b''], Dir), ([''b'', ''x''], File 420 ''1'')] = Inl NoDifferences"
  by code_simp

text \<open>
  Modes do not travel: an overlaid file keeps the mode it had, and a file of which only the mode changed is
  not in the delta at all.
\<close>

lemma delta_keeps_old_mode:
  "case genDelta id ''/a'' ''/b'' build_trees of
     Inl _ \<Rightarrow> False
   | Inr ar \<Rightarrow>
       map_of build_trees [''b'', ''x''] = Some (File 493 ''3'') \<and>
       map_of (snd (Apply False (\<lambda>_. False) ''/u'' (Some ar) ''/o'' user_tree)) [''o'', ''x''] = Some (File 420 ''3'')"
  by code_simp

text \<open>A path that changes from a file to a directory makes a delta that cannot be applied.\<close>

lemma file_to_directory_fails:
  "case genDelta id ''/a'' ''/b'' [([''a''], Dir), ([''a'', ''x''], File 420 ''1''),
       ([''b''], Dir), ([''b'', ''x''], Dir), ([''b'', ''x'', ''z''], File 420 ''2'')] of
     Inl _ \<Rightarrow> False
   | Inr ar \<Rightarrow> fst (Apply False (\<lambda>_. False) ''/u'' (Some ar) ''/o'' [([''u''], Dir), ([''u'', ''x''], File 420 ''1'')]) = Inl FsError"
  by code_simp

text \<open>A specification of a delta is read back, also with a drive letter in the file name.\<close>

lemma splitSpec_examples:
  "splitSpec ''delta:patch.zip:0.2.0'' = Inr (''delta'', ''patch.zip'', ''0.2.0'')"
  "splitSpec ''full:bundle.zip'' = Inr (''full'', ''bundle.zip'', [])"
  "splitSpec (''delta:C:'' @ [CHR 0x5C] @ ''p.zip:1.0.0'') = Inr (''delta'', ''C:'' @ [CHR 0x5C] @ ''p.zip'', ''1.0.0'')"
  by code_simp+

end
