(* ===== verification/Logging.thy ===== *)
theory Logging
  imports Prelude
begin

text \<open>
  The log (\<open>logging/logging.go\<close>): the redaction of likely secrets in a message and the ring buffer of
  entries. Messages are byte strings, already formatted. \<open>strings.ToLower\<close> is the parameter \<open>low\<close>: on ASCII
  text it maps byte by byte, elsewhere it may change the length. The result None is the run-time panic of a
  slice out of range.
\<close>

section \<open>Redaction\<close>

definition delims :: "char list" where
  "delims = [CHR 0x20, CHR 0x09, CHR 0x0A, CHR 0x0D, CHR 0x22, CHR 0x27, CHR '','', CHR '';'']"

definition sensitiveMarkers :: "string list" where
  "sensitiveMarkers = [''uuid='', ''password='', ''passwd='', ''token='', ''pbk='']"

definition stars :: string where "stars = ''***''"

text \<open>
  The loop of \<open>redactMarker\<close>, from the rest \<open>msg\<close> on. The position of the marker in the lower-cased text is
  used in the text itself. (With an empty marker the loop would not end; there is none.)
\<close>

function redactMarker :: "(string \<Rightarrow> string) \<Rightarrow> string \<Rightarrow> string \<Rightarrow> string option" where
  "redactMarker low marker msg =
     (if marker = [] then None
      else case str_index (low msg) marker of
        None \<Rightarrow> Some msg
      | Some i \<Rightarrow>
          (if length msg < i + length marker then None
           else
             let rest = drop (i + length marker) msg; tail = dropWhile (\<lambda>c. c \<notin> set delims) rest
             in if tail = [] then Some (take (i + length marker) msg @ stars)
                else (case redactMarker low marker tail of
                        None \<Rightarrow> None
                      | Some out \<Rightarrow> Some (take (i + length marker) msg @ stars @ out))))"
  by pat_completeness auto
termination
proof (relation "measure (\<lambda>(low, marker, msg). length msg)")
  fix low :: "string \<Rightarrow> string" and marker msg rest tail :: string and i
  assume "marker \<noteq> []" "\<not> length msg < i + length marker" "rest = drop (i + length marker) msg"
    "tail = dropWhile (\<lambda>c. c \<notin> set delims) rest"
  moreover have "length (dropWhile (\<lambda>c. c \<notin> set delims) rest) \<le> length rest" by (rule length_dropWhile_le)
  moreover have "0 < length marker" using \<open>marker \<noteq> []\<close> by simp
  ultimately show "((low, marker, tail), low, marker, msg) \<in> measure (\<lambda>(low, marker, msg). length msg)"
    by (simp, linarith)
qed simp

fun redact_all :: "(string \<Rightarrow> string) \<Rightarrow> string list \<Rightarrow> string \<Rightarrow> string option" where
  "redact_all low [] msg = Some msg"
| "redact_all low (m # ms) msg = (case redactMarker low m msg of None \<Rightarrow> None | Some msg' \<Rightarrow> redact_all low ms msg')"

definition Redact :: "(string \<Rightarrow> string) \<Rightarrow> string \<Rightarrow> string option" where
  "Redact low msg = redact_all low sensitiveMarkers msg"

section \<open>The buffer\<close>

datatype level = DEBUG | INFO | WARN | ERROR

fun level_nr :: "level \<Rightarrow> nat" where
  "level_nr DEBUG = 0" | "level_nr INFO = 1" | "level_nr WARN = 2" | "level_nr ERROR = 3"

fun level_string :: "level \<Rightarrow> string" where
  "level_string DEBUG = ''DEBUG''" | "level_string INFO = ''INFO''" | "level_string WARN = ''WARN''" | "level_string ERROR = ''ERROR''"

record entry =
  e_at :: int
  e_level :: level
  e_message :: string

record logger =
  lg_level :: level
  lg_entries :: "entry list"
  lg_max :: nat

definition new_logger :: "level \<Rightarrow> int \<Rightarrow> logger" where
  "new_logger lv mx = \<lparr>lg_level = lv, lg_entries = [], lg_max = (if mx \<le> 0 then 2000 else nat mx)\<rparr>"

definition write_log :: "(string \<Rightarrow> string) \<Rightarrow> int \<Rightarrow> level \<Rightarrow> string \<Rightarrow> logger \<Rightarrow> logger option" where
  "write_log low now lv msg l =
     (if level_nr lv < level_nr (lg_level l) then Some l
      else case Redact low msg of
        None \<Rightarrow> None
      | Some m \<Rightarrow>
          (let es = lg_entries l @ [\<lparr>e_at = now, e_level = lv, e_message = m\<rparr>]
           in Some (l\<lparr>lg_entries := (if length es > lg_max l then drop (length es - lg_max l) es else es)\<rparr>)))"

definition Recent :: "int \<Rightarrow> level \<Rightarrow> logger \<Rightarrow> entry list" where
  "Recent n lv l =
     (let out = filter (\<lambda>e. level_nr (e_level e) \<ge> level_nr lv) (lg_entries l)
      in if n > 0 \<and> int (length out) > n then drop (length out - nat n) out else out)"

definition Clear :: "logger \<Rightarrow> logger" where
  "Clear l = l\<lparr>lg_entries := []\<rparr>"

datatype log_op = Log int level string | ClearLog

fun log_ops :: "(string \<Rightarrow> string) \<Rightarrow> log_op list \<Rightarrow> logger \<Rightarrow> logger option" where
  "log_ops low [] l = Some l"
| "log_ops low (Log now lv msg # xs) l = (case write_log low now lv msg l of None \<Rightarrow> None | Some l' \<Rightarrow> log_ops low xs l')"
| "log_ops low (ClearLog # xs) l = log_ops low xs (Clear l)"

section \<open>What redaction leaves\<close>

definition lc :: "char \<Rightarrow> char" where
  "lc c = (if 65 \<le> (of_char c :: nat) \<and> (of_char c :: nat) \<le> 90 then char_of (of_char c + 32 :: nat) else c)"

definition ascii :: "string \<Rightarrow> bool" where
  "ascii s \<longleftrightarrow> list_all (\<lambda>c. (of_char c :: nat) < 128) s"

text \<open>The marker in any case of letters.\<close>

definition starts :: "string \<Rightarrow> string \<Rightarrow> bool" where
  "starts m s \<longleftrightarrow> has_prefix (map lc s) m"

definition hidden :: "string \<Rightarrow> bool" where
  "hidden t \<longleftrightarrow> (\<exists>r. t = stars @ r \<and> (r = [] \<or> hd r \<in> set delims))"

fun masked :: "string \<Rightarrow> string \<Rightarrow> bool" where
  "masked m [] = True"
| "masked m (c # s) = ((starts m (c # s) \<longrightarrow> hidden (drop (length m) (c # s))) \<and> masked m s)"

text \<open>The reference: from left to right, every value after a marker becomes stars.\<close>

function mask_values :: "string \<Rightarrow> string \<Rightarrow> string" where
  "mask_values m [] = []"
| "mask_values m (c # s) =
     (if m \<noteq> [] \<and> starts m (c # s)
      then take (length m) (c # s) @ stars @ mask_values m (dropWhile (\<lambda>x. x \<notin> set delims) (drop (length m) (c # s)))
      else c # mask_values m s)"
  by pat_completeness auto
termination
proof (relation "measure (\<lambda>(m, s). length s)")
  fix m :: string and c s
  assume "m \<noteq> [] \<and> starts m (c # s)"
  then have "0 < length m" by simp
  moreover have "length (dropWhile (\<lambda>x. x \<notin> set delims) (drop (length m) (c # s))) \<le> length (drop (length m) (c # s))"
    by (rule length_dropWhile_le)
  ultimately show "((m, dropWhile (\<lambda>x. x \<notin> set delims) (drop (length m) (c # s))), m, c # s) \<in> measure (\<lambda>(m, s). length s)"
    by (simp, linarith)
qed auto

text \<open>What is needed of the markers: no star, no delimiter, lower case.\<close>

definition marker_ok :: "string \<Rightarrow> bool" where
  "marker_ok m \<longleftrightarrow> m \<noteq> [] \<and> CHR ''*'' \<notin> set m \<and> set m \<inter> set delims = {}"

lemma markers_ok: "list_all marker_ok sensitiveMarkers"
  by code_simp

lemma lc_stars: "lc (CHR ''*'') = CHR ''*''" "c \<in> set delims \<Longrightarrow> lc c = c"
  by (auto simp: lc_def delims_def)

lemma starts_simps [simp]: "starts [] s" "starts (x # m) [] = False" "starts (x # m) (c # s) = (lc c = x \<and> starts m s)"
  by (auto simp: starts_def has_prefix_def)

lemma starts_length: "starts m s \<Longrightarrow> length m \<le> length s"
  by (induction m arbitrary: s) (simp, case_tac s, auto)

lemma starts_append: "length m \<le> length u \<Longrightarrow> starts m (u @ v) = starts m u"
proof (induction m arbitrary: u)
  case (Cons x m)
  then show ?case by (cases u) auto
qed simp

text \<open>A marker contains no star, so it cannot reach over stars.\<close>

lemma starts_no_star: "CHR ''*'' \<notin> set m \<Longrightarrow> starts m (u @ stars @ v) \<Longrightarrow> length m \<le> length u"
proof (induction u arbitrary: m)
  case Nil
  then show ?case using lc_stars(1) by (cases m) (auto simp: stars_def)
next
  case (Cons c u)
  then show ?case by (cases m) auto
qed

lemma mask_head: "marker_ok m \<Longrightarrow> t = [] \<or> hd t \<in> set delims \<Longrightarrow> mask_values m t = [] \<or> hd (mask_values m t) \<in> set delims"
proof (cases t)
  case (Cons c s)
  assume ok: "marker_ok m" and t: "t = [] \<or> hd t \<in> set delims"
  then have "c \<in> set delims" using Cons by simp
  moreover have "\<not> starts m (c # s)" using ok \<open>c \<in> set delims\<close> lc_stars(2) [of c] by (cases m) (auto simp: marker_ok_def)
  ultimately show ?thesis using Cons by simp
qed simp

lemma dropWhile_head: "dropWhile (\<lambda>x. x \<notin> A) s = [] \<or> hd (dropWhile (\<lambda>x. x \<notin> A) s) \<in> A"
  using hd_dropWhile [of "\<lambda>x. x \<notin> A" s] by blast

lemma hidden_stars: "x = [] \<or> hd x \<in> set delims \<Longrightarrow> hidden (stars @ x)"
  by (auto simp: hidden_def)

lemma hidden_star_first: "hidden t \<Longrightarrow> \<exists>r. t = CHR ''*'' # r"
  by (auto simp: hidden_def stars_def)

lemma mask_hidden: "marker_ok m \<Longrightarrow> hidden t \<Longrightarrow> hidden (mask_values m t)"
proof -
  assume ok: "marker_ok m" and "hidden t"
  then obtain r where r: "t = stars @ r" "r = [] \<or> hd r \<in> set delims" by (auto simp: hidden_def)
  have "\<not> starts m (CHR ''*'' # s)" for s using ok lc_stars(1) by (cases m) (auto simp: marker_ok_def)
  then have "mask_values m t = stars @ mask_values m r" by (simp add: r(1) stars_def)
  then show ?thesis using hidden_stars [OF mask_head [OF ok r(2)]] by simp
qed

lemma marker_chars: "starts m s \<Longrightarrow> CHR ''*'' \<notin> set m \<Longrightarrow> CHR ''*'' \<notin> set (take (length m) s)"
proof (induction m arbitrary: s)
  case (Cons x m)
  then show ?case using lc_stars(1) by (cases s) auto
qed simp

lemma mask_at:
  assumes ok: "marker_ok m" and st: "starts m (c # s)"
  obtains u v X where "c # s = u @ v" "length u = length m" "CHR ''*'' \<notin> set u" "mask_values m (c # s) = u @ stars @ X"
    "X = mask_values m (dropWhile (\<lambda>x. x \<notin> set delims) v)" "X = [] \<or> hd X \<in> set delims" "v = drop (length m) (c # s)"
proof -
  have l: "length m \<le> length (c # s)" by (rule starts_length [OF st])
  have m: "mask_values m (c # s) = take (length m) (c # s) @ stars @ mask_values m (dropWhile (\<lambda>x. x \<notin> set delims) (drop (length m) (c # s)))"
    using ok st by (simp add: marker_ok_def)
  have h: "mask_values m (dropWhile (\<lambda>x. x \<notin> set delims) v) = [] \<or> hd (mask_values m (dropWhile (\<lambda>x. x \<notin> set delims) v)) \<in> set delims" for v
    by (rule mask_head [OF ok dropWhile_head])
  have star: "CHR ''*'' \<notin> set (take (length m) (c # s))" using marker_chars [OF st] ok by (simp add: marker_ok_def)
  show thesis
    by (rule that [of "take (length m) (c # s)" "drop (length m) (c # s)"])
      (use l m h star in \<open>simp_all only: append_take_drop_id length_take min.absorb2 not_False_eq_True\<close>)
qed

lemma starts_through:
  assumes ok: "marker_ok m2"
  shows "CHR ''*'' \<notin> set m1 \<Longrightarrow> starts m1 (mask_values m2 t) \<Longrightarrow>
    starts m1 t \<and> (hidden (drop (length m1) t) \<longrightarrow> hidden (drop (length m1) (mask_values m2 t)))"
proof (induction m1 arbitrary: t)
  case Nil
  then show ?case using mask_hidden [OF ok] by simp
next
  case (Cons x m1)
  show ?case
  proof (cases t)
    case Nil
    then show ?thesis using Cons.prems by simp
  next
    case t: (Cons c s)
    show ?thesis
    proof (cases "starts m2 (c # s)")
      case False
      then have m: "mask_values m2 t = c # mask_values m2 s" using t by simp
      then show ?thesis using Cons.IH [of s] Cons.prems t by simp
    next
      case True
      obtain u v X where u: "c # s = u @ v" "CHR ''*'' \<notin> set u" "mask_values m2 (c # s) = u @ stars @ X" "X = [] \<or> hd X \<in> set delims"
        using mask_at [OF ok True] by metis
      have le: "length (x # m1) \<le> length u" using starts_no_star [OF Cons.prems(1)] Cons.prems(2) t u(3) by simp
      have st: "starts (x # m1) t" using Cons.prems(2) starts_append [OF le] t u(1,3) by metis
      moreover have "hidden (drop (length (x # m1)) (mask_values m2 t))" if h: "hidden (drop (length (x # m1)) t)"
      proof (cases "length (x # m1) = length u")
        case True
        then show ?thesis using t u(3) hidden_stars [OF u(4)] by simp
      next
        case False
        then have "drop (length (x # m1)) u \<noteq> []" using le by simp
        then obtain y ys where y: "drop (length (x # m1)) u = y # ys" by (meson list.exhaust)
        then have "y \<in> set u" by (metis in_set_dropD list.set_intros(1))
        moreover have "drop (length (x # m1)) t = y # ys @ v" using t u(1) y le by simp
        ultimately show ?thesis using hidden_star_first [OF h] u(2) by auto
      qed
      ultimately show ?thesis by blast
    qed
  qed
qed

lemma masked_stars: "marker_ok m \<Longrightarrow> masked m X \<Longrightarrow> masked m (stars @ X)"
proof -
  assume ok: "marker_ok m" and X: "masked m X"
  have "\<not> starts m (CHR ''*'' # s)" for s using ok lc_stars(1) by (cases m) (auto simp: marker_ok_def)
  with X show ?thesis by (simp add: stars_def)
qed

lemma masked_block:
  assumes ok: "marker_ok m" and X: "masked m X" "X = [] \<or> hd X \<in> set delims"
  shows "masked m (u @ v) \<Longrightarrow> CHR ''*'' \<notin> set u \<Longrightarrow> masked m (u @ stars @ X)"
proof (induction u)
  case Nil
  then show ?case using masked_stars [OF ok X(1)] by simp
next
  case (Cons c u)
  have "hidden (drop (length m) (c # u @ stars @ X))" if st: "starts m (c # u @ stars @ X)"
  proof -
    have le: "length m \<le> length (c # u)" using starts_no_star [of m "c # u"] st ok by (simp add: marker_ok_def)
    have "starts m (c # u @ v)" using st starts_append [OF le, of "stars @ X"] starts_append [OF le, of v] by simp
    then have h: "hidden (drop (length m) (c # u @ v))" using Cons.prems(1) by simp
    show ?thesis
    proof (cases "length m = length (c # u)")
      case True
      then show ?thesis using hidden_stars [OF X(2)] by simp
    next
      case False
      then have "drop (length m) (c # u) \<noteq> []" using le by simp
      then obtain y ys where y: "drop (length m) (c # u) = y # ys" by (meson list.exhaust)
      then have "y \<in> set (c # u)" by (metis in_set_dropD list.set_intros(1))
      moreover have "drop (length m) (c # u @ v) = y # ys @ v" using y le drop_append [of "length m" "c # u" v] by simp
      ultimately show ?thesis using hidden_star_first [OF h] Cons.prems(2) by auto
    qed
  qed
  then show ?case using Cons by simp
qed

lemma masked_short:
  assumes ok: "marker_ok m" and X: "masked m X"
  shows "length u < length m \<Longrightarrow> masked m (u @ stars @ X)"
proof (induction u)
  case (Cons c u)
  have "\<not> starts m ((c # u) @ stars @ X)" using starts_no_star [of m "c # u" X] ok Cons.prems by (auto simp: marker_ok_def)
  then show ?case using Cons by simp
qed (use masked_stars [OF ok X] in simp)

lemma masked_suffix: "masked m (a @ b) \<Longrightarrow> masked m b"
  by (induction a) auto

lemma mask_masked: "marker_ok m \<Longrightarrow> masked m (mask_values m s)"
proof (induction m s rule: mask_values.induct)
  case (2 m c s)
  have ne: "m \<noteq> []" and star: "CHR ''*'' \<notin> set m" using "2.prems" by (simp_all add: marker_ok_def)
  show ?case
  proof (cases "starts m (c # s)")
    case True
    obtain u v X where u: "length u = length m" "mask_values m (c # s) = u @ stars @ X"
      "X = mask_values m (dropWhile (\<lambda>x. x \<notin> set delims) v)" "X = [] \<or> hd X \<in> set delims" "v = drop (length m) (c # s)"
      using mask_at [OF "2.prems" True] by metis
    have X: "masked m X" using "2.IH"(1) "2.prems" True ne u(3,5) by simp
    obtain y u' where y: "u = y # u'" using u(1) ne by (cases u) auto
    have "masked m (u' @ stars @ X)" using u(1) y by (intro masked_short [OF "2.prems" X]) simp
    moreover have "hidden (drop (length m) (u @ stars @ X))" using u(1) hidden_stars [OF u(4)] by simp
    ultimately show ?thesis using u(2) y by simp
  next
    case False
    then have m: "mask_values m (c # s) = c # mask_values m s" by simp
    then have "\<not> starts m (c # mask_values m s)" using starts_through [OF "2.prems" star, of "c # s"] False by metis
    then show ?thesis using m "2.IH"(2) "2.prems" False by simp
  qed
qed simp

lemma mask_keeps: "marker_ok m2 \<Longrightarrow> marker_ok m1 \<Longrightarrow> masked m1 s \<Longrightarrow> masked m1 (mask_values m2 s)"
proof (induction m2 s rule: mask_values.induct)
  case (2 m2 c s)
  have star: "CHR ''*'' \<notin> set m1" using "2.prems" by (simp add: marker_ok_def)
  show ?case
  proof (cases "starts m2 (c # s)")
    case True
    obtain u v X where u: "c # s = u @ v" "CHR ''*'' \<notin> set u" "mask_values m2 (c # s) = u @ stars @ X"
      "X = mask_values m2 (dropWhile (\<lambda>x. x \<notin> set delims) v)" "X = [] \<or> hd X \<in> set delims" "v = drop (length m2) (c # s)"
      using mask_at [OF "2.prems"(1) True] by metis
    have "v = takeWhile (\<lambda>x. x \<notin> set delims) v @ dropWhile (\<lambda>x. x \<notin> set delims) v" by simp
    then have "masked m1 (dropWhile (\<lambda>x. x \<notin> set delims) v)" using "2.prems"(3) u(1) masked_suffix by metis
    then have "masked m1 X" using "2.IH"(1) "2.prems" True u(4,6) by (simp add: marker_ok_def)
    from masked_block [OF "2.prems"(2) this u(5), of u v] show ?thesis using "2.prems"(3) u(1,2,3) by simp
  next
    case False
    then have m: "mask_values m2 (c # s) = c # mask_values m2 s" by simp
    have "hidden (drop (length m1) (c # mask_values m2 s))" if "starts m1 (c # mask_values m2 s)"
    proof -
      have "starts m1 (c # s) \<and> (hidden (drop (length m1) (c # s)) \<longrightarrow> hidden (drop (length m1) (mask_values m2 (c # s))))"
        using starts_through [OF "2.prems"(1) star, of "c # s"] that m by metis
      then show ?thesis using "2.prems"(3) m by simp
    qed
    then show ?thesis using m "2.IH"(2) "2.prems" False by simp
  qed
qed simp

section \<open>The loop and the reference\<close>

declare redactMarker.simps [simp del]

lemma index_none: "m \<noteq> [] \<Longrightarrow> str_index (map lc s) m = None \<Longrightarrow> mask_values m s = s"
  by (induction s) (auto simp: starts_def split: if_splits)

lemma index_some:
  "m \<noteq> [] \<Longrightarrow> str_index (map lc s) m = Some i \<Longrightarrow> i + length m \<le> length s \<and>
   mask_values m s = take (i + length m) s @ stars @ mask_values m (dropWhile (\<lambda>x. x \<notin> set delims) (drop (i + length m) s))"
proof (induction s arbitrary: i)
  case (Cons c s)
  show ?case
  proof (cases "starts m (c # s)")
    case True
    then have "i = 0" using Cons.prems by (simp add: starts_def)
    then show ?thesis using True Cons.prems(1) starts_length [OF True] by simp
  next
    case False
    then obtain j where "i = Suc j" "str_index (map lc s) m = Some j"
      using Cons.prems by (auto simp: starts_def split: if_splits)
    then show ?thesis using Cons.IH [of j] Cons.prems(1) False by simp
  qed
qed simp

lemma ascii_simps: "ascii (a @ b) \<longleftrightarrow> ascii a \<and> ascii b" "ascii stars"
  by (auto simp: ascii_def stars_def)

lemma ascii_drop: "ascii s \<Longrightarrow> ascii (drop n s)" "ascii s \<Longrightarrow> ascii (take n s)" "ascii s \<Longrightarrow> ascii (dropWhile P s)"
  by (auto simp: ascii_def list_all_iff dest: in_set_dropD in_set_takeD set_dropWhileD)

lemma redactMarker_mask:
  assumes low: "\<And>s. ascii s \<Longrightarrow> low s = map lc s" and m: "m \<noteq> []"
  shows "ascii msg \<Longrightarrow> redactMarker low m msg = Some (mask_values m msg) \<and> ascii (mask_values m msg)"
proof (induction msg rule: measure_induct_rule [of length])
  case (less msg)
  show ?case
  proof (cases "str_index (map lc msg) m")
    case None
    then show ?thesis using less.prems low m index_none [OF m None] by (simp add: redactMarker.simps [of low m msg])
  next
    case (Some i)
    note ix = index_some [OF m Some]
    let ?tail = "dropWhile (\<lambda>c. c \<notin> set delims) (drop (i + length m) msg)"
    have a: "ascii ?tail" "ascii (take (i + length m) msg)" using less.prems ascii_drop by blast+
    have "length ?tail \<le> length (drop (i + length m) msg)" by (rule length_dropWhile_le)
    moreover have "0 < length m" using m by simp
    ultimately have "length ?tail < length msg" using ix by (simp, linarith)
    note IH = less.IH [OF this a(1)]
    have "redactMarker low m msg = (if ?tail = [] then Some (take (i + length m) msg @ stars)
        else Some (take (i + length m) msg @ stars @ mask_values m ?tail))"
      using Some ix low [OF less.prems] m IH by (simp add: redactMarker.simps [of low m msg] Let_def)
    moreover have "mask_values m msg = take (i + length m) msg @ stars @ mask_values m ?tail" using ix by blast
    ultimately have "redactMarker low m msg = Some (mask_values m msg)"
      by (cases "?tail = []") (simp_all only: if_True if_False mask_values.simps(1) append_Nil2 simp_thms)
    then show ?thesis using ix a IH by (simp add: ascii_simps)
  qed
qed

lemma redact_all_mask:
  assumes low: "\<And>s. ascii s \<Longrightarrow> low s = map lc s"
  shows "list_all marker_ok ms \<Longrightarrow> ascii msg \<Longrightarrow> redact_all low ms msg = Some (fold mask_values ms msg)"
proof (induction ms arbitrary: msg)
  case (Cons m ms)
  then have "redactMarker low m msg = Some (mask_values m msg) \<and> ascii (mask_values m msg)"
    by (intro redactMarker_mask [OF low]) (auto simp: marker_ok_def)
  then show ?case using Cons by simp
qed simp

lemma fold_masked: "list_all marker_ok ms \<Longrightarrow> marker_ok m \<Longrightarrow> m \<in> set ms \<or> masked m s \<Longrightarrow> masked m (fold mask_values ms s)"
proof (induction ms arbitrary: s)
  case (Cons x ms)
  have "m \<in> set ms \<or> masked m (mask_values x s)"
    using Cons.prems mask_masked mask_keeps [of x m s] by auto
  then show ?case using Cons by simp
qed simp

lemma Redact_masked:
  assumes "\<And>s. ascii s \<Longrightarrow> low s = map lc s" "ascii msg"
  shows "\<exists>out. Redact low msg = Some out \<and> (\<forall>m \<in> set sensitiveMarkers. masked m out)"
  using redact_all_mask [OF assms(1) markers_ok assms(2)] fold_masked [OF markers_ok] markers_ok
  by (auto simp: Redact_def list_all_iff)

definition log_ok :: "logger \<Rightarrow> bool" where
  "log_ok l \<longleftrightarrow> length (lg_entries l) \<le> lg_max l \<and> (\<forall>e \<in> set (lg_entries l). \<forall>m \<in> set sensitiveMarkers. masked m (e_message e))"

lemma write_log_ok:
  assumes "\<And>s. ascii s \<Longrightarrow> low s = map lc s" "ascii msg" "log_ok l"
  shows "\<exists>l'. write_log low now lv msg l = Some l' \<and> log_ok l' \<and> lg_max l' = lg_max l"
  using Redact_masked [OF assms(1,2)] assms(3) by (auto simp: write_log_def Let_def log_ok_def dest!: in_set_dropD)

definition plain_op :: "log_op \<Rightarrow> bool" where
  "plain_op x = (case x of Log _ _ msg \<Rightarrow> ascii msg | ClearLog \<Rightarrow> True)"

lemma log_ops_ok:
  assumes low: "\<And>s. ascii s \<Longrightarrow> low s = map lc s"
  shows "list_all plain_op ops \<Longrightarrow> log_ok l \<Longrightarrow> \<exists>l'. log_ops low ops l = Some l' \<and> log_ok l' \<and> lg_max l' = lg_max l"
proof (induction ops arbitrary: l)
  case (Cons x ops)
  show ?case
  proof (cases x)
    case (Log now lv msg)
    then obtain l1 where "write_log low now lv msg l = Some l1" "log_ok l1" "lg_max l1 = lg_max l"
      using write_log_ok [OF low, of msg l] Cons.prems by (auto simp: plain_op_def)
    then show ?thesis using Cons.IH [of l1] Cons.prems(1) Log by simp
  next
    case ClearLog
    then show ?thesis using Cons.IH [of "Clear l"] Cons.prems by (simp add: Clear_def log_ok_def)
  qed
qed simp

section \<open>Properties\<close>



text \<open>
  Outside ASCII the lower-cased text may be longer than the text (an invalid byte becomes the three bytes of
  U+FFFD): the position found in it is then past the end, and logging panics, or past the marker, and the
  start of the secret stays.
\<close>

lemma redaction_panics:
  assumes "low ([CHR 0xFF, CHR 0xFF] @ ''uuid='') = [CHR 0xEF, CHR 0xBF, CHR 0xBD, CHR 0xEF, CHR 0xBF, CHR 0xBD] @ ''uuid=''"
  shows "Redact low ([CHR 0xFF, CHR 0xFF] @ ''uuid='') = None"
proof -
  have "redactMarker low ''uuid='' ([CHR 0xFF, CHR 0xFF] @ ''uuid='') = None"
    using assms by (subst redactMarker.simps) (simp add: has_prefix_def)
  then show ?thesis by (simp add: Redact_def sensitiveMarkers_def)
qed

lemma redaction_leaks:
  assumes "low ([CHR 0xFF] @ ''uuid=SECRET'') = [CHR 0xEF, CHR 0xBF, CHR 0xBD] @ ''uuid=secret''"
  shows "redactMarker low ''uuid='' ([CHR 0xFF] @ ''uuid=SECRET'') = Some ([CHR 0xFF] @ ''uuid=SE***'')"
  using assms by (subst redactMarker.simps) (simp add: has_prefix_def Let_def delims_def stars_def)

end
