(* ===== verification/Routes.thy ===== *)
theory Routes
  imports Prelude "HOL-Library.Word"
begin

text \<open>
  Where packets go: the IPv4 table of \<open>route print -4\<close> with longest-prefix match (\<open>routing/routetable.go\<close>,
  \<open>route_windows.go\<close>), the Linux readers of \<open>/proc/net/route\<close> and \<open>ip route get\<close> (\<open>route_unix.go\<close>), the check of
  the effective egress, and the search for foreign tunnels (\<open>platform/tuncheck*.go\<close>). Command outputs and
  files are parameters. IPv6 literals, which these IPv4 tools do not print, are not read.
\<close>

unbundle bit_operations_syntax

section \<open>Text\<close>

text \<open>\<open>strings.Fields\<close> on ASCII text.\<close>

definition is_blank :: "char \<Rightarrow> bool" where
  "is_blank c \<longleftrightarrow> c \<in> {CHR 0x09, CHR 0x0A, CHR 0x0B, CHR 0x0C, CHR 0x0D, CHR 0x20}"

fun fields_from :: "string \<Rightarrow> string \<Rightarrow> string list" where
  "fields_from cur [] = (if cur = [] then [] else [cur])"
| "fields_from cur (c # s) =
     (if is_blank c then (if cur = [] then fields_from [] s else cur # fields_from [] s)
      else fields_from (cur @ [c]) s)"

definition str_fields :: "string \<Rightarrow> string list" where
  "str_fields s = fields_from [] s"

text \<open>\<open>net.ParseIP\<close> on a dotted quad: four decimal numbers below 256 without leading zeros.\<close>

definition octet :: "string \<Rightarrow> nat option" where
  "octet s = (if s \<noteq> [] \<and> length s \<le> 3 \<and> list_all is_digit s \<and> (length s > 1 \<longrightarrow> hd s \<noteq> CHR ''0'') \<and> dec_value s < 256
     then Some (dec_value s) else None)"

definition quad :: "nat \<Rightarrow> nat \<Rightarrow> nat \<Rightarrow> nat \<Rightarrow> 32 word" where
  "quad a b c d = push_bit 24 (of_nat a) OR push_bit 16 (of_nat b) OR push_bit 8 (of_nat c) OR of_nat d"

definition parseIPv4 :: "string \<Rightarrow> (32 word) option" where
  "parseIPv4 s =
     (case map octet (split_on (CHR ''.'') s) of
        [Some a, Some b, Some c, Some d] \<Rightarrow> Some (quad a b c d)
      | _ \<Rightarrow> None)"

definition fold_case :: "string \<Rightarrow> string" where
  "fold_case s = map (\<lambda>c. if 65 \<le> (of_char c :: nat) \<and> (of_char c :: nat) \<le> 90 then char_of (of_char c + 32 :: nat) else c) s"

section \<open>The Windows route table\<close>

record route_entry =
  rt_dest :: "32 word"
  rt_mask :: "32 word"
  rt_gateway :: "32 word"
  rt_iface :: "32 word"
  rt_metric :: int

definition route_row :: "string list \<Rightarrow> route_entry option" where
  "route_row f =
     (if length f < 5 then None
      else case (parseIPv4 (trim_space (f ! 0)), parseIPv4 (trim_space (f ! 1)), parseIPv4 (f ! 3)) of
        (Some d, Some m, Some i) \<Rightarrow>
          (let metric = (case atoi (f ! 4) of Some n \<Rightarrow> n | None \<Rightarrow> 0)
           in case parseIPv4 (f ! 2) of
                Some g \<Rightarrow> Some \<lparr>rt_dest = d, rt_mask = m, rt_gateway = g, rt_iface = i, rt_metric = metric\<rparr>
              | None \<Rightarrow>
                  if fold_case (f ! 2) = ''on-link''
                  then Some \<lparr>rt_dest = d, rt_mask = m, rt_gateway = i, rt_iface = i, rt_metric = metric\<rparr>
                  else None)
      | _ \<Rightarrow> None)"

fun route_rows :: "bool \<Rightarrow> route_entry list \<Rightarrow> string list \<Rightarrow> route_entry list" where
  "route_rows inTable es [] = es"
| "route_rows inTable es (l # ls) =
     (let t = trim_space l
      in if has_prefix t ''Network Destination'' then route_rows True es ls
         else if \<not> inTable then route_rows inTable es ls
         else if t = [] \<or> has_prefix t ''='' then (if es \<noteq> [] then es else route_rows inTable es ls)
         else case route_row (str_fields t) of
           None \<Rightarrow> route_rows inTable es ls
         | Some e \<Rightarrow> route_rows inTable (es @ [e]) ls)"

definition parseIPv4Table :: "string \<Rightarrow> route_entry list option" where
  "parseIPv4Table out =
     (case route_rows False [] (split_on (CHR 0x0A) out) of [] \<Rightarrow> None | e # es \<Rightarrow> Some (e # es))"

text \<open>The leading ones, counted from bit 31 down.\<close>

fun leading_ones :: "32 word \<Rightarrow> nat \<Rightarrow> nat" where
  "leading_ones m 0 = 0"
| "leading_ones m (Suc i) = (if m AND push_bit i 1 = 0 then 0 else Suc (leading_ones m i))"

definition maskBits :: "32 word \<Rightarrow> nat" where
  "maskBits m = leading_ones m 32"

definition route_matches :: "32 word \<Rightarrow> route_entry \<Rightarrow> bool" where
  "route_matches d e \<longleftrightarrow> d AND rt_mask e = rt_dest e"

definition better_route :: "route_entry \<Rightarrow> route_entry \<Rightarrow> bool" where
  "better_route e b \<longleftrightarrow> maskBits (rt_mask e) > maskBits (rt_mask b) \<or>
     maskBits (rt_mask e) = maskBits (rt_mask b) \<and> rt_metric e < rt_metric b"

fun longest_from :: "32 word \<Rightarrow> route_entry option \<Rightarrow> route_entry list \<Rightarrow> route_entry option" where
  "longest_from d best [] = best"
| "longest_from d best (e # es) =
     (if \<not> route_matches d e then longest_from d best es
      else longest_from d (case best of None \<Rightarrow> Some e | Some b \<Rightarrow> if better_route e b then Some e else Some b) es)"

definition longestMatch :: "route_entry list \<Rightarrow> 32 word \<Rightarrow> route_entry option" where
  "longestMatch es d = longest_from d None es"

text \<open>The interface towards an address, and the default route, as its interface address and gateway.\<close>

definition EgressIface_windows :: "string option \<Rightarrow> 32 word \<Rightarrow> (32 word) option" where
  "EgressIface_windows out dst =
     (case Option.bind out parseIPv4Table of
        None \<Rightarrow> None
      | Some es \<Rightarrow> map_option rt_iface (longestMatch es dst))"

definition google_dns :: "32 word" where
  "google_dns = quad 8 8 8 8"

definition DefaultRoute_windows :: "string option \<Rightarrow> (32 word \<times> 32 word) option" where
  "DefaultRoute_windows out =
     (case Option.bind out parseIPv4Table of
        None \<Rightarrow> None
      | Some es \<Rightarrow> map_option (\<lambda>e. (rt_iface e, rt_gateway e)) (longestMatch es google_dns))"

text \<open>The address \<open>netsh\<close> prints for a device: the first line with one.\<close>

definition address_line :: "string \<Rightarrow> (32 word) option" where
  "address_line l =
     (if \<not> str_contains l ''IP Address'' then None
      else case str_index l '':'' of None \<Rightarrow> None | Some i \<Rightarrow> parseIPv4 (trim_space (drop (i + 1) l)))"

fun first_address :: "string list \<Rightarrow> (32 word) option" where
  "first_address [] = None"
| "first_address (l # ls) = (case address_line l of Some a \<Rightarrow> Some a | None \<Rightarrow> first_address ls)"

definition TunAddress :: "string option \<Rightarrow> (32 word) option" where
  "TunAddress out = (case out of None \<Rightarrow> None | Some s \<Rightarrow> first_address (split_on (CHR 0x0A) s))"

section \<open>Verification of the egress\<close>

datatype egress_verdict = EgressOk | EgressUnknown | NotViaTun | ViaTun

text \<open>\<open>netsh\<close> and \<open>table\<close> are the outputs of the two tools, None when they fail; \<open>tun\<close> is a name.\<close>

definition VerifyTUNDefault_windows :: "string option \<Rightarrow> string option \<Rightarrow> string \<Rightarrow> bool \<Rightarrow> egress_verdict" where
  "VerifyTUNDefault_windows netsh table tun expectTUN =
     (case (case parseIPv4 tun of Some a \<Rightarrow> Some a | None \<Rightarrow> TunAddress netsh) of
        None \<Rightarrow> if expectTUN then EgressUnknown else EgressOk
      | Some addr \<Rightarrow>
          (case EgressIface_windows table google_dns of
             None \<Rightarrow> EgressUnknown
           | Some i \<Rightarrow> if expectTUN \<and> i \<noteq> addr then NotViaTun else if \<not> expectTUN \<and> i = addr then ViaTun else EgressOk))"

text \<open>The word after \<open>dev\<close> in the answer of \<open>ip route get\<close>.\<close>

fun after_dev :: "string list \<Rightarrow> string option" where
  "after_dev (f # g # fs) = (if f = ''dev'' then Some g else after_dev (g # fs))"
| "after_dev fs = None"

definition EgressIface_unix :: "string option \<Rightarrow> string option" where
  "EgressIface_unix out = Option.bind out (\<lambda>s. after_dev (str_fields s))"

definition VerifyTUNDefault_unix :: "string option \<Rightarrow> string \<Rightarrow> bool \<Rightarrow> egress_verdict" where
  "VerifyTUNDefault_unix out tun expectTUN =
     (case EgressIface_unix out of
        None \<Rightarrow> EgressUnknown
      | Some i \<Rightarrow> if expectTUN \<and> i \<noteq> tun then NotViaTun else if \<not> expectTUN \<and> i = tun then ViaTun else EgressOk)"

text \<open>
  The polls of the daemon: \<open>verifyTUN\<close> until the device is there, \<open>verifyRouting\<close> until the egress is right; the
  deadline has passed after \<open>n\<close> more polls.
\<close>

fun verifyTUN :: "(nat \<Rightarrow> bool) \<Rightarrow> nat \<Rightarrow> nat \<Rightarrow> bool" where
  "verifyTUN present i 0 = present i"
| "verifyTUN present i (Suc n) = (present i \<or> verifyTUN present (Suc i) n)"

fun verifyRouting :: "(nat \<Rightarrow> egress_verdict) \<Rightarrow> nat \<Rightarrow> nat \<Rightarrow> egress_verdict" where
  "verifyRouting check i 0 = check i"
| "verifyRouting check i (Suc n) = (if check i = EgressOk then EgressOk else verifyRouting check (Suc i) n)"

section \<open>Linux route files\<close>

definition hex_nibble :: "char \<Rightarrow> nat option" where
  "hex_nibble c =
     (let n = (of_char c :: nat)
      in if 48 \<le> n \<and> n \<le> 57 then Some (n - 48) else if 97 \<le> n \<and> n \<le> 102 then Some (n - 87)
         else if 65 \<le> n \<and> n \<le> 70 then Some (n - 55) else None)"

text \<open>The address of \<open>/proc/net/route\<close>: eight hexadecimal digits, the low byte first.\<close>

definition hexIP :: "string \<Rightarrow> string" where
  "hexIP h =
     (case map hex_nibble h of
        [Some a, Some b, Some c, Some d, Some e, Some f, Some g, Some i] \<Rightarrow>
          nat_str (g * 16 + i) @ ''.'' @ nat_str (e * 16 + f) @ ''.'' @ nat_str (c * 16 + d) @ ''.'' @ nat_str (a * 16 + b)
      | _ \<Rightarrow> h)"

fun default_line :: "string list \<Rightarrow> (string \<times> string) option" where
  "default_line [] = None"
| "default_line (l # ls) =
     (let f = str_fields l
      in if length f \<ge> 3 \<and> f ! 1 = ''00000000'' \<and> f ! 2 \<noteq> ''00000000'' then Some (f ! 0, hexIP (f ! 2))
         else default_line ls)"

definition DefaultRoute_unix :: "string option \<Rightarrow> (string \<times> string) option" where
  "DefaultRoute_unix raw = Option.bind raw (\<lambda>s. default_line (tl (split_on (CHR 0x0A) s)))"

section \<open>Foreign tunnels\<close>

definition OwnTunName :: string where "OwnTunName = ''connective0''"

definition isVirtualNoise :: "string \<Rightarrow> bool" where
  "isVirtualNoise lower \<longleftrightarrow> list_ex (has_prefix lower) [''lo'', ''docker'', ''veth'', ''virbr'', ''br-'', ''lxcbr'', ''mpqemubr'']"

definition looksLikeTunnelName :: "string \<Rightarrow> bool" where
  "looksLikeTunnelName lower \<longleftrightarrow>
     list_ex (has_prefix lower) [''tun'', ''tap'', ''utun'', ''wg'', ''tailscale'', ''nordlynx'', ''proton''] \<or> str_contains lower ''tun''"

text \<open>The interfaces of \<open>/sys/class/net\<close>: the name, whether it has \<open>tun_flags\<close>, and \<open>operstate\<close> if it can be read.\<close>

definition OtherTunInterfaces :: "(string \<times> bool \<times> string option) list \<Rightarrow> string list" where
  "OtherTunInterfaces ifs =
     map fst (filter (\<lambda>(name, flags, state).
       name \<noteq> OwnTunName \<and> \<not> isVirtualNoise (fold_case name) \<and> (looksLikeTunnelName (fold_case name) \<or> flags) \<and>
       (case state of None \<Rightarrow> False | Some s \<Rightarrow> trim_space s = ''up'' \<or> trim_space s = ''unknown'')) ifs)"

definition CheckSafeForTun :: "(string \<times> bool \<times> string option) list \<Rightarrow> (string list, unit) res" where
  "CheckSafeForTun ifs = (if OtherTunInterfaces ifs \<noteq> [] then Inl (OtherTunInterfaces ifs) else Inr ())"

definition isWindowsVirtualNoise :: "string \<Rightarrow> bool" where
  "isWindowsVirtualNoise lower \<longleftrightarrow>
     list_ex (str_contains lower) [''loopback'', ''bluetooth'', ''vethernet'', ''hyper-v'', ''wsl'', ''container'', ''br-'', ''npcap'']"

definition isWintunBound :: "string option \<Rightarrow> string \<Rightarrow> bool" where
  "isWintunBound out name =
     (case out of None \<Rightarrow> False
      | Some s \<Rightarrow> list_ex (\<lambda>l. fold_case (trim_space l) = fold_case name) (split_on (CHR 0x0A) s))"

text \<open>A row of \<open>netsh interface show interface\<close>, as state and name.\<close>

definition parseNetshInterfaceLine :: "string \<Rightarrow> string \<times> string" where
  "parseNetshInterfaceLine line =
     (let f = str_fields line
      in if length f < 4 \<or> fold_case (f ! 0) \<notin> {''enabled'', ''disabled''} then ([], [])
         else (fold_case (f ! 1), join_with '' '' (drop 3 f)))"

text \<open>\<open>shown\<close> is the output of that command and \<open>wintun\<close> the driver's list, None when they fail.\<close>

definition OtherTunInterfaces_windows :: "string option \<Rightarrow> string option \<Rightarrow> string list" where
  "OtherTunInterfaces_windows shown wintun =
     (case shown of
        None \<Rightarrow> []
      | Some out \<Rightarrow> map snd (filter (\<lambda>(state, name).
          name \<noteq> [] \<and> state = ''connected'' \<and> fold_case name \<noteq> fold_case OwnTunName \<and> \<not> isWindowsVirtualNoise (fold_case name) \<and>
          (looksLikeTunnelName (fold_case name) \<or> isWintunBound wintun name))
          (map parseNetshInterfaceLine (split_on (CHR 0x0A) out))))"

lemma OtherTunInterfaces_windows_example:
  "OtherTunInterfaces_windows (Some (join_with [CHR 0x0A] [''Enabled  Connected  Dedicated  Ethernet'',
     ''Enabled  Connected  Dedicated  ProtonVPN TUN'', ''Enabled  Disconnected  Dedicated  wg0'', ''Enabled  Connected  Dedicated  Connective0''])) None
   = [''ProtonVPN TUN'']"
  by code_simp

section \<open>Lemmas\<close>

text \<open>The leading ones of a mask: that many top bits are set and the next one is not.\<close>

lemma leading_ones_spec:
  "n \<le> 32 \<Longrightarrow> leading_ones m n \<le> n \<and> (\<forall>i. n - leading_ones m n \<le> i \<and> i < n \<longrightarrow> bit m i) \<and>
   (leading_ones m n < n \<longrightarrow> \<not> bit m (n - leading_ones m n - 1))"
proof (induction n)
  case (Suc n)
  have b: "m AND push_bit n 1 = 0 \<longleftrightarrow> \<not> bit m n"
    using Suc.prems by (simp add: and_exp_eq_0_iff_not_bit push_bit_eq_mult)
  show ?case
  proof (cases "bit m n")
    case True
    then show ?thesis using Suc b by (auto simp: Suc_diff_le less_Suc_eq)
  next
    case False
    then show ?thesis using b by auto
  qed
qed simp

lemma better_irrefl: "\<not> better_route e e"
  by (simp add: better_route_def)

lemma longest_from_spec:
  "longest_from d best es = r \<Longrightarrow>
   (case r of
      None \<Rightarrow> best = None \<and> (\<forall>e \<in> set es. \<not> route_matches d e)
    | Some b \<Rightarrow> (best = Some b \<or> b \<in> set es \<and> route_matches d b) \<and>
        (\<forall>e \<in> set es. route_matches d e \<longrightarrow> \<not> better_route e b) \<and>
        (\<forall>b0. best = Some b0 \<longrightarrow> \<not> better_route b0 b))"
proof (induction es arbitrary: best)
  case Nil
  then show ?case by (auto simp: better_irrefl split: option.splits)
next
  case (Cons e es)
  show ?case
  proof (cases "route_matches d e")
    case False
    then show ?thesis using Cons.IH [of best] Cons.prems by (auto split: option.splits)
  next
    case True
    let ?n = "case best of None \<Rightarrow> Some e | Some b \<Rightarrow> if better_route e b then Some e else Some b"
    have r: "longest_from d ?n es = r" using Cons.prems True by simp
    have trans: "\<not> better_route x b" if "\<not> better_route y b" "\<not> better_route x y" for x y b
      using that by (auto simp: better_route_def)
    have asym: "better_route x y \<Longrightarrow> \<not> better_route y x" for x y by (auto simp: better_route_def)
    show ?thesis
    proof (cases best)
      case None
      then show ?thesis using Cons.IH [OF r] True by (auto split: option.splits)
    next
      case (Some b0)
      show ?thesis
      proof (cases "better_route e b0")
        case True
        then have n: "?n = Some e" using Some by simp
        show ?thesis using Cons.IH [OF r] Some trans [of e _ b0] asym [OF True] \<open>route_matches d e\<close> unfolding n
          by (auto split: option.splits)
      next
        case False
        then have n: "?n = Some b0" using Some by simp
        show ?thesis using Cons.IH [OF r] Some trans [of b0 _ e] False unfolding n by (auto split: option.splits)
      qed
    qed
  qed
qed

lemma verifyRouting_ok: "verifyRouting check i n = EgressOk \<longleftrightarrow> (\<exists>j. i \<le> j \<and> j \<le> i + n \<and> check j = EgressOk)"
proof (induction n arbitrary: i)
  case 0
  show ?case by (auto intro: le_antisym)
next
  case (Suc n)
  have "(\<exists>j. i \<le> j \<and> j \<le> i + Suc n \<and> check j = EgressOk) \<longleftrightarrow>
      check i = EgressOk \<or> (\<exists>j. Suc i \<le> j \<and> j \<le> Suc i + n \<and> check j = EgressOk)"
  proof
    assume "\<exists>j. i \<le> j \<and> j \<le> i + Suc n \<and> check j = EgressOk"
    then obtain j where j: "i \<le> j" "j \<le> i + Suc n" "check j = EgressOk" by blast
    then show "check i = EgressOk \<or> (\<exists>j. Suc i \<le> j \<and> j \<le> Suc i + n \<and> check j = EgressOk)"
      by (cases "j = i") (auto intro!: exI [of _ j])
  next
    assume "check i = EgressOk \<or> (\<exists>j. Suc i \<le> j \<and> j \<le> Suc i + n \<and> check j = EgressOk)"
    then consider "check i = EgressOk" | j where "Suc i \<le> j" "j \<le> Suc i + n" "check j = EgressOk" by blast
    then show "\<exists>j. i \<le> j \<and> j \<le> i + Suc n \<and> check j = EgressOk"
    proof cases
      case 1
      then show ?thesis by (intro exI [of _ i]) simp
    next
      case (2 j)
      then show ?thesis by (intro exI [of _ j]) simp
    qed
  qed
  then show ?case using Suc.IH [of "Suc i"] by simp
qed

lemma longestMatch_spec:
  "case longestMatch es d of
     None \<Rightarrow> \<forall>e \<in> set es. \<not> route_matches d e
   | Some b \<Rightarrow> b \<in> set es \<and> route_matches d b \<and>
       (\<forall>e \<in> set es. route_matches d e \<longrightarrow>
          maskBits (rt_mask e) < maskBits (rt_mask b) \<or> maskBits (rt_mask e) = maskBits (rt_mask b) \<and> rt_metric b \<le> rt_metric e)"
  using longest_from_spec [of d None es, OF refl]
  by (auto simp: longestMatch_def better_route_def not_less split: option.splits)

lemma maskBits_spec:
  "maskBits m \<le> 32 \<and> (\<forall>i. 32 - maskBits m \<le> i \<and> i < 32 \<longrightarrow> bit m i) \<and> (maskBits m < 32 \<longrightarrow> \<not> bit m (31 - maskBits m))"
  using leading_ones_spec [of 32 m] by (simp add: maskBits_def)

section \<open>Properties\<close>

text \<open>
  C39. The Windows check of the egress means what it says: when it confirms that traffic leaves through the
  tunnel, the entry of the route table that wins for the probe address, by the longest prefix and then the
  lowest metric, has the tunnel's address as its interface; the prefix length is the number of leading ones
  of the mask, which has no one above its first zero that would count.
\<close>

theorem windows_egress_verified:
  assumes "VerifyTUNDefault_windows netsh table tun True = EgressOk"
  shows "\<exists>addr out es b. (case parseIPv4 tun of Some a \<Rightarrow> a = addr | None \<Rightarrow> TunAddress netsh = Some addr) \<and>
    table = Some out \<and> parseIPv4Table out = Some es \<and> b \<in> set es \<and> rt_iface b = addr \<and> route_matches google_dns b \<and>
    (\<forall>e \<in> set es. route_matches google_dns e \<longrightarrow>
       maskBits (rt_mask e) < maskBits (rt_mask b) \<or> maskBits (rt_mask e) = maskBits (rt_mask b) \<and> rt_metric b \<le> rt_metric e) \<and>
    (\<forall>i. 32 - maskBits (rt_mask b) \<le> i \<and> i < 32 \<longrightarrow> bit (rt_mask b) i) \<and>
    (maskBits (rt_mask b) < 32 \<longrightarrow> \<not> bit (rt_mask b) (31 - maskBits (rt_mask b)))"
proof -
  obtain addr where a: "(case parseIPv4 tun of Some a \<Rightarrow> Some a | None \<Rightarrow> TunAddress netsh) = Some addr"
    and e: "EgressIface_windows table google_dns = Some addr"
    using assms by (auto simp: VerifyTUNDefault_windows_def split: option.splits if_splits)
  have a': "case parseIPv4 tun of Some a \<Rightarrow> a = addr | None \<Rightarrow> TunAddress netsh = Some addr"
    using a by (auto split: option.splits)
  obtain out es b where t: "table = Some out" "parseIPv4Table out = Some es" "longestMatch es google_dns = Some b" "rt_iface b = addr"
    using e by (auto simp: EgressIface_windows_def bind_eq_Some_conv split: option.splits)
  have "b \<in> set es \<and> route_matches google_dns b \<and>
       (\<forall>e \<in> set es. route_matches google_dns e \<longrightarrow>
          maskBits (rt_mask e) < maskBits (rt_mask b) \<or> maskBits (rt_mask e) = maskBits (rt_mask b) \<and> rt_metric b \<le> rt_metric e)"
    using longestMatch_spec [of es google_dns] t(3) by simp
  with a' t maskBits_spec [of "rt_mask b"] show ?thesis by blast
qed

definition route_print :: string where
  "route_print = join_with [CHR 0x0A] [''Network Destination  Netmask  Gateway  Interface  Metric'',
     ''0.0.0.0  0.0.0.0  10.0.0.1  10.0.0.5  25'', ''0.0.0.0  128.0.0.0  On-link  172.19.0.1  0'', ''===='']"

theorem windows_egress_verified_witness:
  "VerifyTUNDefault_windows None (Some route_print) ''172.19.0.1'' True = EgressOk \<and>
   (\<exists>out es b. Some route_print = Some out \<and> parseIPv4Table out = Some es \<and> b \<in> set es \<and> rt_iface b = quad 172 19 0 1)"
proof -
  have v: "VerifyTUNDefault_windows None (Some route_print) ''172.19.0.1'' True = EgressOk" by code_simp
  have p: "parseIPv4 ''172.19.0.1'' = Some (quad 172 19 0 1)" by code_simp
  from windows_egress_verified [OF v] p show ?thesis using v by fastforce
qed

text \<open>The kernel's spelling of an address, and the egress read from the answer of \<open>ip route get\<close>.\<close>

lemma route_examples:
  "hexIP ''0101A8C0'' = ''192.168.1.1''"
  "EgressIface_unix (Some ''8.8.8.8 dev connective0 table 2022 src 172.19.0.1'') = Some ''connective0''"
  by code_simp+

text \<open>
  The \<open>tun_flags\<close> file is documented to find a tunnel whatever its name; a name that starts like plumbing is
  passed over before it is looked at.
\<close>

lemma noise_hides_tunnel: "CheckSafeForTun [(''lotus'', True, Some ''up'')] = Inr ()"
  by code_simp

end
