(* ===== verification/Monitor.thy ===== *)
theory Monitor
  imports Routes "HOL-Library.Multiset" "HOL-Library.List_Lexorder" "HOL-Library.Char_ord"
begin

text \<open>
  Health probes and the network watcher (\<open>monitor/monitor.go\<close>), and the resolver snapshots (\<open>dns\<close>). A probe's HTTP exchange is a parameter (the
  status, or None for a failure); the interfaces and the route file are parameters of the snapshot; the
  watcher is a function of the polls it makes, None for a failed one.
\<close>

section \<open>Probes\<close>

definition Probe :: "(string \<Rightarrow> int option) \<Rightarrow> string \<Rightarrow> bool" where
  "Probe exchange testURL =
     (if testURL = [] then False
      else case exchange testURL of None \<Rightarrow> False | Some code \<Rightarrow> code = 204 \<or> 200 \<le> code \<and> code < 300)"

datatype probe_result = Reachable | NoTestUrl | AllFailed "string list"

fun probe_each :: "(string \<Rightarrow> int option) \<Rightarrow> string list \<Rightarrow> string list \<Rightarrow> probe_result" where
  "probe_each exchange errs [] = (if errs = [] then NoTestUrl else AllFailed errs)"
| "probe_each exchange errs (u # us) =
     (if u = [] then probe_each exchange errs us
      else if Probe exchange u then Reachable
      else probe_each exchange (errs @ [u]) us)"

definition ProbeURLs :: "(string \<Rightarrow> int option) \<Rightarrow> string list \<Rightarrow> probe_result" where
  "ProbeURLs exchange us = probe_each exchange [] us"

lemma probe_each_reachable: "probe_each exchange errs us = Reachable \<longleftrightarrow> (\<exists>u \<in> set us. u \<noteq> [] \<and> Probe exchange u)"
  by (induction us arbitrary: errs) auto

section \<open>Snapshots\<close>

record iface =
  if_name :: string
  if_up :: bool
  if_mac :: string
  if_addrs :: "string list option"

text \<open>The default routes of \<open>/proc/net/route\<close>, None when it cannot be read.\<close>

definition defaultRoutes :: "string option \<Rightarrow> string option" where
  "defaultRoutes raw = map_option (\<lambda>s.
     join_with '','' (sort (map (\<lambda>f. f ! 0 @ ''='' @ f ! 2)
       (filter (\<lambda>f. length f \<ge> 3 \<and> f ! 1 = ''00000000'') (map str_fields (tl (split_on (CHR 0x0A) s))))))) raw"

definition iface_part :: "iface \<Rightarrow> string list" where
  "iface_part i =
     (if \<not> if_up i then []
      else case if_addrs i of None \<Rightarrow> []
      | Some as1 \<Rightarrow> [if_name i @ ''|'' @ if_mac i @ ''|'' @ join_with '','' (sort as1)])"

definition Snapshot :: "iface list option \<Rightarrow> string option \<Rightarrow> string option" where
  "Snapshot ifs routes = map_option (\<lambda>is1.
     join_with '';'' (sort (concat (map iface_part is1))) @ ''||'' @
     (case defaultRoutes routes of None \<Rightarrow> ''routes-unavailable'' | Some r \<Rightarrow> r)) ifs"

text \<open>The order in which the system lists interfaces and addresses does not matter.\<close>

lemma Snapshot_order:
  assumes "mset is1 = mset is2"
  shows "Snapshot (Some is1) routes = Snapshot (Some is2) routes"
proof -
  have "mset (concat (map iface_part is1)) = (\<Sum>x \<in># mset is1. mset (iface_part x))" for is1
    by (induction is1) simp_all
  then have "mset (concat (map iface_part is1)) = mset (concat (map iface_part is2))" using assms by simp
  then have "sort (concat (map iface_part is1)) = sort (concat (map iface_part is2))"
    by (metis sorted_list_of_multiset_mset)
  then show ?thesis by (simp add: Snapshot_def)
qed

text \<open>
  The resolver state that is taken at a connect and compared at the disconnect (\<open>internal/dns\<close>): the hash of
  \<open>resolv.conf\<close>, or of the lines \<open>netsh\<close> prints, whatever their order and indentation.
\<close>

definition ResolvConfHash :: "(string \<Rightarrow> string) \<Rightarrow> string option \<Rightarrow> string option" where
  "ResolvConfHash hash raw = map_option hash raw"

definition resolver_lines :: "string \<Rightarrow> string list" where
  "resolver_lines out = filter (\<lambda>t. t \<noteq> []) (map trim_space (split_on (CHR 0x0A) out))"

definition ResolverSnapshot_windows :: "(string \<Rightarrow> string) \<Rightarrow> string option \<Rightarrow> string option" where
  "ResolverSnapshot_windows hash out = map_option (\<lambda>s. hash (join_with [CHR 0x0A] (sort (resolver_lines s)))) out"

lemma ResolverSnapshot_order:
  "mset (resolver_lines a) = mset (resolver_lines b) \<Longrightarrow>
     ResolverSnapshot_windows hash (Some a) = ResolverSnapshot_windows hash (Some b)"
  by (metis ResolverSnapshot_windows_def option.map(2) sorted_list_of_multiset_mset)

section \<open>The watcher\<close>

record watcher =
  wa_base :: string
  wa_pending :: string
  wa_rounds :: nat

text \<open>The first snapshot is the baseline, empty when it fails; \<open>Confirm\<close> defaults to 1.\<close>

definition watch_init :: "string option \<Rightarrow> watcher" where
  "watch_init first = \<lparr>wa_base = (case first of None \<Rightarrow> [] | Some s \<Rightarrow> s), wa_pending = [], wa_rounds = 0\<rparr>"

definition confirm_of :: "int \<Rightarrow> nat" where
  "confirm_of n = (if n \<le> 0 then 1 else nat n)"

text \<open>One poll: the new state and the change it reports.\<close>

definition watch_poll :: "nat \<Rightarrow> string option \<Rightarrow> watcher \<Rightarrow> watcher \<times> (string \<times> string) option" where
  "watch_poll confirm poll w =
     (case poll of
        None \<Rightarrow> (w, None)
      | Some cur \<Rightarrow>
          if cur = wa_base w then (w\<lparr>wa_pending := [], wa_rounds := 0\<rparr>, None)
          else
            (let rounds = (if cur \<noteq> wa_pending w then 1 else wa_rounds w + 1)
             in if rounds \<ge> confirm then (w\<lparr>wa_base := cur, wa_pending := [], wa_rounds := 0\<rparr>, Some (wa_base w, cur))
                else (w\<lparr>wa_pending := cur, wa_rounds := rounds\<rparr>, None)))"

fun watch :: "nat \<Rightarrow> string option list \<Rightarrow> watcher \<Rightarrow> watcher \<times> (string \<times> string) list" where
  "watch confirm [] w = (w, [])"
| "watch confirm (p # ps) w =
     (case watch_poll confirm p w of (w1, ev) \<Rightarrow>
        (case watch confirm ps w1 of (w2, evs) \<Rightarrow> (w2, (case ev of None \<Rightarrow> [] | Some x \<Rightarrow> [x]) @ evs)))"

lemma watch_append:
  "watch confirm (ps @ qs) w =
    (case watch confirm ps w of (w1, evs1) \<Rightarrow> (case watch confirm qs w1 of (w2, evs2) \<Rightarrow> (w2, evs1 @ evs2)))"
  by (induction ps arbitrary: w) (auto split: prod.splits)

section \<open>Lemmas\<close>

definition seen :: "string option list \<Rightarrow> string list" where
  "seen ps = List.map_filter id ps"

lemma seen_simps [simp]: "seen [] = []" "seen (ps @ qs) = seen ps @ seen qs" "seen [None] = []" "seen [Some x] = [x]"
  by (simp_all add: seen_def List.map_filter_def)

text \<open>How often the last value has been seen in a row.\<close>

definition run_of :: "string \<Rightarrow> string list \<Rightarrow> nat" where
  "run_of y xs = length (takeWhile (\<lambda>x. x = y) (rev xs))"

lemma run_of_simps [simp]: "run_of y [] = 0" "run_of y (xs @ [x]) = (if x = y then Suc (run_of y xs) else 0)"
  by (simp_all add: run_of_def)

lemma run_of_suffix: "suffix (replicate n y) xs \<longleftrightarrow> n \<le> run_of y xs"
proof (induction xs arbitrary: n rule: rev_induct)
  case (snoc x xs)
  show ?case
  proof (cases n)
    case (Suc m)
    have "replicate n y = replicate m y @ [y]" by (simp add: Suc replicate_append_same)
    then show ?thesis using snoc.IH [of m] Suc by auto
  qed simp
qed simp

text \<open>
  The state after some polls: settled when the last snapshot was the base, else waiting with the number of
  times the new one has been seen in a row.
\<close>

definition watching :: "nat \<Rightarrow> string list \<Rightarrow> watcher \<Rightarrow> bool" where
  "watching confirm xs w \<longleftrightarrow>
     (if xs = [] \<or> last xs = wa_base w then wa_pending w = [] \<and> wa_rounds w = 0
      else wa_pending w = last xs \<and> wa_rounds w = run_of (last xs) xs \<and> wa_rounds w < confirm)"

lemma watch_poll_watching:
  assumes w: "watching confirm xs w" and p: "watch_poll confirm poll w = (w', ev)"
  shows "watching confirm (xs @ seen [poll]) w' \<and>
    (case ev of
       None \<Rightarrow> wa_base w' = wa_base w
     | Some (x, y) \<Rightarrow> x = wa_base w \<and> y = wa_base w' \<and> x \<noteq> y \<and> poll = Some y \<and> confirm \<le> run_of y (xs @ [y]))"
proof (cases poll)
  case None
  then show ?thesis using assms by (auto simp: watch_poll_def)
next
  case (Some cur)
  let ?r = "if cur \<noteq> wa_pending w then 1 else wa_rounds w + 1"
  show ?thesis
  proof (cases "cur = wa_base w")
    case True
    then have "w' = w\<lparr>wa_pending := [], wa_rounds := 0\<rparr>" "ev = None" using p Some by (auto simp: watch_poll_def)
    then show ?thesis using Some True by (simp add: watching_def)
  next
    case False
    have r: "?r = run_of cur (xs @ [cur])"
    proof (cases "xs = [] \<or> last xs = wa_base w")
      case True
      then have "run_of cur xs = 0" using False by (cases xs rule: rev_cases) auto
      then show ?thesis using w True by (auto simp: watching_def)
    next
      case nl: False
      then have wp: "wa_pending w = last xs" "wa_rounds w = run_of (last xs) xs" using w by (simp_all add: watching_def)
      have "run_of cur xs = 0" if "cur \<noteq> last xs" using that nl by (cases xs rule: rev_cases) auto
      then show ?thesis using wp by auto
    qed
    show ?thesis
    proof (cases "?r \<ge> confirm")
      case True
      then have "w' = w\<lparr>wa_base := cur, wa_pending := [], wa_rounds := 0\<rparr>" "ev = Some (wa_base w, cur)"
        using p Some False by (auto simp: watch_poll_def Let_def)
      then show ?thesis using Some False True r by (simp add: watching_def)
    next
      case nr: False
      then have "w' = w\<lparr>wa_pending := cur, wa_rounds := ?r\<rparr>" "ev = None"
        using p Some False by (auto simp: watch_poll_def Let_def)
      then show ?thesis using Some False nr r by (simp add: watching_def)
    qed
  qed
qed

text \<open>A chain of changes from one base to the next.\<close>

fun chained :: "string \<Rightarrow> (string \<times> string) list \<Rightarrow> string \<Rightarrow> bool" where
  "chained b [] b' = (b = b')"
| "chained b ((x, y) # evs) b' = (x = b \<and> x \<noteq> y \<and> chained y evs b')"

lemma chained_snoc: "chained b (evs @ [(x, y)]) b' \<longleftrightarrow> chained b evs x \<and> x \<noteq> y \<and> y = b'"
  by (induction evs arbitrary: b) auto

lemma watch_spec:
  assumes "watching confirm [] w"
  shows "watching confirm (seen ps) (fst (watch confirm ps w)) \<and>
    chained (wa_base w) (snd (watch confirm ps w)) (wa_base (fst (watch confirm ps w)))"
proof (induction ps rule: rev_induct)
  case Nil
  then show ?case using assms by simp
next
  case (snoc p ps)
  obtain w1 evs where w1: "watch confirm ps w = (w1, evs)" by fastforce
  obtain w2 ev where w2: "watch_poll confirm p w1 = (w2, ev)" by fastforce
  have eq: "watch confirm (ps @ [p]) w = (w2, evs @ (case ev of None \<Rightarrow> [] | Some x \<Rightarrow> [x]))"
    by (simp add: watch_append w1 w2)
  have step: "watching confirm (seen ps @ seen [p]) w2 \<and>
    (case ev of None \<Rightarrow> wa_base w2 = wa_base w1
     | Some (x, y) \<Rightarrow> x = wa_base w1 \<and> y = wa_base w2 \<and> x \<noteq> y \<and> p = Some y \<and> confirm \<le> run_of y (seen ps @ [y]))"
    using watch_poll_watching [OF _ w2] snoc w1 by simp
  show ?case using step snoc w1 unfolding eq
    by (cases ev) (auto simp: chained_snoc)
qed

section \<open>Properties\<close>

text \<open>
  C40. The watcher reports exactly the settled changes: the changes form a chain from the baseline to the
  current base, each to a different value; the poll that reports one is the last of \<open>Confirm\<close> successful
  polls in a row with the new value; and once \<open>Confirm\<close> successful polls in a row have seen a value, that
  value is the base, so that no change that lasts is missed. Failed polls change nothing.
\<close>

theorem watcher_debounces:
  assumes "watch (confirm_of n) ps (watch_init first) = (w, evs)"
  shows "chained (wa_base (watch_init first)) evs (wa_base w) \<and>
    (\<forall>y. suffix (replicate (confirm_of n) y) (seen ps) \<longrightarrow> wa_base w = y) \<and>
    (\<forall>poll w' x y. watch_poll (confirm_of n) poll w = (w', Some (x, y)) \<longrightarrow>
       x = wa_base w \<and> y = wa_base w' \<and> x \<noteq> y \<and> suffix (replicate (confirm_of n) y) (seen (ps @ [poll]))) \<and>
    watch_poll (confirm_of n) None w = (w, None)"
proof -
  have pos: "0 < confirm_of n" by (simp add: confirm_of_def)
  have "watching (confirm_of n) [] (watch_init first)" by (simp add: watching_def watch_init_def)
  from watch_spec [OF this, of ps] assms
  have w: "watching (confirm_of n) (seen ps) w" "chained (wa_base (watch_init first)) evs (wa_base w)" by simp_all
  have "wa_base w = y" if s: "suffix (replicate (confirm_of n) y) (seen ps)" for y
  proof -
    have r: "confirm_of n \<le> run_of y (seen ps)" using s by (simp add: run_of_suffix)
    then have ne: "seen ps \<noteq> []" using pos by auto
    have "last (seen ps) = y" using r pos ne by (cases "seen ps" rule: rev_cases) (auto split: if_splits)
    then show ?thesis using w(1) r ne by (auto simp: watching_def split: if_splits)
  qed
  moreover have "x = wa_base w \<and> y = wa_base w' \<and> x \<noteq> y \<and> suffix (replicate (confirm_of n) y) (seen (ps @ [poll]))"
    if "watch_poll (confirm_of n) poll w = (w', Some (x, y))" for poll w' x y
    using watch_poll_watching [OF w(1) that] by (auto simp: run_of_suffix simp del: suffix_snoc)
  ultimately show ?thesis using w(2) by (simp add: watch_poll_def)
qed

theorem watcher_debounces_witness:
  "let ps = [Some ''a'', Some ''b'', None, Some ''b'', Some ''a''] in
   snd (watch (confirm_of 2) ps (watch_init (Some ''a''))) = [(''a'', ''b'')] \<and>
   chained ''a'' [(''a'', ''b'')] ''b'' \<and> wa_base (fst (watch (confirm_of 2) ps (watch_init (Some ''a'')))) = ''b''"
proof -
  let ?ps = "[Some ''a'', Some ''b'', None, Some ''b'', Some ''a'']"
  obtain w evs where w: "watch (confirm_of 2) ?ps (watch_init (Some ''a'')) = (w, evs)" by fastforce
  have e: "snd (watch (confirm_of 2) ?ps (watch_init (Some ''a''))) = [(''a'', ''b'')]" by code_simp
  have "chained (wa_base (watch_init (Some ''a''))) evs (wa_base w)" using watcher_debounces [OF w] by blast
  moreover have "wa_base (watch_init (Some ''a'')) = ''a''" by (simp add: watch_init_def)
  moreover have "wa_base (fst (watch (confirm_of 2) ?ps (watch_init (Some ''a'')))) = ''b''" by code_simp
  ultimately show ?thesis using e unfolding Let_def w by simp
qed

text \<open>When the baseline cannot be taken, the unchanged network is reported as a change.\<close>

lemma failed_baseline_reports_change:
  "snd (watch (confirm_of 2) [Some ''a'', Some ''a''] (watch_init None)) = [([], ''a'')]"
  by code_simp

end
