(* ===== verification/Core_Process.thy ===== *)
theory Core_Process
  imports Prelude
begin

text \<open>
  The supervision of the core process (\<open>core/core.go\<close>). The state is the manager's fields and the core
  processes that live; each operation is given with what happens meanwhile: whether the process can be
  launched, and at each poll of the readiness loop whether it is ready and whether it has exited. An elevated
  core cannot be signalled. The note of the waiting goroutine, \<open>failed\<close> instead of \<open>running\<close>, is taken
  together with the exit; \<open>late_note_orphans\<close> shows what happens when it comes later.
\<close>

datatype core_status = CoreStopped | CoreRunning | CoreFailed

datatype core_error = LaunchError | ExitedDuringStart | NotReadyInTime

record supervision =
  co_cmd :: "nat option"
  co_status :: core_status
  co_alive :: "nat list"
  co_next :: nat

definition new_core :: supervision where
  "new_core = \<lparr>co_cmd = None, co_status = CoreStopped, co_alive = [], co_next = 1\<rparr>"

definition Running :: "supervision \<Rightarrow> bool" where
  "Running s \<longleftrightarrow> co_cmd s \<noteq> None \<and> co_status s = CoreRunning"

definition Pid :: "supervision \<Rightarrow> nat" where
  "Pid s = (case co_cmd s of None \<Rightarrow> 0 | Some p \<Rightarrow> p)"

text \<open>A process ends; its waiter, which took the done value to the channel, then notes it.\<close>

definition ends :: "nat \<Rightarrow> supervision \<Rightarrow> supervision" where
  "ends p s = s\<lparr>co_alive := removeAll p (co_alive s)\<rparr>"

definition note_exit :: "supervision \<Rightarrow> supervision" where
  "note_exit s = (if co_status s = CoreRunning then s\<lparr>co_status := CoreFailed\<rparr> else s)"

definition exits :: "nat \<Rightarrow> supervision \<Rightarrow> supervision" where
  "exits p s = note_exit (ends p s)"

text \<open>A signal ends a process unless it is out of reach.\<close>

definition signalled :: "bool \<Rightarrow> supervision \<Rightarrow> supervision" where
  "signalled elevated s = (case co_cmd s of None \<Rightarrow> s | Some p \<Rightarrow> if elevated then s else exits p s)"

definition kill_core :: "bool \<Rightarrow> supervision \<Rightarrow> supervision" where
  "kill_core elevated s = (signalled elevated s)\<lparr>co_cmd := None, co_status := CoreFailed\<rparr>"

definition Stop_core :: "bool \<Rightarrow> supervision \<Rightarrow> supervision" where
  "Stop_core elevated s =
     (if co_cmd s = None then s else (signalled elevated s)\<lparr>co_cmd := None, co_status := CoreStopped\<rparr>)"

text \<open>The readiness loop: at each poll, ready, exited, or the deadline, which is \<open>n\<close> polls away.\<close>

record polls =
  po_ready :: "nat \<Rightarrow> bool"
  po_exited :: "nat \<Rightarrow> bool"

fun await_ready :: "bool \<Rightarrow> polls \<Rightarrow> nat \<Rightarrow> nat \<Rightarrow> supervision \<Rightarrow> (core_error, unit) res \<times> supervision" where
  "await_ready elevated po i n s =
     (if po_ready po i then (Inr (), s)
      else if po_exited po i then (Inl ExitedDuringStart, kill_core elevated (exits (Pid s) s))
      else case n of
        0 \<Rightarrow> (Inl NotReadyInTime, kill_core elevated s)
      | Suc m \<Rightarrow> await_ready elevated po (Suc i) m s)"

definition Start_core :: "bool \<Rightarrow> bool \<Rightarrow> polls \<Rightarrow> nat \<Rightarrow> supervision \<Rightarrow> (core_error, unit) res \<times> supervision" where
  "Start_core elevated launches po n s =
     (if Running s then (Inr (), s)
      else if \<not> launches then (Inl LaunchError, s)
      else await_ready elevated po 0 n
        (s\<lparr>co_cmd := Some (co_next s), co_status := CoreRunning, co_alive := co_next s # co_alive s, co_next := co_next s + 1\<rparr>))"

definition Restart_core :: "bool \<Rightarrow> bool \<Rightarrow> polls \<Rightarrow> nat \<Rightarrow> supervision \<Rightarrow> (core_error, unit) res \<times> supervision" where
  "Restart_core elevated launches po n s = Start_core elevated launches po n (Stop_core elevated s)"

section \<open>Supervised runs\<close>

datatype core_op = OpStart bool polls nat | OpStop | OpRestart bool polls nat | OpCrash

definition core_op_step :: "bool \<Rightarrow> core_op \<Rightarrow> supervision \<Rightarrow> supervision" where
  "core_op_step elevated x s =
     (case x of
        OpStart l po n \<Rightarrow> snd (Start_core elevated l po n s)
      | OpStop \<Rightarrow> Stop_core elevated s
      | OpRestart l po n \<Rightarrow> snd (Restart_core elevated l po n s)
      | OpCrash \<Rightarrow> (case co_cmd s of None \<Rightarrow> s | Some p \<Rightarrow> exits p s))"

text \<open>Every live core is the supervised one, and a running manager has one.\<close>

definition no_orphans :: "supervision \<Rightarrow> bool" where
  "no_orphans s \<longleftrightarrow> (\<forall>p \<in> set (co_alive s). co_cmd s = Some p) \<and>
     (co_status s = CoreRunning \<longrightarrow> (\<exists>p. co_cmd s = Some p \<and> p \<in> set (co_alive s))) \<and>
     (co_status s \<noteq> CoreRunning \<longrightarrow> co_alive s = [])"

lemma exits_ok: "no_orphans s \<Longrightarrow> co_cmd s = Some p \<Longrightarrow> no_orphans (exits p s) \<and> co_alive (exits p s) = []"
proof -
  assume ok: "no_orphans s" and c: "co_cmd s = Some p"
  have e: "removeAll p (co_alive s) = []" using ok c by (auto simp: no_orphans_def filter_empty_conv removeAll_filter_not_eq)
  then show ?thesis using ok c by (auto simp: no_orphans_def exits_def ends_def note_exit_def)
qed

lemma signalled_ok: "no_orphans s \<Longrightarrow> no_orphans (signalled False s)"
  using exits_ok by (auto simp: signalled_def split: option.splits)

lemma no_cmd_none: "no_orphans s \<Longrightarrow> co_cmd s = None \<Longrightarrow> co_alive s = []"
  by (cases "co_alive s") (auto simp: no_orphans_def)

lemma signalled_none: "no_orphans s \<Longrightarrow> co_alive (signalled False s) = []"
  using exits_ok [of s] no_cmd_none [of s] by (auto simp: signalled_def split: option.splits)

lemma kill_ok: "no_orphans s \<Longrightarrow> no_orphans (kill_core False s) \<and> co_alive (kill_core False s) = []"
proof -
  assume "no_orphans s"
  then have "co_alive (signalled False s) = []" by (rule signalled_none)
  then show ?thesis by (simp add: kill_core_def no_orphans_def)
qed

lemma stop_ok: "no_orphans s \<Longrightarrow> no_orphans (Stop_core False s) \<and> co_alive (Stop_core False s) = []"
proof -
  assume ok: "no_orphans s"
  then have "co_alive (signalled False s) = []" by (rule signalled_none)
  then have "co_cmd s \<noteq> None \<Longrightarrow> ?thesis" by (auto simp: Stop_core_def no_orphans_def)
  moreover have "co_cmd s = None \<Longrightarrow> ?thesis" using ok no_cmd_none [OF ok] by (simp add: Stop_core_def)
  ultimately show ?thesis by blast
qed

declare await_ready.simps [simp del]

lemma await_ready_ok:
  "no_orphans s \<Longrightarrow> Running s \<Longrightarrow> await_ready False po i n s = (r, s') \<Longrightarrow>
   no_orphans s' \<and> (r = Inr () \<longrightarrow> s' = s \<and> (\<exists>j \<le> i + n. po_ready po j)) \<and> (r \<noteq> Inr () \<longrightarrow> co_alive s' = [] \<and> \<not> Running s')"
proof (induction n arbitrary: i)
  case (0 i)
  have x: "no_orphans (exits (Pid s) s)" using exits_ok [OF "0.prems"(1)] "0.prems"(2) by (auto simp: Running_def Pid_def)
  have e: "await_ready False po i 0 s = (if po_ready po i then (Inr (), s)
      else if po_exited po i then (Inl ExitedDuringStart, kill_core False (exits (Pid s) s))
      else (Inl NotReadyInTime, kill_core False s))" by (simp add: await_ready.simps [of False po i 0 s])
  have stopped: "\<not> Running (kill_core False t)" for t by (simp add: Running_def kill_core_def)
  show ?case using "0.prems" kill_ok [OF x] kill_ok [OF "0.prems"(1)] stopped unfolding e by (auto split: if_splits)
next
  case (Suc n i)
  have x: "no_orphans (exits (Pid s) s)" using exits_ok [OF Suc.prems(1)] Suc.prems(2) by (auto simp: Running_def Pid_def)
  show ?case
  proof (cases "po_ready po i \<or> po_exited po i")
    case True
    show ?thesis
    proof (cases "po_ready po i")
      case ready: True
      then show ?thesis using Suc.prems by (auto simp: await_ready.simps [of False po i "Suc n" s] intro: exI [of _ i])
    next
      case False
      then have "r = Inl ExitedDuringStart" "s' = kill_core False (exits (Pid s) s)"
        using True Suc.prems(3) by (simp_all add: await_ready.simps [of False po i "Suc n" s])
      then show ?thesis using kill_ok [OF x] by (simp add: Running_def kill_core_def)
    qed
  next
    case False
    then have "await_ready False po (Suc i) n s = (r, s')" using Suc.prems(3) by (simp add: await_ready.simps [of False po i "Suc n" s])
    from Suc.IH [OF Suc.prems(1,2) this] show ?thesis by (metis add_Suc add_Suc_right)
  qed
qed

lemma Start_ok:
  assumes "no_orphans s" "Start_core False l po n s = (r, s')"
  shows "no_orphans s' \<and> (r = Inr () \<longrightarrow> Running s' \<and> (Running s \<or> (\<exists>j \<le> n. po_ready po j))) \<and>
    (r \<noteq> Inr () \<longrightarrow> co_alive s' = [] \<and> \<not> Running s')"
proof (cases "Running s \<or> \<not> l")
  case True
  have "co_alive s = []" if "\<not> Running s" using that assms(1) by (auto simp: Running_def no_orphans_def)
  then show ?thesis using True assms by (auto simp: Start_core_def split: if_splits)
next
  case False
  let ?s = "s\<lparr>co_cmd := Some (co_next s), co_status := CoreRunning, co_alive := co_next s # co_alive s, co_next := co_next s + 1\<rparr>"
  have "co_alive s = []" using False assms(1) by (auto simp: Running_def no_orphans_def)
  then have ok: "no_orphans ?s" by (simp add: no_orphans_def)
  have run: "Running ?s" by (simp add: Running_def)
  have "await_ready False po 0 n ?s = (r, s')" using False assms(2) by (simp add: Start_core_def)
  from await_ready_ok [OF ok run this] show ?thesis using run by auto
qed

lemma core_step_ok: "no_orphans s \<Longrightarrow> no_orphans (core_op_step False x s)"
proof (cases x)
  case (OpStart l po n)
  assume "no_orphans s"
  then show ?thesis using OpStart Start_ok [of s l po n] by (cases "Start_core False l po n s") (simp add: core_op_step_def)
next
  case (OpRestart l po n)
  assume "no_orphans s"
  then have "no_orphans (Stop_core False s)" using stop_ok by blast
  then show ?thesis using OpRestart Start_ok [of "Stop_core False s" l po n]
    by (cases "Start_core False l po n (Stop_core False s)") (simp add: core_op_step_def Restart_core_def)
qed (use stop_ok exits_ok in \<open>auto simp: core_op_step_def split: option.splits\<close>)

lemma core_run_ok: "no_orphans (fold (core_op_step False) xs new_core)"
proof -
  have "no_orphans s \<Longrightarrow> no_orphans (fold (core_op_step False) xs s)" for s
    by (induction xs arbitrary: s) (simp_all add: core_step_ok)
  then show ?thesis by (simp add: no_orphans_def new_core_def)
qed

section \<open>Properties\<close>



text \<open>The promise of the package does not hold for an elevated core: a start that is not ready in time leaves it alive.\<close>

lemma elevated_core_orphaned:
  "case Start_core True True \<lparr>po_ready = (\<lambda>_. False), po_exited = (\<lambda>_. False)\<rparr> 3 new_core of
     (r, s) \<Rightarrow> r = Inl NotReadyInTime \<and> co_cmd s = None \<and> co_alive s = [1] \<and> co_alive (Stop_core True s) = [1]"
  by (simp add: Start_core_def new_core_def Running_def await_ready.simps numeral_3_eq_3 kill_core_def signalled_def Stop_core_def)

text \<open>
  A waiter that sends its done value and takes the lock only after a restart marks the new core as failed; the
  next start then launches a second one, and the first is orphaned.
\<close>

lemma late_note_orphans:
  "let po = \<lparr>po_ready = (\<lambda>_. True), po_exited = (\<lambda>_. False)\<rparr>;
       s = note_exit (snd (Restart_core False True po 0 (snd (Start_core False True po 0 new_core))));
       s' = snd (Start_core False True po 0 s)
   in co_alive s = [2] \<and> \<not> Running s \<and> co_cmd s' = Some 3 \<and> co_alive (Stop_core False s') = [2]"
  by (simp add: Let_def Restart_core_def Start_core_def new_core_def Running_def await_ready.simps Stop_core_def signalled_def
    exits_def ends_def note_exit_def)

end
