(* ===== verification/Host.thy ===== *)
theory Host
  imports Killswitch Routes Quote Path
begin

text \<open>
  The host and the privilege boundary (\<open>internal/platform\<close>, the binary resolution of \<open>connectived/main.go\<close>, the
  Windows part of \<open>cmd/connective-helper\<close>): which programs are trusted, where the core and the helper are
  looked for, what is run elevated and how its command line is read on the other side, and what the Windows
  helper does with it. The file system, the environment, the executable's own path and the outputs of tools
  are fields of \<open>host\<close>; the path functions of Windows are fields too, those of Unix are in \<open>Path\<close>.
\<close>

record host =
  ho_windows :: bool
  ho_root :: bool
  ho_fltmc :: "string option"
  ho_env :: "string \<Rightarrow> string"
  ho_home :: "string option"
  ho_mkdir :: "string \<Rightarrow> bool"
  ho_stat :: "string \<Rightarrow> (bool \<times> nat) option"
  ho_resolve :: "string \<Rightarrow> string option"
  ho_exe :: "string option"
  ho_look :: "string \<Rightarrow> string option"
  ho_absolute :: "string \<Rightarrow> string option"
  ho_win_abs :: "string \<Rightarrow> bool"
  ho_win_dir :: "string \<Rightarrow> string"
  ho_win_join :: "string list \<Rightarrow> string"

datatype host_error =
    NotAbsolute | BadLocation | NoStat | NotRegular | WorldWritable | NoResolve | DirNoStat | DirWorldWritable | NotExe
  | NoExecutable | NoAbsolute | HelperNotFound | CoreNotFound | BlankRunner | WintunMissing | NoHome | NoDataDir

definition dir_in :: "host \<Rightarrow> string \<Rightarrow> string" where
  "dir_in h p = (if ho_windows h then ho_win_dir h p else dir p)"

definition join_in :: "host \<Rightarrow> string list \<Rightarrow> string" where
  "join_in h ps = (if ho_windows h then ho_win_join h ps else path_join ps)"

section \<open>Trusted binaries\<close>

text \<open>The bit \<open>0o002\<close> of a mode.\<close>

definition world_writable :: "nat \<Rightarrow> bool" where
  "world_writable perm = odd (perm div 2)"

definition temp_dirs :: "string list" where
  "temp_dirs = [''/tmp/'', ''/var/tmp/'', ''/dev/shm/'']"

definition isTrustedBinary_unix :: "host \<Rightarrow> string \<Rightarrow> (host_error, unit) res" where
  "isTrustedBinary_unix h path =
     (if \<not> is_abs path then Inl NotAbsolute
      else if list_ex (\<lambda>tmp. has_prefix path tmp \<or> path = trim_suffix tmp ''/'') temp_dirs then Inl BadLocation
      else case ho_stat h path of
        None \<Rightarrow> Inl NoStat
      | Some (regular, perm) \<Rightarrow>
          if \<not> regular then Inl NotRegular
          else if world_writable perm then Inl WorldWritable
          else (case ho_resolve h (dir path) of
            None \<Rightarrow> Inl NoResolve
          | Some parent \<Rightarrow>
              (case ho_stat h parent of
                 None \<Rightarrow> Inl DirNoStat
               | Some (_, dperm) \<Rightarrow> if world_writable dperm then Inl DirWorldWritable else Inr ())))"

definition bad_dirs :: "host \<Rightarrow> string list" where
  "bad_dirs h =
     (let t = (if ho_env h ''TEMP'' = [] then ho_env h ''TMP'' else ho_env h ''TEMP'')
      in map (\<lambda>d. bslash # d @ [bslash]) [''temp'', ''tmp'', ''downloads''] @ [''$recycle.bin'' @ [bslash]] @
         (if t = [] then [] else [fold_case t]))"

definition isTrustedBinary_windows :: "host \<Rightarrow> string \<Rightarrow> (host_error, unit) res" where
  "isTrustedBinary_windows h path =
     (if \<not> ho_win_abs h path then Inl NotAbsolute
      else if list_ex (\<lambda>d. str_contains (fold_case path) (fold_case d)) (bad_dirs h) then Inl BadLocation
      else if \<not> has_suffix (fold_case path) ''.exe'' then Inl NotExe
      else case ho_stat h path of
        None \<Rightarrow> Inl NoStat
      | Some (regular, _) \<Rightarrow> if \<not> regular then Inl NotRegular else Inr ())"

definition TrustedBinary :: "host \<Rightarrow> string \<Rightarrow> (host_error, unit) res" where
  "TrustedBinary h path = (if ho_windows h then isTrustedBinary_windows h path else isTrustedBinary_unix h path)"

section \<open>Elevation\<close>

definition IsElevated :: "host \<Rightarrow> bool" where
  "IsElevated h =
     (if ho_windows h then (case ho_fltmc h of None \<Rightarrow> False | Some out \<Rightarrow> \<not> str_contains out ''Access is denied'') else ho_root h)"

definition HelperExeName :: "host \<Rightarrow> string" where
  "HelperExeName h = (if ho_windows h then ''connective-helper.exe'' else ''connective-helper'')"

definition CoreExeName :: "host \<Rightarrow> string" where
  "CoreExeName h = (if ho_windows h then ''sing-box.exe'' else ''sing-box'')"

definition HelperRunner :: "host \<Rightarrow> string list" where
  "HelperRunner h =
     (let v = ho_env h ''CONNECTIVE_HELPER_RUNNER''
      in if v \<noteq> [] then str_fields v
         else if ho_windows h then [''powershell'', ''-NoProfile'', ''-Command''] else [''pkexec''])"

definition ElevateCommand :: "string \<Rightarrow> string list \<Rightarrow> string \<times> string list" where
  "ElevateCommand helper args =
     (''powershell'', [''-NoProfile'', ''-Command'',
        ''Start-Process '' @ join_with '' '' (map psQuote (helper # args)) @ '' -Verb RunAs -Wait''])"

text \<open>\<open>BlankRunner\<close> is the index out of range of \<open>runner[1:]\<close> when the override is blank.\<close>

definition ElevatedCommand :: "host \<Rightarrow> string \<Rightarrow> string list \<Rightarrow> (host_error, string \<times> string list) res" where
  "ElevatedCommand h helper args =
     (if IsElevated h then Inr (helper, args)
      else if ho_windows h then Inr (ElevateCommand helper args)
      else case HelperRunner h of
        [] \<Rightarrow> Inl BlankRunner
      | r # rs \<Rightarrow> Inr (r, rs @ helper # args))"

section \<open>Where the binaries are\<close>

definition siblingBinary :: "host \<Rightarrow> string \<Rightarrow> string \<Rightarrow> string" where
  "siblingBinary h exe name =
     (let candidate = join_in h [dir_in h exe, name] in if ho_stat h candidate \<noteq> None then candidate else [])"

definition singBoxPath :: "host \<Rightarrow> settings \<Rightarrow> (host_error, string) res" where
  "singBoxPath h st =
     (if CorePath st \<noteq> [] then Inr (CorePath st)
      else
        let beside = (case ho_exe h of None \<Rightarrow> [] | Some exe \<Rightarrow> siblingBinary h exe (CoreExeName h))
        in if beside \<noteq> [] then Inr beside
           else case ho_look h (CoreExeName h) of Some p \<Rightarrow> Inr p | None \<Rightarrow> Inl CoreNotFound)"

definition find_helper :: "host \<Rightarrow> settings \<Rightarrow> (host_error, string) res" where
  "find_helper h st =
     (if HelperPath st \<noteq> [] then Inr (HelperPath st)
      else case ho_exe h of
        None \<Rightarrow> Inl NoExecutable
      | Some exe \<Rightarrow>
          let candidate = join_in h [dir_in h exe, HelperExeName h]
          in if ho_stat h candidate \<noteq> None then (case ho_absolute h candidate of None \<Rightarrow> Inl NoAbsolute | Some a \<Rightarrow> Inr a)
             else case ho_look h (HelperExeName h) of Some p \<Rightarrow> Inr p | None \<Rightarrow> Inl HelperNotFound)"

definition helperPath :: "host \<Rightarrow> settings \<Rightarrow> (host_error, string) res" where
  "helperPath h st =
     (case find_helper h st of
        Inl e \<Rightarrow> Inl e
      | Inr p \<Rightarrow> (case TrustedBinary h p of Inl e \<Rightarrow> Inl e | Inr _ \<Rightarrow> Inr p))"

definition RequireWintun :: "host \<Rightarrow> string \<Rightarrow> (host_error, unit) res" where
  "RequireWintun h core =
     (if ho_windows h \<and> ho_stat h (join_in h [dir_in h core, ''wintun.dll'']) = None then Inl WintunMissing else Inr ())"

definition TunExists :: "host \<Rightarrow> string option \<Rightarrow> string \<Rightarrow> bool" where
  "TunExists h shown name =
     (if ho_windows h then (case shown of None \<Rightarrow> False | Some out \<Rightarrow> \<not> str_contains out ''There is no such interface'')
      else ho_stat h (''/sys/class/net/'' @ name) \<noteq> None)"

section \<open>What is run\<close>

definition path_or_empty :: "(host_error, string) res \<Rightarrow> string" where
  "path_or_empty r = (case r of Inl _ \<Rightarrow> [] | Inr p \<Rightarrow> p)"

definition elevatedCoreCommand :: "host \<Rightarrow> settings \<Rightarrow> string \<Rightarrow> (host_error, string \<times> string list) res" where
  "elevatedCoreCommand h st cfg =
     (let sb = path_or_empty (singBoxPath h st); helper = path_or_empty (helperPath h st);
          coreArgs = [''run-core'', ''--'', sb, ''run'', ''-c'', cfg]
      in if IsElevated h then Inr (helper, coreArgs) else ElevatedCommand h helper coreArgs)"

text \<open>
  The command \<open>startCore\<close> hands to the supervision: \<open>st\<close> are the settings it looks at, \<open>st'\<close> those at the second
  look in \<open>elevatedCoreCommand\<close>.
\<close>

definition core_command :: "host \<Rightarrow> settings \<Rightarrow> settings \<Rightarrow> string \<Rightarrow> (host_error, string \<times> string list) res" where
  "core_command h st st' cfg =
     (case singBoxPath h st of
        Inl e \<Rightarrow> Inl e
      | Inr sb \<Rightarrow>
          if TunEnabled st \<or> KillSwitch st then
            (case helperPath h st of
               Inl e \<Rightarrow> Inl e
             | Inr _ \<Rightarrow>
                 if RequireWintun h sb \<noteq> Inr () \<and> TunEnabled st then Inl WintunMissing
                 else (case TrustedBinary h sb of Inl e \<Rightarrow> Inl e | Inr _ \<Rightarrow> elevatedCoreCommand h st' cfg))
          else Inr (sb, [''run'', ''-c'', cfg]))"

definition runHelper :: "host \<Rightarrow> settings \<Rightarrow> string list \<Rightarrow> (host_error, string \<times> string list) res" where
  "runHelper h st args = (case helperPath h st of Inl e \<Rightarrow> Inl e | Inr helper \<Rightarrow> ElevatedCommand h helper args)"

section \<open>Where the data lives\<close>

definition home_base :: "host \<Rightarrow> string option" where
  "home_base h = (if ho_windows h \<and> ho_env h ''LOCALAPPDATA'' \<noteq> [] then Some (ho_env h ''LOCALAPPDATA'') else ho_home h)"

definition DataDir :: "host \<Rightarrow> (host_error, string) res" where
  "DataDir h =
     (let override = ho_env h ''CONNECTIVE_DATA_DIR''
      in if override \<noteq> [] then (if ho_mkdir h override then Inr override else Inl NoDataDir)
         else case home_base h of
           None \<Rightarrow> Inl NoHome
         | Some b \<Rightarrow>
             let d = join_in h (b # (if ho_windows h then [''Connective''] else [''.local'', ''share'', ''connective'']))
             in if ho_mkdir h d then Inr d else Inl NoDataDir)"

definition SocketPath :: "host \<Rightarrow> (host_error, string) res" where
  "SocketPath h = (case DataDir h of Inl e \<Rightarrow> Inl e | Inr d \<Rightarrow> Inr (join_in h [d, ''connectived.sock'']))"

section \<open>Processes\<close>

datatype probe_errno = ProbeOk | ProbeEPERM | ProbeESRCH | ProbeOther

datatype liveness = Gone | Unreachable | ProbeError

definition ProcessGone_unix :: "probe_errno \<Rightarrow> liveness" where
  "ProcessGone_unix r =
     (case r of ProbeOk \<Rightarrow> Unreachable | ProbeEPERM \<Rightarrow> Unreachable | ProbeESRCH \<Rightarrow> Gone | ProbeOther \<Rightarrow> ProbeError)"

definition ProcessGone_windows :: "string option \<Rightarrow> liveness" where
  "ProcessGone_windows tasklist =
     (case tasklist of None \<Rightarrow> Unreachable | Some out \<Rightarrow> if str_contains out ''INFO: No tasks'' then Gone else Unreachable)"

text \<open>The polls of \<open>waitGone\<close>, the deadline being \<open>n\<close> polls away; a probe error counts as alive.\<close>

fun waitGone :: "(nat \<Rightarrow> liveness) \<Rightarrow> nat \<Rightarrow> nat \<Rightarrow> bool" where
  "waitGone probe i 0 = (probe i = Gone)"
| "waitGone probe i (Suc n) = (probe i = Gone \<or> waitGone probe (Suc i) n)"

section \<open>The helper on both platforms\<close>

datatype helper_action =
  RunCore "string list" | KillswitchOn "string list" | KillswitchOff "string list" | TunCleanup "string list" | StopCore "string list"

definition helper_run :: "string list \<Rightarrow> helper_action option" where
  "helper_run args =
     (case args of
        [] \<Rightarrow> None
      | c # as \<Rightarrow>
          if c = ''run-core'' then Some (RunCore as)
          else if c = ''killswitch-on'' then Some (KillswitchOn as)
          else if c = ''killswitch-off'' then Some (KillswitchOff as)
          else if c = ''tun-cleanup'' then Some (TunCleanup as)
          else if c = ''stop-core'' then Some (StopCore as)
          else None)"

text \<open>The program that is started as the core; the Linux helper does not check it again.\<close>

definition runCore_in :: "host \<Rightarrow> string list \<Rightarrow> (helper_error, string list) res" where
  "runCore_in h args =
     (case runCore args of
        Inl e \<Rightarrow> Inl e
      | Inr argv \<Rightarrow> if ho_windows h \<and> TrustedBinary h (hd argv) \<noteq> Inr () then Inl UntrustedBinary else Inr argv)"

text \<open>\<open>shown\<close> is what \<open>netsh\<close> says of the device, \<open>disabled\<close> whether it can be disabled. The device touched is returned.\<close>

definition tunCleanup_windows :: "string option \<Rightarrow> bool \<Rightarrow> string list \<Rightarrow> (helper_error, unit) res \<times> string option" where
  "tunCleanup_windows shown disabled args =
     (let name = flag_value ''--if'' [] args
      in if name = [] then (Inl IfRequired, None)
         else if fold_case name \<noteq> fold_case OwnTunName then (Inl (ForeignInterface name), None)
         else case shown of
           None \<Rightarrow> (Inr (), None)
         | Some out \<Rightarrow>
             if str_contains out ''There is no such interface'' \<or> str_contains out ''The following command was not found'' then (Inr (), None)
             else (if disabled then Inr () else Inl NetshFailed, Some name))"

definition names_core :: "string \<Rightarrow> bool" where
  "names_core out \<longleftrightarrow> list_ex (str_contains (fold_case out)) [''sing-box'', ''core.json'', ''connective'']"

definition looksLikeCore_windows :: "string option \<Rightarrow> string option \<Rightarrow> bool option" where
  "looksLikeCore_windows wmic cim = (case wmic of Some out \<Rightarrow> Some (names_core out) | None \<Rightarrow> map_option names_core cim)"

text \<open>
  The processes as \<open>stopCore\<close> sees them: gone at first, the two descriptions, whether \<open>taskkill\<close> (with or without
  force) succeeds, and whether the process is then gone in time, or gone when it failed.
\<close>

record win_processes =
  wp_self :: int
  wp_gone :: "int \<Rightarrow> bool"
  wp_wmic :: "int \<Rightarrow> string option"
  wp_cim :: "int \<Rightarrow> string option"
  wp_kill :: "int \<Rightarrow> bool \<Rightarrow> bool"
  wp_gone_after :: "int \<Rightarrow> bool \<Rightarrow> bool"

datatype win_stop = StopOk | StopError helper_error | StopUnverified int | TaskkillFailed int

definition kill_forced :: "win_processes \<Rightarrow> int \<Rightarrow> win_stop \<times> (int \<times> bool) list" where
  "kill_forced ps pid =
     (if wp_gone_after ps pid True then (StopOk, [(pid, False), (pid, True)])
      else (if wp_kill ps pid True then StopError (WouldNotDie pid) else TaskkillFailed pid, [(pid, False), (pid, True)]))"

definition stopCore_windows :: "win_processes \<Rightarrow> string list \<Rightarrow> win_stop \<times> (int \<times> bool) list" where
  "stopCore_windows ps args =
     (let s = flag_value ''--pid'' [] args
      in if s = [] then (StopError PidRequired, [])
         else case atoi s of
           None \<Rightarrow> (StopError (BadPid s), [])
         | Some pid \<Rightarrow>
             if pid \<le> 4 \<or> int_str pid \<noteq> s then (StopError (BadPid s), [])
             else if pid = wp_self ps then (StopError OwnPid, [])
             else if wp_gone ps pid then (StopOk, [])
             else case looksLikeCore_windows (wp_wmic ps pid) (wp_cim ps pid) of
               None \<Rightarrow> (StopUnverified pid, [])
             | Some False \<Rightarrow> (StopError (NotACore pid), [])
             | Some True \<Rightarrow>
                 if wp_gone_after ps pid False then (StopOk, [(pid, False)])
                 else if \<not> wp_kill ps pid False then (TaskkillFailed pid, [(pid, False)])
                 else kill_forced ps pid)"

section \<open>Reading the command lines\<close>

text \<open>
  What the elevated side receives. A runner (\<open>pkexec\<close>, \<open>sudo -n\<close>) passes the words on; PowerShell reads the
  script: single-quoted words up to the first other token.
\<close>

fun ps_words :: "nat \<Rightarrow> string \<Rightarrow> string list \<times> string" where
  "ps_words 0 s = ([], s)"
| "ps_words (Suc n) s =
     (case s of
        [] \<Rightarrow> ([], s)
      | c # r \<Rightarrow>
          if c \<noteq> apos then ([], s)
          else case ps_read r of
            None \<Rightarrow> ([], s)
          | Some (v, r') \<Rightarrow> (case ps_words n (dropWhile (\<lambda>c. c = blank) r') of (vs, s') \<Rightarrow> (v # vs, s')))"

definition script_words :: "string \<Rightarrow> string list option" where
  "script_words s =
     (if \<not> has_prefix s ''Start-Process '' then None
      else case ps_words (length s) (drop (length ''Start-Process '') s) of
        (ws, s') \<Rightarrow> if s' = ''-Verb RunAs -Wait'' then Some ws else None)"

definition helper_words :: "host \<Rightarrow> string \<times> string list \<Rightarrow> string list option" where
  "helper_words h cmd =
     (case cmd of (bin, args) \<Rightarrow>
        if IsElevated h then Some (bin # args)
        else if ho_windows h then
          (if bin = ''powershell'' \<and> take 2 args = [''-NoProfile'', ''-Command''] then (case drop 2 args of [s] \<Rightarrow> script_words s | _ \<Rightarrow> None)
           else None)
        else if take (length (HelperRunner h)) (bin # args) = HelperRunner h
          then Some (drop (length (HelperRunner h)) (bin # args)) else None)"

lemma ps_read_quoted: "r = [] \<or> hd r \<noteq> apos \<Longrightarrow> ps_read (tl (psQuote w) @ r) = Some (w, r)"
  using ps_read_double [of r w] by (simp add: psQuote_def)

lemma psQuote_head: "psQuote w = apos # tl (psQuote w)"
  by (simp add: psQuote_def)

lemma ps_words_one:
  assumes "r = [] \<or> hd r \<noteq> apos"
  shows "ps_words (Suc n) (psQuote w @ r) = (case ps_words n (dropWhile (\<lambda>c. c = blank) r) of (vs, s') \<Rightarrow> (w # vs, s'))"
  using ps_read_quoted [OF assms, of w] by (subst psQuote_head) simp

lemma ps_words_read:
  "length ws < n \<Longrightarrow> ws \<noteq> [] \<Longrightarrow>
   ps_words n (join_with '' '' (map psQuote ws) @ '' -Verb RunAs -Wait'') = (ws, ''-Verb RunAs -Wait'')"
proof (induction ws arbitrary: n)
  case (Cons w ws)
  then obtain m where n: "n = Suc m" "length ws < m" by (cases n) auto
  show ?case
  proof (cases ws)
    case Nil
    moreover obtain k where "m = Suc k" using n(2) by (cases m) auto
    ultimately show ?thesis using ps_words_one [of "'' -Verb RunAs -Wait''" m w] by (simp add: n(1) blank_def apos_def)
  next
    case ws: (Cons v vs)
    let ?s = "join_with '' '' (map psQuote ws) @ '' -Verb RunAs -Wait''"
    have hd: "?s \<noteq> [] \<and> hd ?s = apos" by (cases vs) (simp_all add: ws psQuote_def)
    then have d: "dropWhile (\<lambda>c. c = blank) ('' '' @ ?s) = ?s" by (cases ?s) (simp_all add: blank_def apos_def)
    have j: "join_with '' '' (map psQuote (w # ws)) @ '' -Verb RunAs -Wait'' = psQuote w @ '' '' @ ?s" by (simp add: ws)
    have "ps_words (Suc m) (psQuote w @ '' '' @ ?s) = (w # ws, ''-Verb RunAs -Wait'')"
      using ps_words_one [of "'' '' @ ?s" m w] Cons.IH [OF n(2)] ws d by (simp add: apos_def)
    then show ?thesis by (simp only: n(1) j)
  qed
qed simp

lemma join_length: "length ws \<le> length (join_with '' '' (map psQuote ws))"
proof (induction ws)
  case (Cons w ws)
  then show ?case by (cases ws) (simp_all add: psQuote_def)
qed simp

lemma elevated_words:
  assumes "ElevatedCommand h helper args = Inr cmd"
  shows "helper_words h cmd = Some (helper # args)"
proof (cases "IsElevated h")
  case True
  then show ?thesis using assms by (auto simp: ElevatedCommand_def helper_words_def)
next
  case not_elevated: False
  show ?thesis
  proof (cases "ho_windows h")
    case True
    let ?q = "join_with '' '' (map psQuote (helper # args)) @ '' -Verb RunAs -Wait''"
    define p where "p = ''Start-Process ''"
    have l: "length (helper # args) < length (p @ ?q)" using join_length [of "helper # args"] by simp
    have "ps_words (length (p @ ?q)) ?q = (helper # args, ''-Verb RunAs -Wait'')"
      by (rule ps_words_read [OF l]) simp
    then have "script_words (p @ ?q) = Some (helper # args)"
      unfolding script_words_def p_def [symmetric] has_prefix_append by simp
    then have "script_words (''Start-Process '' @ ?q) = Some (helper # args)" by (simp only: p_def)
    moreover have "cmd = (''powershell'', [''-NoProfile'', ''-Command'', ''Start-Process '' @ ?q])"
      using assms not_elevated True by (simp add: ElevatedCommand_def ElevateCommand_def)
    ultimately show ?thesis using not_elevated True by (simp add: helper_words_def)
  next
    case False
    then obtain r rs where "HelperRunner h = r # rs" "cmd = (r, rs @ helper # args)"
      using assms not_elevated by (auto simp: ElevatedCommand_def split: list.splits)
    then show ?thesis using not_elevated False by (simp add: helper_words_def)
  qed
qed

lemma helperPath_trusted: "helperPath h st = Inr p \<Longrightarrow> TrustedBinary h p = Inr ()"
  by (auto simp: helperPath_def split: sum.splits)

lemma trusted_unix:
  "isTrustedBinary_unix h p = Inr () \<Longrightarrow>
     is_abs p \<and> (\<exists>perm parent r dperm. ho_stat h p = Some (True, perm) \<and> \<not> world_writable perm \<and>
       ho_resolve h (dir p) = Some parent \<and> ho_stat h parent = Some (r, dperm) \<and> \<not> world_writable dperm)"
  by (auto simp: isTrustedBinary_unix_def split: if_splits option.splits prod.splits)

lemma runCore_words: "runCore (''--'' # argv) = (if argv = [] then Inl NoCoreGiven else Inr argv)"
  by (simp add: runCore_def)

section \<open>Properties\<close>


definition linux_host :: host where
  "linux_host = \<lparr>ho_windows = False, ho_root = False, ho_fltmc = None, ho_env = (\<lambda>_. []), ho_home = Some ''/home/u'',
     ho_mkdir = (\<lambda>_. True),
     ho_stat = map_of [(''/opt/connective/connectived'', (True, 493)), (''/opt/connective/sing-box'', (True, 493)),
       (''/opt/connective/connective-helper'', (True, 493)), (''/opt/connective'', (False, 493)), (''/tmp/x'', (False, 493)),
       (''/usr/../tmp/x/evil'', (True, 493))],
     ho_resolve = Some, ho_exe = Some ''/opt/connective/connectived'', ho_look = (\<lambda>_. None), ho_absolute = Some,
     ho_win_abs = (\<lambda>_. False), ho_win_dir = (\<lambda>p. p), ho_win_join = concat\<rparr>"


section \<open>Where the policy leaks\<close>

text \<open>The temporary directories are looked for in the text of the path, before \<open>..\<close> is resolved.\<close>

lemma temp_check_is_lexical:
  "TrustedBinary linux_host ''/usr/../tmp/x/evil'' = Inr () \<and> clean ''/usr/../tmp/x/evil'' = ''/tmp/x/evil''"
  by code_simp

text \<open>On Windows they are looked for with backslashes, and a path may be written with slashes.\<close>

lemma slashes_pass_the_policy:
  assumes "ho_win_abs h ''C:/Temp/evil.exe''" "ho_stat h ''C:/Temp/evil.exe'' = Some (True, perm)"
    "ho_env h ''TEMP'' = ''C:'' @ [bslash] @ ''Temp''"
  shows "isTrustedBinary_windows h ''C:/Temp/evil.exe'' = Inr ()"
proof -
  have "list_all (\<lambda>d. \<not> str_contains (fold_case ''C:/Temp/evil.exe'') (fold_case d)) (bad_dirs h)"
    unfolding bad_dirs_def assms(3) by code_simp
  moreover have "has_suffix (fold_case ''C:/Temp/evil.exe'') ''.exe''" by code_simp
  ultimately show ?thesis using assms(1,2) by (auto simp: isTrustedBinary_windows_def list_all_iff list_ex_iff)
qed

text \<open>
  \<open>startCore\<close> checks the core it finds and \<open>elevatedCoreCommand\<close> looks again, without the lock: settings saved in
  between let an unchecked program be started with privileges.
\<close>

lemma core_path_read_twice:
  "core_command linux_host Defaults (Defaults\<lparr>CorePath := ''/tmp/evil''\<rparr>) ''c'' =
     Inr (''pkexec'', [''/opt/connective/connective-helper'', ''run-core'', ''--'', ''/tmp/evil'', ''run'', ''-c'', ''c'']) \<and>
   TrustedBinary linux_host ''/tmp/evil'' = Inl BadLocation \<and>
   runCore_in linux_host [''--'', ''/tmp/evil'', ''run'', ''-c'', ''c''] = Inr [''/tmp/evil'', ''run'', ''-c'', ''c'']"
  by code_simp

text \<open>
  \<open>Start-Process\<close> has two positional parameters, the file and one argument list; it refuses further positional
  words. Every elevated call on Windows that gives the helper two words or more is therefore refused.
\<close>

definition start_process :: "string list \<Rightarrow> (string \<times> string list) option" where
  "start_process ws = (case ws of [f] \<Rightarrow> Some (f, []) | [f, a] \<Rightarrow> Some (f, [a]) | _ \<Rightarrow> None)"

lemma windows_elevation_rejected:
  assumes "ElevatedCommand h helper args = Inr cmd" "2 \<le> length args" "ho_windows h" "\<not> IsElevated h"
  shows "\<exists>ws. helper_words h cmd = Some ws \<and> start_process ws = None"
proof -
  obtain a b as where "args = a # b # as" using assms(2) by (cases args; cases "tl args") auto
  then show ?thesis using elevated_words [OF assms(1)] by (simp add: start_process_def)
qed

text \<open>A blank override of the runner ends the daemon with an index out of range.\<close>

lemma blank_runner_panics:
  "\<not> IsElevated h \<Longrightarrow> \<not> ho_windows h \<Longrightarrow> ho_env h ''CONNECTIVE_HELPER_RUNNER'' = '' '' \<Longrightarrow>
     ElevatedCommand h helper args = Inl BlankRunner"
  by (simp add: ElevatedCommand_def HelperRunner_def str_fields_def is_blank_def)

text \<open>The Windows helper ends only what it takes for a core, never itself, and touches no other device.\<close>

lemma windows_helper_harms_only_its_own:
  "(case stopCore_windows ps args of (_, killed) \<Rightarrow>
      \<forall>(pid, forced) \<in> set killed. 4 < pid \<and> pid \<noteq> wp_self ps \<and> int_str pid = flag_value ''--pid'' [] args \<and>
        looksLikeCore_windows (wp_wmic ps pid) (wp_cim ps pid) = Some True) \<and>
   (case tunCleanup_windows shown disabled args' of (_, dev) \<Rightarrow> \<forall>d. dev = Some d \<longrightarrow> fold_case d = ''connective0'')"
  by (auto simp: stopCore_windows_def kill_forced_def tunCleanup_windows_def Let_def OwnTunName_def fold_case_def
    split: option.splits bool.splits if_splits)

text \<open>
  What it takes for a core: the description it searches holds the name of the computer, so on a computer called
  after the product every process is one.
\<close>

lemma computer_name_looks_like_core:
  "looksLikeCore_windows (Some (''Node,CommandLine,ExecutablePath'' @ [CHR 0x0A] @ ''CONNECTIVE-PC,notepad.exe,notepad.exe'')) None = Some True"
  by code_simp

lemma SocketPath_example: "SocketPath linux_host = Inr ''/home/u/.local/share/connective/connectived.sock''"
  by code_simp

lemma waitGone_iff: "waitGone probe i n \<longleftrightarrow> (\<exists>j \<le> n. probe (i + j) = Gone)"
proof (induction n arbitrary: i)
  case (Suc n)
  have "(\<exists>j \<le> Suc n. probe (i + j) = Gone) \<longleftrightarrow> probe i = Gone \<or> (\<exists>j \<le> n. probe (Suc i + j) = Gone)"
    by (metis Suc_le_mono add_Suc_shift le_0_eq not0_implies_Suc add_0_right zero_le)
  then show ?case using Suc by simp
qed simp

end
