(* ===== verification/Update_Service.thy ===== *)
theory Update_Service
  imports Manager_Safety Settings
begin

text \<open>
  The update service of the daemon (\<open>connectived/update.go\<close>): the choice of the provider and of the trusted keys
  from the environment, the manager made of them, and the request handlers. A handler that starts a goroutine
  leaves a job behind; a job starts its call of the manager at any later time. The environment, the file it
  names, the JSON and key decoders and the embedded keys are parameters. The channel is read from the settings
  once; the manager reads it at every check.
\<close>

record update_env =
  ue_provider :: string
  ue_keys :: string
  ue_apply :: string
  ue_file :: "string \<Rightarrow> string option"

datatype source = DirSource string | GitHubSource string string

definition cut_prefix :: "string \<Rightarrow> string \<Rightarrow> string option" where
  "cut_prefix s p = (if has_prefix s p \<and> drop (length p) s \<noteq> [] then Some (drop (length p) s) else None)"

definition updateProviderFromEnv :: "update_env \<Rightarrow> source" where
  "updateProviderFromEnv e =
     (let spec = trim_space (ue_provider e)
      in case cut_prefix spec ''dir:'' of
           Some d \<Rightarrow> DirSource d
         | None \<Rightarrow> (case cut_prefix spec ''file:'' of
             Some d \<Rightarrow> DirSource d
           | None \<Rightarrow> GitHubSource ''calledLifelss'' ''Connective''))"

datatype keys_error = KeysUnreadable string | KeysNotJson string | NoUsableKey string

text \<open>\<open>decode\<close> reads the JSON object, \<open>key\<close> a key of the right length from hexadecimal digits.\<close>

definition usable :: "(string \<Rightarrow> 'k option) \<Rightarrow> (string \<times> string) list \<Rightarrow> (string \<times> 'k) list" where
  "usable key hexKeys = List.map_filter (\<lambda>(kid, hx). map_option (Pair kid) (key (trim_space hx))) hexKeys"

definition trustedKeysFromEnv ::
    "(string \<times> 'k) list \<Rightarrow> (string \<Rightarrow> (string \<times> string) list option) \<Rightarrow> (string \<Rightarrow> 'k option) \<Rightarrow> update_env \<Rightarrow>
     (keys_error, (string \<times> 'k) list) res" where
  "trustedKeysFromEnv embedded decode key e =
     (let path = trim_space (ue_keys e)
      in if path = [] then Inr embedded
         else case ue_file e path of
           None \<Rightarrow> Inl (KeysUnreadable path)
         | Some raw \<Rightarrow>
             (case decode raw of
                None \<Rightarrow> Inl (KeysNotJson path)
              | Some hexKeys \<Rightarrow> if usable key hexKeys = [] then Inl (NoUsableKey path) else Inr (usable key hexKeys)))"

text \<open>\<open>initUpdates\<close>: \<open>c\<close> holds what does not depend on the environment.\<close>

definition service_cfg :: "(keys_error, (string \<times> 'k) list) res \<Rightarrow> update_env \<Rightarrow> settings \<Rightarrow> 'k cfg \<Rightarrow> 'k cfg" where
  "service_cfg ks e st c =
     c\<lparr>keys := (case ks of Inl _ \<Rightarrow> [] | Inr k \<Rightarrow> k), set_channel := UpdateChannel st,
       test_apply := (ue_apply e = ''1'' \<and> ue_provider e \<noteq> [])\<rparr>"

section \<open>Requests\<close>

datatype update_job = RunDownload | RunInstall

record service =
  us_sys :: "sys option"
  us_jobs :: "update_job list"

datatype reply = Snapshot_of status | IdleStatus | NotReady

definition hUpdateCheck :: "'k cfg \<Rightarrow> int \<Rightarrow> service \<Rightarrow> reply \<times> service" where
  "hUpdateCheck c now u =
     (case us_sys u of
        None \<Rightarrow> (NotReady, u)
      | Some s \<Rightarrow>
          (case StartCheck c now True (mgr s) of
             (m, Some q) \<Rightarrow> (Snapshot_of (snapshot c m), u\<lparr>us_sys := Some (new_thread (TCheck q) m s)\<rparr>)
           | (m, None) \<Rightarrow> (Snapshot_of (snapshot c m), u\<lparr>us_sys := Some (s\<lparr>mgr := m\<rparr>)\<rparr>)))"

definition hUpdateStatus :: "'k cfg \<Rightarrow> service \<Rightarrow> reply \<times> service" where
  "hUpdateStatus c u = (case us_sys u of None \<Rightarrow> IdleStatus | Some s \<Rightarrow> Snapshot_of (snapshot c (mgr s)), u)"

definition hUpdateDownload :: "'k cfg \<Rightarrow> service \<Rightarrow> reply \<times> service" where
  "hUpdateDownload c u =
     (case us_sys u of
        None \<Rightarrow> (NotReady, u)
      | Some s \<Rightarrow> (Snapshot_of (snapshot c (mgr s)), u\<lparr>us_jobs := us_jobs u @ [RunDownload]\<rparr>))"

definition hUpdateInstall :: "'k cfg \<Rightarrow> service \<Rightarrow> reply \<times> service" where
  "hUpdateInstall c u =
     (case us_sys u of
        None \<Rightarrow> (NotReady, u)
      | Some s \<Rightarrow> (Snapshot_of (snapshot c (mgr s)), u\<lparr>us_jobs := us_jobs u @ [RunInstall]\<rparr>))"

definition hUpdateCancel :: "'k cfg \<Rightarrow> service \<Rightarrow> reply \<times> service" where
  "hUpdateCancel c u =
     (case us_sys u of
        None \<Rightarrow> (IdleStatus, u)
      | Some s \<Rightarrow> (Snapshot_of (snapshot c (Cancel c (mgr s))), u\<lparr>us_sys := Some (s\<lparr>mgr := Cancel c (mgr s)\<rparr>)\<rparr>))"

definition hUpdateDismiss :: "'k cfg \<Rightarrow> service \<Rightarrow> reply \<times> service" where
  "hUpdateDismiss c u =
     (case us_sys u of
        None \<Rightarrow> (IdleStatus, u)
      | Some s \<Rightarrow> (Snapshot_of (snapshot c (Dismiss c (mgr s))), u\<lparr>us_sys := Some (s\<lparr>mgr := Dismiss c (mgr s)\<rparr>)\<rparr>))"

text \<open>A job starts: the first atomic section of its call.\<close>

definition start_job :: "'k cfg \<Rightarrow> update_job \<Rightarrow> sys \<Rightarrow> sys" where
  "start_job c j s =
     (case j of
        RunDownload \<Rightarrow>
          (case Download_start c (next_op s) (mgr s) of (m, Some a) \<Rightarrow> new_thread (TFetch a) m s | (m, None) \<Rightarrow> s)
      | RunInstall \<Rightarrow>
          (case Install_start c (next_op s) (mgr s) of (m, Some ij) \<Rightarrow> new_thread (TAssemble ij) m s | (m, None) \<Rightarrow> s))"

inductive svc_step :: "'k cfg \<Rightarrow> (query \<Rightarrow> (check_error, release) res \<Rightarrow> bool) \<Rightarrow> service \<Rightarrow> service \<Rightarrow> bool" for c prov where
  init_updates: "us_sys u = None \<Longrightarrow> svc_step c prov u (u\<lparr>us_sys := Some (boot_sys c cache fs)\<rparr>)"
| check: "svc_step c prov u (snd (hUpdateCheck c now u))"
| status: "svc_step c prov u (snd (hUpdateStatus c u))"
| download: "svc_step c prov u (snd (hUpdateDownload c u))"
| install: "svc_step c prov u (snd (hUpdateInstall c u))"
| cancel: "svc_step c prov u (snd (hUpdateCancel c u))"
| dismiss: "svc_step c prov u (snd (hUpdateDismiss c u))"
| job: "us_sys u = Some s \<Longrightarrow> j \<in> set (us_jobs u) \<Longrightarrow>
    svc_step c prov u (u\<lparr>us_sys := Some (start_job c j s), us_jobs := remove1 j (us_jobs u)\<rparr>)"
| running: "us_sys u = Some s \<Longrightarrow> ustep c prov s s' \<Longrightarrow> svc_step c prov u (u\<lparr>us_sys := Some s'\<rparr>)"

inductive svc_reach :: "'k cfg \<Rightarrow> (query \<Rightarrow> (check_error, release) res \<Rightarrow> bool) \<Rightarrow> service \<Rightarrow> bool" for c prov where
  svc_start: "svc_reach c prov \<lparr>us_sys = None, us_jobs = []\<rparr>"
| svc_next: "svc_reach c prov u \<Longrightarrow> svc_step c prov u u' \<Longrightarrow> svc_reach c prov u'"

section \<open>The service runs the manager\<close>

definition ok_sys :: "'k cfg \<Rightarrow> (query \<Rightarrow> (check_error, release) res \<Rightarrow> bool) \<Rightarrow> service \<Rightarrow> bool" where
  "ok_sys c prov u \<longleftrightarrow> (\<forall>s. us_sys u = Some s \<longrightarrow> ureach c prov s)"

lemma start_job_reach: "ureach c prov s \<Longrightarrow> ureach c prov (start_job c j s)"
  by (cases j)
    (auto simp: start_job_def split: prod.splits option.splits intro: ureach.step ustep.download_start ustep.install_start)

lemma check_reach: "ok_sys c prov u \<Longrightarrow> ok_sys c prov (snd (hUpdateCheck c now u))"
  by (auto simp: ok_sys_def hUpdateCheck_def split: prod.splits option.splits
    intro: ureach.step ustep.check_start ustep.check_skip)

lemma svc_step_ok: "svc_step c prov u u' \<Longrightarrow> ok_sys c prov u \<Longrightarrow> ok_sys c prov u'"
proof (induction rule: svc_step.induct)
  case (check u now)
  then show ?case by (rule check_reach)
qed (auto simp: ok_sys_def hUpdateStatus_def hUpdateDownload_def hUpdateInstall_def hUpdateCancel_def hUpdateDismiss_def
  split: option.splits intro: ureach.boot ureach.step ustep.cancel ustep.dismiss start_job_reach)

lemma svc_reach_ok: "svc_reach c prov u \<Longrightarrow> ok_sys c prov u"
  by (induction rule: svc_reach.induct) (simp add: ok_sys_def, rule svc_step_ok)

lemma usable_source: "(kid, k) \<in> set (usable key hexKeys) \<longleftrightarrow> (\<exists>hx. (kid, hx) \<in> set hexKeys \<and> key (trim_space hx) = Some k)"
  by (force simp: usable_def List.map_filter_def)

lemma authentic_key:
  assumes "authentic c rel"
  obtains k where "map_of (keys c) (key_id (rel_manifest rel)) = Some k"
    "VerifyManifest (ed_verify c) (canon c) [(key_id (rel_manifest rel), k)] (rel_manifest rel) = Inr ()"
  using assms by (auto simp: authentic_def VerifyManifest_def is_ok_iff split: if_splits option.splits)

lemma configured_keys:
  "trim_space (ue_keys e) \<noteq> [] \<Longrightarrow> trustedKeysFromEnv embedded decode key e = Inr ks \<Longrightarrow>
     \<exists>raw hexKeys. ue_file e (trim_space (ue_keys e)) = Some raw \<and> decode raw = Some hexKeys \<and> ks = usable key hexKeys"
  by (auto simp: trustedKeysFromEnv_def Let_def split: option.splits if_splits)

section \<open>Properties\<close>

text \<open>
  C35. A configured trust root is the only one, and a broken one fails closed: with a keys file named in the
  environment, whatever requests, jobs and network answers come in whatever order, no update is offered,
  fetched, staged or handed to the updater unless its manifest is signed with a usable key of that file under
  the id it has there; when the file cannot be read, is no JSON object or has no usable key, nothing ever is,
  not even with the embedded keys.
\<close>

theorem trust_root_is_exclusive:
  assumes "svc_reach (service_cfg (trustedKeysFromEnv embedded decode key e) e st c) prov u" and "us_sys u = Some s"
    and "trim_space (ue_keys e) \<noteq> []"
  shows "(m_state (mgr s) \<in> {UpdateAvailable, Downloading, Verifying, Staging, Installing, Restarting} \<longrightarrow>
      (\<exists>rel raw hexKeys hx k. m_pending (mgr s) = Some rel \<and> ue_file e (trim_space (ue_keys e)) = Some raw \<and> decode raw = Some hexKeys \<and>
         (key_id (rel_manifest rel), hx) \<in> set hexKeys \<and> key (trim_space hx) = Some k \<and>
         VerifyManifest (ed_verify c) (canon c) [(key_id (rel_manifest rel), k)] (rel_manifest rel) = Inr ())) \<and>
    ((\<exists>err. trustedKeysFromEnv embedded decode key e = Inl err) \<longrightarrow>
      m_state (mgr s) \<notin> {UpdateAvailable, Downloading, Verifying, Staging, Installing, Restarting} \<and>
      m_artifact (mgr s) = None \<and> m_staged (mgr s) = [])"
proof -
  let ?ks = "trustedKeysFromEnv embedded decode key e"
  let ?c = "service_cfg ?ks e st c"
  have inv: "run_inv ?c s" using svc_reach_ok [OF assms(1)] assms(2) by (auto simp: ok_sys_def intro: ureach_inv)
  have engaged: "\<exists>rel. m_pending (mgr s) = Some rel \<and> authentic ?c rel" if "m_state (mgr s) \<in> engaged"
    using run_invD(1) [OF inv] that by (simp add: safe_def)
  have c: "ed_verify ?c = ed_verify c" "canon ?c = canon c" by (simp_all add: service_cfg_def)
  have "\<exists>rel raw hexKeys hx k. m_pending (mgr s) = Some rel \<and> ue_file e (trim_space (ue_keys e)) = Some raw \<and> decode raw = Some hexKeys \<and>
         (key_id (rel_manifest rel), hx) \<in> set hexKeys \<and> key (trim_space hx) = Some k \<and>
         VerifyManifest (ed_verify c) (canon c) [(key_id (rel_manifest rel), k)] (rel_manifest rel) = Inr ()"
    if st: "m_state (mgr s) \<in> engaged"
  proof -
    obtain rel where rel: "m_pending (mgr s) = Some rel" "authentic ?c rel" using engaged [OF st] by blast
    obtain k where k: "map_of (keys ?c) (key_id (rel_manifest rel)) = Some k"
      "VerifyManifest (ed_verify c) (canon c) [(key_id (rel_manifest rel), k)] (rel_manifest rel) = Inr ()"
      using authentic_key [OF rel(2)] unfolding c by blast
    then obtain ks where ks: "?ks = Inr ks" "map_of ks (key_id (rel_manifest rel)) = Some k"
      by (cases ?ks) (simp_all add: service_cfg_def)
    with configured_keys [OF assms(3)] obtain raw hexKeys where "ue_file e (trim_space (ue_keys e)) = Some raw" "decode raw = Some hexKeys"
      "ks = usable key hexKeys" by blast
    moreover have "(key_id (rel_manifest rel), k) \<in> set ks" using ks(2) by (rule map_of_SomeD)
    ultimately show ?thesis using rel(1) k(2) usable_source [of _ k key hexKeys] by blast
  qed
  moreover have "m_state (mgr s) \<notin> engaged \<and> m_artifact (mgr s) = None \<and> m_staged (mgr s) = []" if "?ks = Inl err" for err
  proof -
    have "\<not> authentic ?c rel" for rel using that by (simp add: authentic_def service_cfg_def VerifyManifest_def)
    then show ?thesis using engaged run_invD(1,2) [OF inv] by (auto simp: safe_def staged_ok_def listed_def)
  qed
  ultimately show ?thesis by (auto simp: engaged_def)
qed

lemma ureach_svc: "ureach c prov s \<Longrightarrow> svc_reach c prov \<lparr>us_sys = Some s, us_jobs = []\<rparr>"
proof (induction rule: ureach.induct)
  case (boot cache fs)
  show ?case using svc_next [OF svc_start svc_step.init_updates [of _ c prov cache fs]] by fastforce
next
  case (step s s')
  then show ?case using svc_next [OF step(3) svc_step.running [OF _ step(2)]] by fastforce
qed

definition file_env :: update_env where
  "file_env = \<lparr>ue_provider = [], ue_keys = '' /k.json'', ue_apply = [], ue_file = [''/k.json'' \<mapsto> ''{}'']\<rparr>"

theorem trust_root_is_exclusive_witness:
  "\<exists>u s rel. svc_reach (service_cfg (trustedKeysFromEnv [] (\<lambda>_. Some [(''k'', ''aa'')]) (\<lambda>_. Some ()) file_env) file_env Defaults demo_cfg) demo_prov u \<and>
     us_sys u = Some s \<and> m_state (mgr s) = UpdateAvailable \<and> m_pending (mgr s) = Some rel \<and> key_id (rel_manifest rel) = ''k''"
proof (rule demo_outcome [OF plain_outcome demo_answers(1)])
  fix s assume s: "ureach demo_cfg demo_prov s" "m_state (mgr s) = UpdateAvailable"
  let ?ks = "trustedKeysFromEnv [] (\<lambda>_. Some [(''k'', ''aa'')]) (\<lambda>_. Some ()) file_env"
  have ks: "?ks = Inr [(''k'', ())]" by code_simp
  have c: "service_cfg ?ks file_env Defaults demo_cfg = demo_cfg"
    unfolding ks by (simp add: service_cfg_def demo_cfg_def file_env_def Defaults_def)
  have r: "svc_reach (service_cfg ?ks file_env Defaults demo_cfg) demo_prov \<lparr>us_sys = Some s, us_jobs = []\<rparr>"
    unfolding c by (rule ureach_svc [OF s(1)])
  have k: "trim_space (ue_keys file_env) \<noteq> []" by code_simp
  have "us_sys \<lparr>us_sys = Some s, us_jobs = []\<rparr> = Some s" by simp
  from trust_root_is_exclusive [OF r this k] s(2) r show ?thesis by fastforce
qed

definition demo_env :: update_env where
  "demo_env = \<lparr>ue_provider = ''x'', ue_keys = [], ue_apply = ''1'', ue_file = (\<lambda>_. None)\<rparr>"

text \<open>
  The in-process activation is documented to need a fixture provider; any text in the variable enables it,
  also one that selects GitHub.
\<close>

lemma test_apply_without_fixture:
  "test_apply (service_cfg ks demo_env st c) \<and> updateProviderFromEnv demo_env = GitHubSource ''calledLifelss'' ''Connective''"
proof -
  have "updateProviderFromEnv demo_env = GitHubSource ''calledLifelss'' ''Connective''" by code_simp
  then show ?thesis by (simp add: service_cfg_def demo_env_def)
qed

text \<open>A check asked for by hand answers that it is checking unless something is under way.\<close>

lemma check_reply:
  assumes "us_sys u = Some s" "m_state (mgr s) \<in> set idle_states"
  shows "\<exists>r. fst (hUpdateCheck c now u) = Snapshot_of r \<and> s_state r = Checking"
  using StartCheck_idle [OF assms(2), of c now] assms(1)
  by (auto simp: hUpdateCheck_def snapshot_def split: prod.splits option.splits)

end
