(* ===== verification/Stats.thy ===== *)
theory Stats
  imports Prelude
begin

text \<open>
  Traffic statistics (\<open>stats/stats.go\<close>, \<open>statsLoop\<close> and \<open>hGetStats\<close> of \<open>connectived/main.go\<close>). What the core's
  API answers is a parameter. Times are nanoseconds; a rate, a \<open>float64\<close> quotient cut to an integer in the code,
  is the exact quotient cut towards zero.
\<close>

record totals =
  t_up :: int
  t_down :: int

record snapshot =
  sn_up :: int
  sn_down :: int
  sn_up_rate :: int
  sn_down_rate :: int
  sn_at :: int

text \<open>\<open>get\<close> and \<open>Totals\<close>: the answer of the API is a status and a body, None when there is none.\<close>

definition get_body :: "(int \<times> string) option \<Rightarrow> string option" where
  "get_body answer =
     (case answer of None \<Rightarrow> None | Some (code, body) \<Rightarrow> if code \<noteq> 200 then None else Some (read_limited 8388608 body))"

definition Totals_of :: "(string \<Rightarrow> totals option) \<Rightarrow> (int \<times> string) option \<Rightarrow> totals option" where
  "Totals_of decode answer = Option.bind (get_body answer) decode"

definition SwitchProxy :: "(int \<times> string) option \<Rightarrow> bool" where
  "SwitchProxy answer = (case answer of None \<Rightarrow> False | Some (code, _) \<Rightarrow> code = 204 \<or> code = 200)"

text \<open>The tracker; \<open>tk_at\<close> is None before the first sample.\<close>

record tracker =
  tk_last :: totals
  tk_at :: "int option"

definition NewTracker :: tracker where
  "NewTracker = \<lparr>tk_last = \<lparr>t_up = 0, t_down = 0\<rparr>, tk_at = None\<rparr>"

definition per_second :: "int \<Rightarrow> int \<Rightarrow> int" where
  "per_second n ns = (let q = \<bar>n\<bar> * 1000000000 div ns in if n < 0 then - q else q)"

definition rate :: "int \<Rightarrow> int \<Rightarrow> int" where
  "rate n ns = (if per_second n ns < 0 then 0 else per_second n ns)"

definition Sample :: "int \<Rightarrow> totals option \<Rightarrow> tracker \<Rightarrow> snapshot option \<times> tracker" where
  "Sample now tot t =
     (case tot of
        None \<Rightarrow> (None, t)
      | Some x \<Rightarrow>
          (let fresh = \<lparr>sn_up = t_up x, sn_down = t_down x, sn_up_rate = 0, sn_down_rate = 0, sn_at = now\<rparr>;
               snap = (case tk_at t of
                   None \<Rightarrow> fresh
                 | Some before \<Rightarrow>
                     if now - before > 0
                     then fresh\<lparr>sn_up_rate := rate (t_up x - t_up (tk_last t)) (now - before),
                                sn_down_rate := rate (t_down x - t_down (tk_last t)) (now - before)\<rparr>
                     else fresh)
           in (Some snap, \<lparr>tk_last = x, tk_at = Some now\<rparr>)))"

text \<open>The session of the daemon: the totals at its start, kept from before when they cannot be read.\<close>

record session =
  se_up :: int
  se_down :: int
  se_start :: int

definition begin_session :: "int \<Rightarrow> totals option \<Rightarrow> session \<Rightarrow> session" where
  "begin_session now tot s =
     (case tot of
        None \<Rightarrow> s\<lparr>se_start := now\<rparr>
      | Some x \<Rightarrow> \<lparr>se_up = t_up x, se_down = t_down x, se_start = now\<rparr>)"

record stats_frame =
  sf_up_rate :: int
  sf_down_rate :: int
  sf_up :: int
  sf_down :: int
  sf_ms :: int

definition frame_of :: "int \<Rightarrow> session \<Rightarrow> snapshot \<Rightarrow> stats_frame" where
  "frame_of now s snap =
     \<lparr>sf_up_rate = sn_up_rate snap, sf_down_rate = sn_down_rate snap, sf_up = sn_up snap - se_up s,
      sf_down = sn_down snap - se_down s, sf_ms = (now - se_start s) div 1000000\<rparr>"

definition stats_tick :: "int \<Rightarrow> totals option \<Rightarrow> session \<Rightarrow> tracker \<Rightarrow> stats_frame option \<times> tracker" where
  "stats_tick now tot s t =
     (case Sample now tot t of (None, t') \<Rightarrow> (None, t') | (Some snap, t') \<Rightarrow> (Some (frame_of now s snap), t'))"

datatype stats_reply = NotConnected | StatsError | Stats stats_frame

definition hGetStats :: "bool \<Rightarrow> int \<Rightarrow> totals option \<Rightarrow> session \<Rightarrow> tracker \<Rightarrow> stats_reply \<times> tracker" where
  "hGetStats connected now tot s t =
     (if \<not> connected then (NotConnected, t)
      else case stats_tick now tot s t of (None, t') \<Rightarrow> (StatsError, t') | (Some f, t') \<Rightarrow> (Stats f, t'))"

section \<open>Lemmas\<close>

lemma rate_nonneg: "0 < ns \<Longrightarrow> 0 \<le> rate n ns"
  by (simp add: rate_def)

text \<open>A rate never claims more than what was transferred.\<close>

lemma rate_bound: "0 < ns \<Longrightarrow> 0 \<le> n \<Longrightarrow> rate n ns * ns \<le> n * 1000000000 \<and> n * 1000000000 < (rate n ns + 1) * ns"
proof -
  assume ns: "0 < ns" and n: "0 \<le> n"
  let ?q = "n * 1000000000 div ns"
  have "0 \<le> ?q" using ns n by (simp add: pos_imp_zdiv_nonneg_iff)
  then have r: "rate n ns = ?q" using n by (simp add: rate_def per_second_def Let_def)
  have "?q * ns + n * 1000000000 mod ns = n * 1000000000" by (rule div_mult_mod_eq)
  moreover have "0 \<le> n * 1000000000 mod ns" "n * 1000000000 mod ns < ns" using ns by simp_all
  ultimately show ?thesis unfolding r distrib_right by linarith
qed

text \<open>
  Over any sequence of successful samples with growing times and counters, what the rates add up to never
  exceeds the traffic between the first and the last sample.
\<close>

fun credited :: "(int \<times> totals) list \<Rightarrow> tracker \<Rightarrow> int" where
  "credited [] t = 0"
| "credited ((now, x) # xs) t =
     (case Sample now (Some x) t of
        (Some snap, t') \<Rightarrow> sn_up_rate snap * (now - (case tk_at t of None \<Rightarrow> now | Some b \<Rightarrow> b)) + credited xs t'
      | (None, t') \<Rightarrow> credited xs t')"

fun growing :: "int \<Rightarrow> int \<Rightarrow> (int \<times> totals) list \<Rightarrow> bool" where
  "growing now up [] = True"
| "growing now up ((n, x) # xs) = (now < n \<and> up \<le> t_up x \<and> growing n (t_up x) xs)"

lemma credited_bound:
  "growing now (t_up (tk_last t)) xs \<Longrightarrow> tk_at t = Some now \<Longrightarrow>
   credited xs t \<le> (t_up (last (tk_last t # map snd xs)) - t_up (tk_last t)) * 1000000000"
proof (induction xs arbitrary: now t)
  case (Cons p xs)
  obtain n x where p: "p = (n, x)" by fastforce
  let ?t = "\<lparr>tk_last = x, tk_at = Some n\<rparr>" and ?d = "t_up x - t_up (tk_last t)"
  have g: "now < n" "t_up (tk_last t) \<le> t_up x" "growing n (t_up x) xs" using Cons.prems p by simp_all
  have "credited xs ?t \<le> (t_up (last (x # map snd xs)) - t_up x) * 1000000000"
    using Cons.IH [of n ?t] g(3) by simp
  moreover have "rate ?d (n - now) * (n - now) \<le> ?d * 1000000000" using rate_bound [of "n - now" ?d] g by simp
  moreover have "credited (p # xs) t = rate ?d (n - now) * (n - now) + credited xs ?t"
    using Cons.prems(2) g(1) by (simp add: p Sample_def)
  moreover have "last (tk_last t # map snd (p # xs)) = last (x # map snd xs)" by (simp add: p)
  ultimately show ?case by (simp only: left_diff_distrib)
qed simp

text \<open>
  When the totals cannot be read at the start of a session, the counters of the session before are its base: a
  new core counts from 0, and the totals shown are negative.
\<close>

lemma stale_session_base:
  "let s = begin_session 20 None (begin_session 10 (Some \<lparr>t_up = 5000, t_down = 7000\<rparr>) \<lparr>se_up = 0, se_down = 0, se_start = 0\<rparr>)
   in map_option sf_up (fst (stats_tick 30 (Some \<lparr>t_up = 100, t_down = 200\<rparr>) s NewTracker)) = Some (- 4900)"
  by (simp add: begin_session_def stats_tick_def Sample_def NewTracker_def frame_of_def)

text \<open>
  A request for the statistics moves the base of the tracker that the loop uses too: the next frame of the loop
  covers only the time since that request.
\<close>

lemma request_moves_the_base:
  "let t = snd (Sample 0 (Some \<lparr>t_up = 0, t_down = 0\<rparr>) NewTracker);
       s = \<lparr>se_up = 0, se_down = 0, se_start = 0\<rparr>;
       asked = snd (hGetStats True 990000000 (Some \<lparr>t_up = 1000, t_down = 0\<rparr>) s t)
   in map_option sf_up_rate (fst (stats_tick 1000000000 (Some \<lparr>t_up = 1000, t_down = 0\<rparr>) s t)) = Some 1000 \<and>
      map_option sf_up_rate (fst (stats_tick 1000000000 (Some \<lparr>t_up = 1000, t_down = 0\<rparr>) s asked)) = Some 0"
  by (simp add: hGetStats_def stats_tick_def Sample_def NewTracker_def frame_of_def rate_def per_second_def Let_def)

end
