(* ===== verification/Sysproxy.thy ===== *)
theory Sysproxy
  imports Routes
begin

text \<open>
  The system proxy of Windows (\<open>sysproxy/sysproxy_windows.go\<close>): three registry values, taken down before they are
  set and written back afterwards. The registry is a map from value names to a type and a text; \<open>reg query\<close> prints
  both on one line and the reader splits that line at blanks. Whether a \<open>reg add\<close> or \<open>reg delete\<close> succeeds is a
  parameter.
\<close>

type_synonym registry = "string \<rightharpoonup> string \<times> string"

definition valEnable :: string where "valEnable = ''ProxyEnable''"
definition valServer :: string where "valServer = ''ProxyServer''"
definition valOverride :: string where "valOverride = ''ProxyOverride''"

definition vals :: "string list" where
  "vals = [valEnable, valServer, valOverride]"

datatype reg_command = Add string string string | Delete string

fun reg_run :: "(reg_command \<Rightarrow> bool) \<Rightarrow> reg_command \<Rightarrow> registry \<Rightarrow> bool \<times> registry" where
  "reg_run ok (Add v ty d) r = (if ok (Add v ty d) then (True, r(v \<mapsto> (ty, d))) else (False, r))"
| "reg_run ok (Delete v) r = (if ok (Delete v) \<and> r v \<noteq> None then (True, r(v := None)) else (False, r))"

text \<open>The line of a value and what is read from it.\<close>

definition reg_line :: "string \<Rightarrow> string \<times> string \<Rightarrow> string" where
  "reg_line v x = ''    '' @ v @ ''    '' @ fst x @ ''    '' @ snd x"

definition query :: "registry \<Rightarrow> string \<Rightarrow> string option" where
  "query r v =
     (case r v of
        None \<Rightarrow> None
      | Some x \<Rightarrow>
          (let f = str_fields (reg_line v x)
           in if length f \<ge> 3 \<and> fold_case (f ! 0) = fold_case v then Some (join_with '' '' (drop 2 f)) else None))"

record sysproxy =
  sp_prev :: "string \<rightharpoonup> string"
  sp_active :: bool

record proxy_config =
  pc_enabled :: bool
  pc_host :: string
  pc_port :: int
  pc_bypass :: "string list"

definition new_sysproxy :: sysproxy where
  "new_sysproxy = \<lparr>sp_prev = Map.empty, sp_active = False\<rparr>"

definition type_of :: "string \<Rightarrow> string" where
  "type_of v = (if v = valEnable then ''REG_DWORD'' else ''REG_SZ'')"

fun restore_values :: "(reg_command \<Rightarrow> bool) \<Rightarrow> (string \<rightharpoonup> string) \<Rightarrow> string list \<Rightarrow> registry \<Rightarrow> bool \<times> registry" where
  "restore_values ok prev [] r = (True, r)"
| "restore_values ok prev (v # vs) r =
     (case prev v of
        None \<Rightarrow> restore_values ok prev vs (snd (reg_run ok (Delete v) r))
      | Some d \<Rightarrow>
          (case reg_run ok (Add v (type_of v) d) r of
             (False, r') \<Rightarrow> (False, r')
           | (True, r') \<Rightarrow> restore_values ok prev vs r'))"

definition Restore :: "(reg_command \<Rightarrow> bool) \<Rightarrow> sysproxy \<Rightarrow> registry \<Rightarrow> bool \<times> sysproxy \<times> registry" where
  "Restore ok m r =
     (case restore_values ok (sp_prev m) vals r of (done_all, r') \<Rightarrow> (done_all, if done_all then m\<lparr>sp_active := False\<rparr> else m, r'))"

fun snapshot_values :: "registry \<Rightarrow> string list \<Rightarrow> (string \<rightharpoonup> string) \<Rightarrow> (string \<rightharpoonup> string)" where
  "snapshot_values r [] prev = prev"
| "snapshot_values r (v # vs) prev =
     snapshot_values r vs (case query r v of None \<Rightarrow> prev | Some d \<Rightarrow> if prev v = None then prev(v \<mapsto> d) else prev)"

fun add_all :: "(reg_command \<Rightarrow> bool) \<Rightarrow> reg_command list \<Rightarrow> registry \<Rightarrow> bool \<times> registry" where
  "add_all ok [] r = (True, r)"
| "add_all ok (c # cs) r = (case reg_run ok c r of (False, r') \<Rightarrow> (False, r') | (True, r') \<Rightarrow> add_all ok cs r')"

definition settings_of :: "proxy_config \<Rightarrow> reg_command list" where
  "settings_of c =
     [Add valServer ''REG_SZ'' (pc_host c @ '':'' @ int_str (pc_port c)),
      Add valOverride ''REG_SZ'' (if pc_bypass c = [] then ''<local>'' else ''<local>;'' @ join_with '';'' (pc_bypass c)),
      Add valEnable ''REG_DWORD'' ''1'']"

definition ApplyProxy :: "(reg_command \<Rightarrow> bool) \<Rightarrow> proxy_config \<Rightarrow> sysproxy \<Rightarrow> registry \<Rightarrow> bool \<times> sysproxy \<times> registry" where
  "ApplyProxy ok c m r =
     (if \<not> pc_enabled c then Restore ok m r
      else
        (let m1 = m\<lparr>sp_prev := snapshot_values r vals (sp_prev m)\<rparr>
         in case add_all ok (settings_of c) r of
              (False, r') \<Rightarrow> (False, m1, r')
            | (True, r') \<Rightarrow> (True, m1\<lparr>sp_active := True\<rparr>, r')))"

section \<open>Round trip\<close>

text \<open>A value the reader gives back as it is: of the type written back, and without runs of blanks.\<close>

definition faithful :: "registry \<Rightarrow> bool" where
  "faithful r \<longleftrightarrow> (\<forall>v \<in> set vals. case r v of None \<Rightarrow> True | Some (ty, d) \<Rightarrow> ty = type_of v \<and> query r v = Some d)"

lemma vals_distinct [simp]: "valEnable \<noteq> valServer" "valServer \<noteq> valEnable" "valEnable \<noteq> valOverride" "valOverride \<noteq> valEnable"
  "valServer \<noteq> valOverride" "valOverride \<noteq> valServer"
  by (simp_all add: valEnable_def valServer_def valOverride_def)

lemma query_absent: "r v = None \<Longrightarrow> query r v = None"
  by (simp add: query_def)

lemma reg_run_ok:
  assumes "\<And>c. ok c"
  shows "reg_run ok (Add v ty d) r = (True, r(v \<mapsto> (ty, d)))" "snd (reg_run ok (Delete v) r) = r(v := None)"
  using assms by (cases "r v"; auto simp: fun_eq_iff)+

declare reg_run.simps [simp del]

lemma restore_all:
  assumes "\<And>c. ok c"
  shows "restore_values ok prev vs r = (True, \<lambda>v. if v \<in> set vs then map_option (Pair (type_of v)) (prev v) else r v)"
proof (induction vs arbitrary: r)
  case (Cons v vs)
  show ?case
  proof (cases "prev v")
    case None
    then have "restore_values ok prev (v # vs) r = restore_values ok prev vs (r(v := None))"
      using reg_run_ok(2) [OF assms] by simp
    then show ?thesis using Cons.IH [of "r(v := None)"] None by (auto simp: fun_eq_iff)
  next
    case (Some d)
    then have "restore_values ok prev (v # vs) r = restore_values ok prev vs (r(v \<mapsto> (type_of v, d)))"
      using reg_run_ok(1) [OF assms] by simp
    then show ?thesis using Cons.IH [of "r(v \<mapsto> (type_of v, d))"] Some by (auto simp: fun_eq_iff)
  qed
qed simp

lemma snapshot_faithful:
  assumes "faithful r" "v \<in> set vals"
  shows "map_option (Pair (type_of v)) (snapshot_values r vals Map.empty v) = r v"
proof -
  have q: "query r v = map_option snd (r v)" "map_option (Pair (type_of v)) (map_option snd (r v)) = r v" if "v \<in> set vals" for v
    using assms(1) that query_absent [of r v] by (cases "r v"; auto simp: faithful_def)+
  have "snapshot_values r vals Map.empty v = query r v"
    using assms(2) by (auto simp: vals_def split: option.splits)
  then show ?thesis using q [OF assms(2)] by simp
qed

text \<open>
  Switching the proxy on and off gives the registry back: when every command succeeds and the old values are
  ones the reader reproduces, the first application sets server and switch, and the restoration puts every
  value back, deleting those that did not exist.
\<close>

theorem proxy_restored:
  assumes ok: "\<And>c. ok c" and r: "faithful r" and c: "pc_enabled c"
    and a: "ApplyProxy ok c new_sysproxy r = (b, m, r')"
  shows "b \<and> sp_active m \<and> r' valServer = Some (''REG_SZ'', pc_host c @ '':'' @ int_str (pc_port c)) \<and> r' valEnable = Some (''REG_DWORD'', ''1'') \<and>
    (case Restore ok m r' of (b', m', r'') \<Rightarrow> b' \<and> \<not> sp_active m' \<and> (\<forall>v. r'' v = r v))"
proof -
  let ?p = "snapshot_values r vals Map.empty"
  have b: b and m: "sp_prev m = ?p" "sp_active m"
    and r': "r' = r(valServer \<mapsto> (''REG_SZ'', pc_host c @ '':'' @ int_str (pc_port c)),
       valOverride \<mapsto> (''REG_SZ'', if pc_bypass c = [] then ''<local>'' else ''<local>;'' @ join_with '';'' (pc_bypass c)),
       valEnable \<mapsto> (''REG_DWORD'', ''1''))"
    using a c by (auto simp: ApplyProxy_def settings_of_def new_sysproxy_def reg_run_ok(1) [OF ok] Let_def)
  have "v \<notin> set vals \<Longrightarrow> r' v = r v" for v by (auto simp: r' vals_def)
  then have "(\<lambda>v. if v \<in> set vals then map_option (Pair (type_of v)) (?p v) else r' v) = r"
    using snapshot_faithful [OF r] by (auto simp: fun_eq_iff)
  then have "Restore ok m r' = (True, m\<lparr>sp_active := False\<rparr>, r)" by (simp add: Restore_def restore_all [OF ok] m(1))
  then show ?thesis using b m by (simp add: r')
qed

text \<open>
  A second application takes its own values for the old ones where there were none: after the restoration the
  proxy is still on.
\<close>

lemma second_application_sticks:
  "let c = \<lparr>pc_enabled = True, pc_host = ''h'', pc_port = 1, pc_bypass = []\<rparr>;
       ok = (\<lambda>_. True);
       one = ApplyProxy ok c new_sysproxy Map.empty;
       two = ApplyProxy ok c (fst (snd one)) (snd (snd one));
       off = Restore ok (fst (snd two)) (snd (snd two))
   in snd (snd off) valEnable = Some (''REG_DWORD'', ''1'') \<and> snd (snd off) valServer = Some (''REG_SZ'', ''h:1'')"
  by code_simp

text \<open>Switching it off without having switched it on deletes the user's own settings.\<close>

lemma restore_without_snapshot_deletes:
  "snd (snd (ApplyProxy (\<lambda>_. True) \<lparr>pc_enabled = False, pc_host = [], pc_port = 0, pc_bypass = []\<rparr> new_sysproxy
     [valServer \<mapsto> (''REG_SZ'', ''corp:8080'')])) valServer = None"
  by code_simp

end
