(* ===== verification/Spec2Isabelle.thy ===== *)
theory Spec2Isabelle
  imports Prelude Version Manifest GitHub Machine_Spec Connection Update_State Path Handoff Manager Manager_Run
    Manager_Safety Archive Installer Apps Settings Quote Servers Base64 Net_Url Url_Facts Share_Links Link_Facts
    Subscriptions Configgen Selector Daemon Daemon_Safety Daemon_Props Handlers Killswitch
    Firewall_Windows Download Updater Ipc Update_Tool Logging Routes Monitor Core_Process Host
    Update_Service Stats Sysproxy
begin

text \<open>
  header to come
\<close>

end
